(* ===== verification/Prelude.thy ===== *)
theory Prelude
  imports Main "HOL-Library.Word"
begin

text \<open>
  What every component of the model shares.

  Go values: a \<open>byte\<close> is an 8-bit word, a \<open>[]byte\<close> a list of bytes, a Go string (a byte
  sequence) a \<open>string\<close>, whose characters are exactly the 256 byte values; the two
  conversions of the language are \<open>bytes_of\<close> and \<open>string_of\<close>. A Go function that
  returns \<open>(T, error)\<close> or that can panic returns a \<open>result\<close>. Slicing and indexing
  panic out of range. The fixed-width integers of \<open>encoding/binary\<close> are written by
  \<open>le_bytes\<close> and \<open>be_bytes\<close>, the \<open>%d\<close> of \<open>fmt\<close> by \<open>fmt_d\<close>, and \<open>io.ReadFull\<close>
  reads from a \<open>reader\<close>, the bytes a peer still sends and the error that follows them.
\<close>

named_theorems go_defs \<open>definitions that the evaluation of a closed model term unfolds\<close>

named_theorems wire \<open>lengths and inverses of the wire encodings\<close>

section \<open>Bytes and strings\<close>

type_synonym byte = "8 word"

definition byte_of :: "char \<Rightarrow> byte" where
  "byte_of c = word_of_nat (of_char c)"

definition char_of_byte :: "byte \<Rightarrow> char" where
  "char_of_byte b = char_of (unat b)"

text \<open>The conversions \<open>[]byte(s)\<close> and \<open>string(b)\<close>.\<close>

definition bytes_of :: "string \<Rightarrow> byte list" where
  "bytes_of s = map byte_of s"

definition string_of :: "byte list \<Rightarrow> string" where
  "string_of bs = map char_of_byte bs"

declare byte_of_def [go_defs] char_of_byte_def [go_defs]
  bytes_of_def [go_defs] string_of_def [go_defs]

lemma of_char_less_256 [simp]: "(of_char c :: nat) < 256"
  by (metis char_of_mod_256 of_char_of mod_less_divisor of_char_mod_256 zero_less_numeral)

lemma char_of_byte_of [simp]: "char_of_byte (byte_of c) = c"
  by (simp add: char_of_byte_def byte_of_def unat_of_nat)

lemma unat_byte_less [simp]: "unat (b :: byte) < 256"
  using unsigned_less [of b] by simp

lemma unat_16_less [simp]: "unat (w :: 16 word) < 65536"
  using unsigned_less [of w] by simp

lemma unat_32_less [simp]: "unat (w :: 32 word) < 4294967296"
  using unsigned_less [of w] by simp

lemma unat_64_less [simp]: "unat (w :: 64 word) < 18446744073709551616"
  using unsigned_less [of w] by simp

lemma byte_of_char_of_byte [simp]: "byte_of (char_of_byte b) = b"
  by (simp add: char_of_byte_def byte_of_def)

lemma byte_of_eq_iff [simp]: "byte_of c = byte_of d \<longleftrightarrow> c = d"
  by (metis char_of_byte_of)

lemma char_of_byte_eq_iff [simp]: "char_of_byte a = char_of_byte b \<longleftrightarrow> a = b"
  by (metis byte_of_char_of_byte)

lemma string_of_bytes_of [simp]: "string_of (bytes_of s) = s"
  by (simp add: string_of_def bytes_of_def comp_def)

lemma bytes_of_string_of [simp]: "bytes_of (string_of bs) = bs"
  by (simp add: string_of_def bytes_of_def comp_def)

lemma string_of_eq_iff [simp]: "string_of a = string_of b \<longleftrightarrow> a = b"
  by (metis bytes_of_string_of)

lemma bytes_of_eq_iff [simp]: "bytes_of a = bytes_of b \<longleftrightarrow> a = b"
  by (metis string_of_bytes_of)

lemma string_of_eq_conv: "string_of bs = s \<longleftrightarrow> bs = bytes_of s"
  by auto

lemma length_bytes_of [simp]: "length (bytes_of s) = length s"
  by (simp add: bytes_of_def)

lemma length_string_of [simp]: "length (string_of s) = length s"
  by (simp add: string_of_def)

lemma bytes_of_Nil [simp]: "bytes_of [] = []"
  by (simp add: bytes_of_def)

lemma string_of_Nil [simp]: "string_of [] = []"
  by (simp add: string_of_def)

lemma bytes_of_eq_Nil [simp]: "bytes_of s = [] \<longleftrightarrow> s = []"
  by (simp add: bytes_of_def)

lemma string_of_eq_Nil [simp]: "string_of bs = [] \<longleftrightarrow> bs = []"
  by (simp add: string_of_def)

lemma bytes_of_Cons [simp]: "bytes_of (c # s) = byte_of c # bytes_of s"
  by (simp add: bytes_of_def)

lemma string_of_Cons [simp]: "string_of (b # bs) = char_of_byte b # string_of bs"
  by (simp add: string_of_def)

lemma bytes_of_append [simp]: "bytes_of (s @ t) = bytes_of s @ bytes_of t"
  by (simp add: bytes_of_def)

lemma string_of_append [simp]: "string_of (s @ t) = string_of s @ string_of t"
  by (simp add: string_of_def)

section \<open>Errors, panics and results\<close>

text \<open>
  \<open>error\<close> values: the two sentinels of package \<open>io\<close>, an error that is only its text, and
  \<open>fmt.Errorf("prefix: %w", err)\<close>.
\<close>

datatype goerror = EOF | UnexpectedEOF | ErrorS string | Wrap string goerror

primrec error_text :: "goerror \<Rightarrow> string" where
  "error_text EOF = ''EOF''"
| "error_text UnexpectedEOF = ''unexpected EOF''"
| "error_text (ErrorS s) = s"
| "error_text (Wrap p e) = p @ '': '' @ error_text e"

text \<open>The run-time panics the modelled code can raise, and an explicit \<open>panic(message)\<close>.\<close>

datatype panic = PIndex | PSlice | PMakeSlice | PNil | PMessage string

datatype 'a result = Ok 'a | Err goerror | Panic panic

primrec rbind :: "'a result \<Rightarrow> ('a \<Rightarrow> 'b result) \<Rightarrow> 'b result" where
  "rbind (Ok x) f = f x"
| "rbind (Err e) f = Err e"
| "rbind (Panic p) f = Panic p"

definition is_panic :: "'a result \<Rightarrow> bool" where
  "is_panic r = (\<exists>p. r = Panic p)"

lemma is_panic_simps [simp]:
  "is_panic (Panic p)" "\<not> is_panic (Ok x)" "\<not> is_panic (Err e)"
  by (simp_all add: is_panic_def)

lemma is_panic_rbind_iff:
  "is_panic (rbind r f) \<longleftrightarrow> is_panic r \<or> (\<exists>x. r = Ok x \<and> is_panic (f x))"
  by (cases r) auto

text \<open>Add the prefix of \<open>fmt.Errorf("prefix: %w", err)\<close> to an error result.\<close>

primrec wrap_err :: "string \<Rightarrow> 'a result \<Rightarrow> 'a result" where
  "wrap_err p (Ok x) = Ok x"
| "wrap_err p (Err e) = Err (Wrap p e)"
| "wrap_err p (Panic q) = Panic q"

lemma rbind_eq_Ok_iff: "rbind r f = Ok y \<longleftrightarrow> (\<exists>x. r = Ok x \<and> f x = Ok y)"
  by (cases r) auto

lemma rbind_eq_Panic_iff:
  "rbind r f = Panic p \<longleftrightarrow> r = Panic p \<or> (\<exists>x. r = Ok x \<and> f x = Panic p)"
  by (cases r) auto

lemma wrap_err_eq_Ok_iff [simp]: "wrap_err p r = Ok x \<longleftrightarrow> r = Ok x"
  by (cases r) auto

lemma wrap_err_eq_Panic_iff [simp]: "wrap_err p r = Panic q \<longleftrightarrow> r = Panic q"
  by (cases r) auto

lemma is_panic_wrap_err [simp]: "is_panic (wrap_err p r) \<longleftrightarrow> is_panic r"
  by (simp add: is_panic_def)

section \<open>Slices\<close>

text \<open>\<open>b[i:j]\<close> of a slice whose capacity is its length, and \<open>b[i]\<close>.\<close>

definition slice :: "'a list \<Rightarrow> nat \<Rightarrow> nat \<Rightarrow> 'a list result" where
  "slice xs i j = (if i \<le> j \<and> j \<le> length xs then Ok (take (j - i) (drop i xs)) else Panic PSlice)"

definition index :: "'a list \<Rightarrow> nat \<Rightarrow> 'a result" where
  "index xs i = (if i < length xs then Ok (xs ! i) else Panic PIndex)"

declare slice_def [go_defs] index_def [go_defs]

lemma slice_append_middle [simp]:
  "i = length a \<Longrightarrow> j = length a + length b \<Longrightarrow> slice (a @ b @ c) i j = Ok b"
  by (simp add: slice_def)

section \<open>Fixed-width integers\<close>

text \<open>
  \<open>le_bytes k n\<close> are the \<open>k\<close> low bytes of \<open>n\<close>, least significant first:
  \<open>b[0] = byte(n); b[1] = byte(n >> 8); \<dots>\<close>. \<open>le_nat\<close> is the value of such a list. The
  big-endian forms are their mirror images.
\<close>

primrec le_bytes :: "nat \<Rightarrow> nat \<Rightarrow> byte list" where
  "le_bytes 0 n = []"
| "le_bytes (Suc k) n = word_of_nat n # le_bytes k (n div 256)"

primrec le_nat :: "byte list \<Rightarrow> nat" where
  "le_nat [] = 0"
| "le_nat (b # bs) = unat b + 256 * le_nat bs"

definition be_bytes :: "nat \<Rightarrow> nat \<Rightarrow> byte list" where
  "be_bytes k n = rev (le_bytes k n)"

definition be_nat :: "byte list \<Rightarrow> nat" where
  "be_nat bs = le_nat (rev bs)"

declare be_bytes_def [go_defs] be_nat_def [go_defs]

lemma length_le_bytes [simp, wire]: "length (le_bytes k n) = k"
  by (induction k arbitrary: n) auto

lemma length_be_bytes [simp, wire]: "length (be_bytes k n) = k"
  by (simp add: be_bytes_def)

lemma unat_byte_of_nat [simp]: "unat (word_of_nat n :: byte) = n mod 256"
  by (simp add: unat_of_nat)

lemma le_nat_le_bytes [wire]: "le_nat (le_bytes k n) = n mod 256 ^ k"
proof (induction k arbitrary: n)
  case 0
  then show ?case by simp
next
  case (Suc k)
  have "n mod (256 * 256 ^ k) = 256 * (n div 256 mod 256 ^ k) + n mod 256"
    by (rule mod_mult2_eq)
  with Suc show ?case by simp
qed

lemma be_nat_be_bytes [wire]: "be_nat (be_bytes k n) = n mod 256 ^ k"
  by (simp add: be_nat_def be_bytes_def le_nat_le_bytes)

lemma le_nat_bound: "le_nat bs < 256 ^ length bs"
proof (induction bs)
  case Nil
  then show ?case by simp
next
  case (Cons b bs)
  have "unat b + 256 * le_nat bs < 256 + 256 * le_nat bs" by simp
  also have "\<dots> = 256 * Suc (le_nat bs)" by simp
  also have "\<dots> \<le> 256 * 256 ^ length bs" using Cons by (intro mult_le_mono2) simp
  finally show ?case by simp
qed

lemma le_nat_take_bound: "le_nat (take k bs) < 256 ^ k"
proof -
  have "le_nat (take k bs) < 256 ^ length (take k bs)" by (rule le_nat_bound)
  also have "\<dots> \<le> 256 ^ k" by (rule power_increasing) simp_all
  finally show ?thesis .
qed

lemma be_nat_bound: "be_nat bs < 256 ^ length bs"
  using le_nat_bound [of "rev bs"] by (simp add: be_nat_def)

lemma le_bytes_le_nat: "le_bytes (length bs) (le_nat bs) = bs"
proof (induction bs)
  case Nil
  then show ?case by simp
next
  case (Cons b bs)
  have "unat (word_of_nat (unat b + 256 * le_nat bs) :: byte) = (unat b + 256 * le_nat bs) mod 256"
    by (rule unat_byte_of_nat)
  then have "(word_of_nat (unat b + 256 * le_nat bs) :: byte) = b"
    by (simp only: word_unat_eq_iff) (simp add: mod_less)
  moreover have "(unat b + 256 * le_nat bs) div 256 = le_nat bs"
    by simp
  ultimately show ?case using Cons by simp
qed

lemma be_bytes_be_nat: "be_bytes (length bs) (be_nat bs) = bs"
  using le_bytes_le_nat [of "rev bs"] by (simp add: be_nat_def be_bytes_def)

section \<open>Decimal and hexadecimal text\<close>

fun show_nat :: "nat \<Rightarrow> string" where
  "show_nat n =
     (if n < 10 then [char_of (48 + n)] else show_nat (n div 10) @ [char_of (48 + n mod 10)])"

declare show_nat.simps [simp del]

lemma digit_chars [simp, go_defs]:
  "char_of (48 :: nat) = CHR ''0''" "char_of (49 :: nat) = CHR ''1''" "char_of (50 :: nat) = CHR ''2''"
  "char_of (51 :: nat) = CHR ''3''" "char_of (52 :: nat) = CHR ''4''" "char_of (53 :: nat) = CHR ''5''"
  "char_of (54 :: nat) = CHR ''6''" "char_of (55 :: nat) = CHR ''7''" "char_of (56 :: nat) = CHR ''8''"
  "char_of (57 :: nat) = CHR ''9''"
  by (simp_all add: char_of_def bit_0)

text \<open>\<open>%d\<close> of a signed integer.\<close>

definition fmt_d :: "int \<Rightarrow> string" where
  "fmt_d i = (if i < 0 then CHR ''-'' # show_nat (nat (- i)) else show_nat (nat i))"

text \<open>One digit of \<open>%x\<close>, and \<open>%02x\<close> of a byte.\<close>

definition hex_digit :: "nat \<Rightarrow> char" where
  "hex_digit d = (if d < 10 then char_of (48 + d) else char_of (87 + d))"

definition fmt_02x :: "byte \<Rightarrow> string" where
  "fmt_02x b = [hex_digit (unat b div 16), hex_digit (unat b mod 16)]"

lemma length_show_nat: "n < 10 ^ Suc k \<Longrightarrow> length (show_nat n) \<le> Suc k"
proof (induction k arbitrary: n)
  case (Suc k)
  then have "n div 10 < 10 ^ Suc k" by (simp add: less_mult_imp_div_less)
  from Suc.IH [OF this] show ?case by (subst show_nat.simps) simp
qed (simp add: show_nat.simps)

declare fmt_d_def [go_defs] hex_digit_def [go_defs] fmt_02x_def [go_defs]

section \<open>Readers\<close>

text \<open>
  An \<open>io.Reader\<close> over a connection: the bytes the peer still delivers, and the error every
  read meets after them (\<open>EOF\<close> when the peer closed, anything else for a broken connection).
\<close>

record reader =
  pending :: "byte list"
  closing :: goerror

text \<open>
  \<open>io.ReadFull\<close> into a buffer of \<open>n\<close> bytes: all of it, or \<open>EOF\<close> if nothing could be read,
  or \<open>UnexpectedEOF\<close> if the stream ended in the middle; another error comes through as it is.
\<close>

definition ReadFull :: "nat \<Rightarrow> reader \<Rightarrow> byte list result \<times> reader" where
  "ReadFull n r =
     (if n \<le> length (pending r)
      then (Ok (take n (pending r)), r\<lparr>pending := drop n (pending r)\<rparr>)
      else (Err (if closing r = EOF \<and> pending r \<noteq> [] then UnexpectedEOF else closing r),
            r\<lparr>pending := []\<rparr>))"

lemma ReadFull_append [simp]:
  "n = length bs \<Longrightarrow> ReadFull n \<lparr>pending = bs @ rest, closing = e\<rparr> = (Ok bs, \<lparr>pending = rest, closing = e\<rparr>)"
  by (simp add: ReadFull_def)

lemma ReadFull_OkD:
  assumes "ReadFull n r = (Ok bs, r')"
  shows "length bs = n" and "pending r = bs @ pending r'" and "closing r' = closing r"
  using assms by (auto simp: ReadFull_def split: if_splits)

lemma ReadFull_Ok_iff:
  "ReadFull n r = (Ok bs, r') \<longleftrightarrow>
   length bs = n \<and> pending r = bs @ pending r' \<and> closing r' = closing r"
  by (auto simp: ReadFull_def)

lemma ReadFull_no_panic: "fst (ReadFull n r) \<noteq> Panic p"
  by (simp add: ReadFull_def)

section \<open>Writers\<close>

text \<open>
  An \<open>io.Writer\<close> over a connection: the bytes delivered to the peer so far, and how many more
  it takes before it breaks (\<open>None\<close>: it never does). A failed \<open>Write\<close> has delivered a
  prefix.
\<close>

record writer =
  sent :: "byte list"
  budget :: "nat option"

definition Write :: "byte list \<Rightarrow> writer \<Rightarrow> unit result \<times> writer" where
  "Write bs w =
     (case budget w of
        None \<Rightarrow> (Ok (), w\<lparr>sent := sent w @ bs\<rparr>)
      | Some k \<Rightarrow>
          (if length bs \<le> k
           then (Ok (), w\<lparr>sent := sent w @ bs, budget := Some (k - length bs)\<rparr>)
           else (Err (ErrorS ''broken pipe''), w\<lparr>sent := sent w @ take k bs, budget := Some 0\<rparr>)))"

lemma Write_OkD: "Write bs w = (Ok u, w') \<Longrightarrow> sent w' = sent w @ bs"
  by (auto simp: Write_def split: option.splits if_splits)

lemma Write_unbroken [simp]:
  "budget w = None \<Longrightarrow> Write bs w = (Ok (), w\<lparr>sent := sent w @ bs\<rparr>)"
  by (simp add: Write_def)

lemma Write_no_panic: "fst (Write bs w) \<noteq> Panic p"
  by (simp add: Write_def split: option.splits)

section \<open>Signed 64-bit integers\<close>

text \<open>The Go type \<open>int\<close> (64 bits): an \<open>int\<close> reduced to two's complement.\<close>

definition int64 :: "int \<Rightarrow> int" where
  "int64 i = signed_take_bit 63 i"

text \<open>\<open>make([]byte, n)\<close>: a run-time panic when \<open>n\<close> is negative or beyond the address space.\<close>

definition make_bytes :: "int \<Rightarrow> byte list result" where
  "make_bytes n = (if n < 0 \<or> n > 2 ^ 48 then Panic PMakeSlice else Ok (replicate (nat n) 0))"

declare int64_def [go_defs] make_bytes_def [go_defs]

lemma int64_id: "- (2 ^ 63) \<le> i \<Longrightarrow> i < 2 ^ 63 \<Longrightarrow> int64 i = i"
  by (simp add: int64_def signed_take_bit_int_eq_self)

lemma int64_wrap: "2 ^ 63 \<le> i \<Longrightarrow> i < 2 ^ 64 \<Longrightarrow> int64 i = i - 2 ^ 64"
proof -
  assume a: "2 ^ 63 \<le> i" "i < 2 ^ 64"
  have "(i + 2 ^ 63) mod 2 ^ 64 = ((i - 2 ^ 63) + 2 ^ 64) mod 2 ^ 64"
    by (rule arg_cong [where f = "\<lambda>x. x mod 2 ^ 64"]) simp
  also have "\<dots> = i - 2 ^ 63"
    using a by (simp only: mod_add_self2) (simp add: mod_pos_pos_trivial)
  finally show ?thesis
    by (simp add: int64_def signed_take_bit_eq_take_bit_shift take_bit_eq_mod)
qed

section \<open>What a peer parses\<close>

text \<open>
  Pieces of the peers' parsers, for stating what an encoding means to its reader: the next
  byte, the next \<open>n\<close> bytes, the bytes before the next null. \<open>no_null\<close> is a string with no
  null byte in it.
\<close>

definition no_null :: "string \<Rightarrow> bool" where
  "no_null s = (0 \<notin> set (bytes_of s))"

fun next_byte :: "byte list \<Rightarrow> (byte \<times> byte list) option" where
  "next_byte [] = None"
| "next_byte (b # bs) = Some (b, bs)"

definition next_bytes :: "nat \<Rightarrow> byte list \<Rightarrow> (byte list \<times> byte list) option" where
  "next_bytes n bs = (if n \<le> length bs then Some (take n bs, drop n bs) else None)"

fun next_null :: "byte list \<Rightarrow> (byte list \<times> byte list) option" where
  "next_null [] = None"
| "next_null (b # bs) =
     (if b = 0 then Some ([], bs) else map_option (\<lambda>(s, r). (b # s, r)) (next_null bs))"

lemma next_bytes_append [simp]: "length a = n \<Longrightarrow> next_bytes n (a @ b) = Some (a, b)"
  by (simp add: next_bytes_def)

lemma next_bytes_all [simp]: "length a = n \<Longrightarrow> next_bytes n a = Some (a, [])"
  by (simp add: next_bytes_def)

lemma next_null_append [simp]: "0 \<notin> set s \<Longrightarrow> next_null (s @ 0 # r) = Some (s, r)"
  by (induction s) auto

end
