(* ===== verification/PgParser.thy ===== *)
theory PgParser
  imports Prelude
begin

text \<open>
  The model of \<^verbatim>\<open>pkg/pgparser/parser.go\<close>: the transport form of a wire message
  (\<open>Encode\<close>, \<open>DecodeMessage\<close>), the startup packet read from a connection
  (\<open>ReadStartupRaw\<close>) and its parameters (\<open>ParseStartupMessage\<close>), and the SQL text taken
  out of a \<open>Query\<close> or \<open>Parse\<close> body (\<open>ExtractSQL\<close>). A Go \<open>map[string]string\<close> is a
  partial map; \<open>findNull\<close>'s \<open>-1\<close> is \<open>None\<close>.
\<close>

section \<open>Messages\<close>

record Message =
  msg_type :: byte
  msg_payload :: "byte list"

definition Encode :: "Message \<Rightarrow> byte list" where
  "Encode m = msg_type m # be_bytes 4 (unat (word_of_nat (length (msg_payload m)) :: 32 word))
     @ msg_payload m"

definition DecodeMessage :: "byte list \<Rightarrow> Message result" where
  "DecodeMessage data =
     (if length data < 5 then
        Err (ErrorS (''message too short: '' @ fmt_d (int (length data)) @ '' bytes''))
      else
        rbind (slice data 1 5) (\<lambda>lenb. let payloadLen = be_nat lenb in
          if length data < 5 + payloadLen then
            Err (ErrorS (''truncated message: expected '' @ fmt_d (int (5 + payloadLen)) @
              '', got '' @ fmt_d (int (length data))))
          else
            rbind (index data 0) (\<lambda>t.
            rbind (slice data 5 (5 + payloadLen)) (\<lambda>p.
              Ok \<lparr>msg_type = t, msg_payload = p\<rparr>))))"

section \<open>Scanning for null bytes\<close>

function findNull :: "byte list \<Rightarrow> nat \<Rightarrow> nat option" where
  "findNull buf i =
     (if i < length buf then (if buf ! i = 0 then Some i else findNull buf (i + 1)) else None)"
  by pat_completeness auto
termination
  by (relation "measure (\<lambda>(buf, i). length buf - i)") auto

declare findNull.simps [simp del]

fun trimNull :: "byte list \<Rightarrow> byte list" where
  "trimNull [] = []"
| "trimNull (c # cs) = (if c = 0 then [] else c # trimNull cs)"

text \<open>The loop of \<open>splitNull\<close>; \<open>cur\<close> is \<open>b[start:i]\<close>.\<close>

fun splitNull_loop :: "byte list \<Rightarrow> byte list \<Rightarrow> string list" where
  "splitNull_loop cur [] = (if cur \<noteq> [] then [string_of cur] else [])"
| "splitNull_loop cur (c # cs) =
     (if c = 0 then string_of cur # splitNull_loop [] cs else splitNull_loop (cur @ [c]) cs)"

definition splitNull :: "byte list \<Rightarrow> string list" where
  "splitNull b = splitNull_loop [] b"

section \<open>The startup packet\<close>

record StartupMessageData =
  ProtocolVersion :: "32 word"
  Parameters :: "string \<Rightarrow> string option"

lemma findNull_SomeD: "findNull buf i = Some k \<Longrightarrow> i \<le> k \<and> k < length buf \<and> buf ! k = 0"
proof (induction buf i rule: findNull.induct)
  case (1 buf i)
  from "1.prems" have i: "i < length buf"
    by (subst (asm) findNull.simps) (simp split: if_splits)
  show ?case
  proof (cases "buf ! i = 0")
    case True
    with "1.prems" i show ?thesis by (subst (asm) findNull.simps) simp
  next
    case False
    with "1.prems" i have "findNull buf (i + 1) = Some k"
      by (subst (asm) findNull.simps) simp
    with "1.IH" [OF i False] show ?thesis by simp
  qed
qed

text \<open>The loop of \<open>ParseStartupMessage\<close> over the bytes after the version.\<close>

function parse_params :: "byte list \<Rightarrow> nat \<Rightarrow> (string \<Rightarrow> string option) \<Rightarrow> (string \<Rightarrow> string option)" where
  "parse_params buf i ps =
     (if i < length buf then
        (case findNull buf i of
           None \<Rightarrow> ps
         | Some keyEnd \<Rightarrow>
             (case findNull buf (keyEnd + 1) of
                None \<Rightarrow> ps
              | Some valEnd \<Rightarrow>
                  parse_params buf (valEnd + 1)
                    (ps(string_of (take (keyEnd - i) (drop i buf)) \<mapsto>
                        string_of (take (valEnd - (keyEnd + 1)) (drop (keyEnd + 1) buf))))))
      else ps)"
  by pat_completeness auto
termination
  by (relation "measure (\<lambda>(buf, i, ps). length buf - i)") (auto dest!: findNull_SomeD)

declare parse_params.simps [simp del]

definition ParseStartupMessage :: "byte list \<Rightarrow> StartupMessageData result" where
  "ParseStartupMessage raw =
     (if length raw < 8 then
        Err (ErrorS (''startup message too short: '' @ fmt_d (int (length raw))))
      else
        rbind (slice raw 4 8) (\<lambda>ver.
        rbind (slice raw 8 (length raw)) (\<lambda>buf.
          Ok \<lparr>ProtocolVersion = word_of_nat (be_nat ver),
              Parameters = parse_params buf 0 Map.empty\<rparr>)))"

text \<open>
  \<open>ReadStartupRaw\<close>: the length is an \<open>int32\<close>, so a first byte of 128 or more is negative.
\<close>

definition ReadStartupRaw :: "reader \<Rightarrow> byte list result \<times> reader" where
  "ReadStartupRaw r =
     (case ReadFull 4 r of
        (Ok lenBuf, r1) \<Rightarrow>
          (let totalLen = sint (word_of_nat (be_nat lenBuf) :: 32 word) in
           if totalLen < 4 then
             (Err (ErrorS (''invalid startup packet length: '' @ fmt_d totalLen)), r1)
           else
             (case ReadFull (nat (totalLen - 4)) r1 of
                (Ok restBuf, r2) \<Rightarrow> (Ok (lenBuf @ restBuf), r2)
              | (Err e, r2) \<Rightarrow> (Err e, r2)
              | (Panic p, r2) \<Rightarrow> (Panic p, r2)))
      | (Err e, r1) \<Rightarrow> (Err e, r1)
      | (Panic p, r1) \<Rightarrow> (Panic p, r1))"

section \<open>Message bodies\<close>

definition ExtractSQL :: "byte \<Rightarrow> byte list \<Rightarrow> string" where
  "ExtractSQL msgType payload =
     (if msgType = byte_of CHR ''Q'' then string_of (trimNull payload)
      else if msgType = byte_of CHR ''P'' then
        (let parts = splitNull payload in if length parts \<ge> 2 then parts ! 1 else [])
      else [])"

definition ExtractStatementName :: "byte list \<Rightarrow> string" where
  "ExtractStatementName payload =
     (let parts = splitNull payload in if length parts \<ge> 1 then parts ! 0 else [])"

definition IsQueryType :: "byte \<Rightarrow> bool" where
  "IsQueryType msgType = (msgType \<in> set (map byte_of ''QPBEDHS''))"

definition IsTerminate :: "byte \<Rightarrow> bool" where
  "IsTerminate msgType = (msgType = byte_of CHR ''X'')"

definition MessageTypeName :: "byte \<Rightarrow> string" where
  "MessageTypeName msgType =
     (if msgType = 0 then ''StartupMessage''
      else if msgType = byte_of CHR ''Q'' then ''Query''
      else if msgType = byte_of CHR ''P'' then ''Parse''
      else if msgType = byte_of CHR ''B'' then ''Bind''
      else if msgType = byte_of CHR ''E'' then ''Execute''
      else if msgType = byte_of CHR ''D'' then ''Describe''
      else if msgType = byte_of CHR ''H'' then ''Flush''
      else if msgType = byte_of CHR ''S'' then ''Sync''
      else if msgType = byte_of CHR ''X'' then ''Terminate''
      else if msgType = byte_of CHR ''p'' then ''PasswordMessage''
      else if msgType = byte_of CHR ''R'' then ''Authentication''
      else if msgType = byte_of CHR ''K'' then ''BackendKeyData''
      else if msgType = byte_of CHR ''Z'' then ''ReadyForQuery''
      else if msgType = byte_of CHR ''T'' then ''RowDescription''
      else if msgType = byte_of CHR ''C'' then ''CommandComplete''
      else if msgType = byte_of CHR ''N'' then ''NoticeResponse''
      else ''Unknown(0x'' @ fmt_02x msgType @ '')'')"

section \<open>Decoding inverts encoding\<close>

lemma Encode_32:
  "length (msg_payload m) < 2 ^ 32 \<Longrightarrow>
   Encode m = msg_type m # be_bytes 4 (length (msg_payload m)) @ msg_payload m"
  by (simp add: Encode_def unat_of_nat mod_less)

lemma length_Encode [wire]: "length (Encode m) = 5 + length (msg_payload m)"
  by (simp add: Encode_def)

lemma DecodeMessage_Cons:
  assumes "length lenb = 4"
  shows "DecodeMessage (t # lenb @ body) =
     (if length body < be_nat lenb then
        Err (ErrorS (''truncated message: expected '' @ fmt_d (int (5 + be_nat lenb)) @
          '', got '' @ fmt_d (int (5 + length body))))
      else Ok \<lparr>msg_type = t, msg_payload = take (be_nat lenb) body\<rparr>)"
  using assms by (simp add: DecodeMessage_def slice_def index_def Let_def)

lemma split_five:
  assumes "5 \<le> length d"
  obtains t lenb body where "d = t # lenb @ body" and "length lenb = 4"
proof -
  from assms obtain t d' where d: "d = t # d'" and len: "4 \<le> length d'"
    by (cases d) auto
  have "d = t # take 4 d' @ drop 4 d'" and "length (take 4 d') = 4"
    using d len by simp_all
  then show thesis using that by blast
qed

lemma DecodeMessage_short: "length d < 5 \<Longrightarrow> \<exists>e. DecodeMessage d = Err e"
  by (simp add: DecodeMessage_def)

text \<open>
  C34: \<open>DecodeMessage\<close> returns a message exactly when the data starts with that message's
  \<open>Encode\<close> form (whose payload fits the 32-bit length field); whatever follows is ignored.
\<close>

theorem DecodeMessage_iff:
  "DecodeMessage d = Ok m \<longleftrightarrow>
   length (msg_payload m) < 2 ^ 32 \<and> (\<exists>rest. d = Encode m @ rest)"
proof (cases "length d < 5")
  case True
  then have "\<not> (\<exists>rest. d = Encode m @ rest)"
    by (auto simp: length_Encode)
  with True show ?thesis using DecodeMessage_short by fastforce
next
  case False
  then obtain t lenb body where d: "d = t # lenb @ body" and len: "length lenb = 4"
    using split_five by (metis not_less)
  have lenb: "lenb = be_bytes 4 (be_nat lenb)"
    using be_bytes_be_nat [of lenb] len by simp
  have bound: "be_nat lenb < 2 ^ 32"
    using be_nat_bound [of lenb] len by simp
  show ?thesis
  proof
    assume "DecodeMessage d = Ok m"
    then have m: "m = \<lparr>msg_type = t, msg_payload = take (be_nat lenb) body\<rparr>"
      and body: "be_nat lenb \<le> length body"
      using d len by (auto simp: DecodeMessage_Cons split: if_splits)
    have "Encode m = t # lenb @ take (be_nat lenb) body"
      using m body bound lenb by (subst Encode_32) (simp_all add: min_absorb2)
    then have "d = Encode m @ drop (be_nat lenb) body" using d by simp
    then show "length (msg_payload m) < 2 ^ 32 \<and> (\<exists>rest. d = Encode m @ rest)"
      using m body bound by auto
  next
    assume "length (msg_payload m) < 2 ^ 32 \<and> (\<exists>rest. d = Encode m @ rest)"
    then obtain rest where small: "length (msg_payload m) < 2 ^ 32"
      and "d = Encode m @ rest" by blast
    then have "d = msg_type m # be_bytes 4 (length (msg_payload m)) @ msg_payload m @ rest"
      by (simp add: Encode_32)
    then show "DecodeMessage d = Ok m"
      using small by (simp add: DecodeMessage_Cons be_nat_be_bytes mod_less)
  qed
qed

section \<open>The startup packet: framing\<close>

lemma sint_be_nat:
  assumes "n < 2 ^ 32"
  shows "sint (word_of_nat n :: 32 word) = (if n < 2 ^ 31 then int n else int n - 2 ^ 32)"
proof (cases "n < 2 ^ 31")
  case True
  then show ?thesis using assms
    by (simp add: sint_uint uint_nat unat_of_nat mod_less signed_take_bit_int_eq_self)
next
  case False
  have "(int n + 2 ^ 31) mod 2 ^ 32 = ((int n - 2 ^ 31) + 2 ^ 32) mod 2 ^ 32"
    by (rule arg_cong [where f = "\<lambda>x. x mod 2 ^ 32"]) simp
  also have "\<dots> = int n - 2 ^ 31"
    using False assms by (simp only: mod_add_self2) (simp add: mod_pos_pos_trivial)
  finally show ?thesis using False assms
    by (simp add: sint_uint uint_nat unat_of_nat mod_less signed_take_bit_eq_take_bit_shift
        take_bit_eq_mod)
qed

lemma ReadStartupRaw_Ok:
  "ReadStartupRaw r = (Ok raw, r') \<longleftrightarrow>
   4 \<le> length raw \<and> length raw < 2 ^ 31 \<and> take 4 raw = be_bytes 4 (length raw) \<and>
   pending r = raw @ pending r' \<and> closing r' = closing r"
  (is "?L \<longleftrightarrow> ?R")
proof
  assume ?L
  then obtain lenBuf r1 restBuf where 1: "ReadFull 4 r = (Ok lenBuf, r1)"
    and low: "4 \<le> sint (word_of_nat (be_nat lenBuf) :: 32 word)"
    and 2: "ReadFull (nat (sint (word_of_nat (be_nat lenBuf) :: 32 word) - 4)) r1 = (Ok restBuf, r')"
    and raw: "raw = lenBuf @ restBuf"
    by (auto simp: ReadStartupRaw_def Let_def split: prod.splits result.splits if_splits)
  have len: "length lenBuf = 4" using 1 by (simp add: ReadFull_Ok_iff)
  have bound: "be_nat lenBuf < 2 ^ 32" using be_nat_bound [of lenBuf] len by simp
  have n: "sint (word_of_nat (be_nat lenBuf) :: 32 word) = int (be_nat lenBuf)"
    and small: "be_nat lenBuf < 2 ^ 31"
    using low sint_be_nat [OF bound] bound by (auto split: if_splits)
  have "length raw = be_nat lenBuf" using 2 raw len low n by (simp add: ReadFull_Ok_iff)
  moreover have "lenBuf = be_bytes 4 (be_nat lenBuf)"
    using be_bytes_be_nat [of lenBuf] len by simp
  ultimately show ?R using 1 2 raw len low n small by (auto simp: ReadFull_Ok_iff)
next
  assume R: ?R
  define n where "n = length raw"
  have be: "be_nat (take 4 raw) = n" using R by (simp add: n_def be_nat_be_bytes mod_less)
  have sint: "sint (word_of_nat n :: 32 word) = int n"
    using R sint_be_nat [of n] by (simp add: n_def)
  have raw: "raw = take 4 raw @ drop 4 raw" by simp
  define r1 where "r1 = r\<lparr>pending := drop 4 raw @ pending r'\<rparr>"
  have 1: "ReadFull 4 r = (Ok (take 4 raw), r1)"
    using R raw by (auto simp: ReadFull_Ok_iff r1_def n_def)
  have 2: "ReadFull (nat (int n - 4)) r1 = (Ok (drop 4 raw), r')"
    using R by (auto simp: ReadFull_Ok_iff r1_def n_def)
  show ?L using 1 2 sint be R append_take_drop_id [of 4 raw]
    by (simp add: ReadStartupRaw_def Let_def n_def)
qed

text \<open>
  C35: \<open>ReadStartupRaw\<close> returns \<open>raw\<close> exactly when \<open>raw\<close> is what the connection
  delivers next, it is 4 to \<open>2^31 - 1\<close> bytes long and its first four bytes are its own
  length; it consumes those bytes and no other.
\<close>

theorem ReadStartupRaw_iff:
  "ReadStartupRaw r = (Ok raw, r') \<longleftrightarrow>
   4 \<le> length raw \<and> length raw < 2 ^ 31 \<and> take 4 raw = be_bytes 4 (length raw) \<and>
   pending r = raw @ pending r' \<and> closing r' = closing r"
  by (rule ReadStartupRaw_Ok)

lemma ReadStartupRaw_no_panic: "fst (ReadStartupRaw r) \<noteq> Panic p"
  by (auto simp: ReadStartupRaw_def Let_def ReadFull_def)

section \<open>The startup packet: parameters\<close>

lemma findNull_skip:
  assumes "0 \<notin> set a"
  shows "findNull (p @ a @ rest) (length p) = findNull (p @ a @ rest) (length p + length a)"
  using assms
proof (induction a arbitrary: p)
  case Nil
  then show ?case by simp
next
  case (Cons x a)
  from Cons.IH [of "p @ [x]"] Cons.prems
  have "findNull (p @ x # a @ rest) (Suc (length p)) =
        findNull (p @ x # a @ rest) (length p + length (x # a))" by simp
  then show ?case using Cons.prems by (subst findNull.simps) (simp add: nth_append)
qed

lemma findNull_append:
  "0 \<notin> set a \<Longrightarrow> findNull (p @ a @ 0 # rest) (length p) = Some (length p + length a)"
  by (subst findNull_skip) (simp_all add: findNull.simps nth_append)

lemma findNull_end: "0 \<notin> set a \<Longrightarrow> findNull (p @ a) (length p) = None"
  using findNull_skip [of a p "[]"] by (simp add: findNull.simps)

text \<open>The startup packet a client sends: the \<open>FE/BE\<close> protocol's key-value list.\<close>

definition kv_bytes :: "(string \<times> string) list \<Rightarrow> byte list" where
  "kv_bytes kvs = concat (map (\<lambda>(k, v). bytes_of k @ [0] @ bytes_of v @ [0]) kvs)"

definition startup_packet :: "32 word \<Rightarrow> (string \<times> string) list \<Rightarrow> byte list" where
  "startup_packet ver kvs =
     be_bytes 4 (9 + length (kv_bytes kvs)) @ be_bytes 4 (unat ver) @ kv_bytes kvs @ [0]"

lemma parse_params_kvs:
  assumes "\<forall>(k, v) \<in> set kvs. no_null k \<and> no_null v"
  shows "parse_params (p @ kv_bytes kvs @ [0]) (length p) ps = ps ++ map_of (rev kvs)"
  using assms
proof (induction kvs arbitrary: p ps)
  case Nil
  show ?case
    by (subst parse_params.simps)
      (simp add: kv_bytes_def findNull_append [of "[]" p "[]", simplified]
        findNull_end [of "[]" "p @ [0]", simplified])
next
  case (Cons kv kvs)
  obtain k v where kv: "kv = (k, v)" by (cases kv)
  define rest where "rest = kv_bytes kvs @ [0]"
  define buf where "buf = p @ bytes_of k @ 0 # bytes_of v @ 0 # rest"
  have nulls: "0 \<notin> set (bytes_of k)" "0 \<notin> set (bytes_of v)"
    using Cons.prems kv by (auto simp: no_null_def)
  have 1: "findNull buf (length p) = Some (length p + length k)"
    using findNull_append [OF nulls(1), of p] by (simp add: buf_def)
  have 2: "findNull buf (length p + length k + 1) = Some (length p + length k + 1 + length v)"
    using findNull_append [OF nulls(2), of "p @ bytes_of k @ [0]" rest] by (simp add: buf_def)
  have "parse_params buf (length p) ps =
        parse_params buf (length p + length k + 1 + length v + 1) (ps(k \<mapsto> v))"
    by (subst parse_params.simps) (simp add: 1 2 [simplified], simp add: buf_def)
  also have "\<dots> = ps(k \<mapsto> v) ++ map_of (rev kvs)"
    using Cons.IH [of "p @ bytes_of k @ [0] @ bytes_of v @ [0]" "ps(k \<mapsto> v)"] Cons.prems
    by (simp add: buf_def rest_def add.assoc fun_upd_def)
  finally show ?case using kv by (simp add: buf_def rest_def kv_bytes_def map_add_def fun_eq_iff
        split: option.splits)
qed

text \<open>
  The startup packet of any protocol version and parameter list (no null byte inside a
  name or a value) is read off the connection whole, leaving what follows it, and its
  parse gives back the version and every parameter, a later duplicate winning.
\<close>

theorem startup_roundtrip:
  assumes "\<forall>(k, v) \<in> set kvs. no_null k \<and> no_null v"
    and "length (startup_packet ver kvs) < 2 ^ 31"
  shows "ReadStartupRaw \<lparr>pending = startup_packet ver kvs @ rest, closing = e\<rparr> =
           (Ok (startup_packet ver kvs), \<lparr>pending = rest, closing = e\<rparr>)
       \<and> ParseStartupMessage (startup_packet ver kvs) =
           Ok \<lparr>ProtocolVersion = ver, Parameters = map_of (rev kvs)\<rparr>"
proof
  show "ReadStartupRaw \<lparr>pending = startup_packet ver kvs @ rest, closing = e\<rparr> =
           (Ok (startup_packet ver kvs), \<lparr>pending = rest, closing = e\<rparr>)"
    using assms(2) by (simp add: ReadStartupRaw_Ok startup_packet_def)
next
  have "slice (startup_packet ver kvs) 4 8 = Ok (be_bytes 4 (unat ver))"
    and "slice (startup_packet ver kvs) 8 (length (startup_packet ver kvs)) = Ok (kv_bytes kvs @ [0])"
    by (simp_all add: startup_packet_def slice_def)
  moreover have "parse_params (kv_bytes kvs @ [0]) 0 Map.empty = map_of (rev kvs)"
    using parse_params_kvs [OF assms(1), of "[]" Map.empty] by simp
  moreover have "word_of_nat (be_nat (be_bytes 4 (unat ver))) = ver"
    by (simp add: be_nat_be_bytes mod_less)
  moreover have "8 \<le> length (startup_packet ver kvs)" by (simp add: startup_packet_def)
  ultimately show "ParseStartupMessage (startup_packet ver kvs) =
           Ok \<lparr>ProtocolVersion = ver, Parameters = map_of (rev kvs)\<rparr>"
    by (simp add: ParseStartupMessage_def)
qed

section \<open>Message bodies\<close>

lemma trimNull_append: "0 \<notin> set a \<Longrightarrow> trimNull (a @ 0 # rest) = a"
  by (induction a) auto

lemma splitNull_loop_append:
  "0 \<notin> set a \<Longrightarrow> splitNull_loop cur (a @ 0 # rest) = string_of (cur @ a) # splitNull_loop [] rest"
  by (induction a arbitrary: cur) auto

lemma splitNull_append:
  "0 \<notin> set a \<Longrightarrow> splitNull (a @ 0 # rest) = string_of a # splitNull rest"
  by (simp add: splitNull_def splitNull_loop_append)

lemma ExtractSQL_other:
  "t \<noteq> byte_of CHR ''Q'' \<Longrightarrow> t \<noteq> byte_of CHR ''P'' \<Longrightarrow> ExtractSQL t payload = []"
  by (simp add: ExtractSQL_def)

text \<open>
  The SQL a client puts into a \<open>Query\<close> body (text, null) or a \<open>Parse\<close> body (statement
  name, null, text, null, parameter types) is what \<open>ExtractSQL\<close> returns, and the
  statement name is what \<open>ExtractStatementName\<close> returns.
\<close>

theorem ExtractSQL_bodies:
  assumes "no_null sql" and "no_null name"
  shows "ExtractSQL (byte_of CHR ''Q'') (bytes_of sql @ 0 # rest) = sql
       \<and> ExtractSQL (byte_of CHR ''P'') (bytes_of name @ 0 # bytes_of sql @ 0 # rest) = sql
       \<and> ExtractStatementName (bytes_of name @ 0 # bytes_of sql @ 0 # rest) = name"
  using assms
  by (simp add: ExtractSQL_def ExtractStatementName_def no_null_def trimNull_append
      splitNull_append Let_def)

theorem ExtractSQL_bodies_witness:
  "no_null ''SELECT 1'' \<and> no_null ''s1''
   \<and> ExtractSQL (byte_of CHR ''P'') (bytes_of ''s1'' @ 0 # bytes_of ''SELECT 1'' @ 0 # [0, 0]) = ''SELECT 1''"
proof -
  have h: "no_null ''SELECT 1''" "no_null ''s1''"
    by (simp_all add: no_null_def bytes_of_def byte_of_def)
  show ?thesis using h ExtractSQL_bodies [OF h, of "[0, 0]"] by blast
qed

theorem startup_roundtrip_witness:
  "length (startup_packet 196608 [(''user'', ''pg'')]) < 2 ^ 31
   \<and> ParseStartupMessage (startup_packet 196608 [(''user'', ''pg'')]) =
     Ok \<lparr>ProtocolVersion = 196608, Parameters = [''user'' \<mapsto> ''pg'']\<rparr>"
proof -
  have h1: "\<forall>(k, v) \<in> set [(''user'', ''pg'')]. no_null k \<and> no_null v"
    by (simp add: no_null_def bytes_of_def byte_of_def)
  have h2: "length (startup_packet 196608 [(''user'', ''pg'')]) < 2 ^ 31"
    by (simp add: startup_packet_def kv_bytes_def)
  show ?thesis using h2 startup_roundtrip [OF h1 h2, of "[]" EOF] by simp
qed

end
