(* ===== verification/MyProtocol.thy ===== *)
theory MyProtocol
  imports Prelude "HOL-Library.Monad_Syntax"
begin

unbundle bit_operations_syntax

text \<open>
  The model of \<^verbatim>\<open>pkg/mysqlproxy/protocol.go\<close>, the proxy's own implementation of the MySQL
  wire protocol: packets, the server greeting, the client's handshake response,
  length-encoded integers and strings, and the OK, ERR, EOF, column definition and row packets.
  A position in a payload is a \<open>nat\<close>; the length of the authentication response, which
  the code keeps in an \<open>int\<close> and which may be negative or overflow, is an \<open>int\<close> reduced by
  \<open>int64\<close>. \<open>len(payload)\<close> is also its capacity, as \<open>ReadPacket\<close> makes it.
\<close>

section \<open>Constants\<close>

definition ClientLongPassword :: "32 word" where "ClientLongPassword = push_bit 0 1"
definition ClientFoundRows :: "32 word" where "ClientFoundRows = push_bit 1 1"
definition ClientLongFlag :: "32 word" where "ClientLongFlag = push_bit 2 1"
definition ClientConnectWithDB :: "32 word" where "ClientConnectWithDB = push_bit 3 1"
definition ClientProtocol41 :: "32 word" where "ClientProtocol41 = push_bit 9 1"
definition ClientTransactions :: "32 word" where "ClientTransactions = push_bit 13 1"
definition ClientSecureConnection :: "32 word" where "ClientSecureConnection = push_bit 15 1"
definition ClientMultiStatements :: "32 word" where "ClientMultiStatements = push_bit 16 1"
definition ClientMultiResults :: "32 word" where "ClientMultiResults = push_bit 17 1"
definition ClientPluginAuth :: "32 word" where "ClientPluginAuth = push_bit 19 1"
definition ClientPluginAuthLenencClientData :: "32 word" where
  "ClientPluginAuthLenencClientData = push_bit 21 1"
definition ClientDeprecateEOF :: "32 word" where "ClientDeprecateEOF = push_bit 24 1"

definition ServerStatusAutocommit :: "16 word" where "ServerStatusAutocommit = 2"
definition CharsetUTF8MB4 :: byte where "CharsetUTF8MB4 = 45"
definition AuthPluginName :: string where "AuthPluginName = ''mysql_native_password''"
definition MaxPayloadLen :: nat where "MaxPayloadLen = 2 ^ 24 - 1"

definition ServerCapabilityFlags :: "32 word" where
  "ServerCapabilityFlags =
     ClientLongPassword OR ClientFoundRows OR ClientLongFlag OR ClientConnectWithDB OR
     ClientProtocol41 OR ClientTransactions OR ClientSecureConnection OR ClientMultiStatements OR
     ClientMultiResults OR ClientPluginAuth OR ClientPluginAuthLenencClientData"

lemmas capability_defs [go_defs] =
  ClientLongPassword_def ClientFoundRows_def ClientLongFlag_def ClientConnectWithDB_def
  ClientProtocol41_def ClientTransactions_def ClientSecureConnection_def
  ClientMultiStatements_def ClientMultiResults_def ClientPluginAuth_def
  ClientPluginAuthLenencClientData_def ClientDeprecateEOF_def ServerStatusAutocommit_def
  CharsetUTF8MB4_def MaxPayloadLen_def ServerCapabilityFlags_def

text \<open>The command bytes the proxy distinguishes.\<close>

definition ComQuit :: byte where "ComQuit = 0x01"
definition ComInitDB :: byte where "ComInitDB = 0x02"
definition ComQuery :: byte where "ComQuery = 0x03"
definition ComPing :: byte where "ComPing = 0x0E"
definition ComStmtPrepare :: byte where "ComStmtPrepare = 0x16"
definition ComStmtExecute :: byte where "ComStmtExecute = 0x17"
definition ComStmtClose :: byte where "ComStmtClose = 0x19"
definition ComStmtReset :: byte where "ComStmtReset = 0x1A"
definition ComStmtFetch :: byte where "ComStmtFetch = 0x1C"

lemmas command_defs [go_defs] =
  ComQuit_def ComInitDB_def ComQuery_def ComPing_def ComStmtPrepare_def ComStmtExecute_def
  ComStmtClose_def ComStmtReset_def ComStmtFetch_def

section \<open>Packets\<close>

definition ReadPacket :: "reader \<Rightarrow> (byte list \<times> byte) result \<times> reader" where
  "ReadPacket r =
     (case ReadFull 4 r of
        (Ok header, r1) \<Rightarrow>
          (let n = le_nat (take 3 header); seq = header ! 3 in
           if 0 < n then
             (case ReadFull n r1 of
                (Ok payload, r2) \<Rightarrow> (Ok (payload, seq), r2)
              | (Err e, r2) \<Rightarrow> (Err (Wrap ''read packet payload'' e), r2)
              | (Panic p, r2) \<Rightarrow> (Panic p, r2))
           else (Ok ([], seq), r1))
      | (Err e, r1) \<Rightarrow> (Err (Wrap ''read packet header'' e), r1)
      | (Panic p, r1) \<Rightarrow> (Panic p, r1))"

definition WritePacket :: "byte list \<Rightarrow> byte \<Rightarrow> writer \<Rightarrow> unit result \<times> writer" where
  "WritePacket payload seq w =
     (let n = length payload in
      if n > MaxPayloadLen then
        (Err (ErrorS (''payload too large: '' @ fmt_d (int n) @ '' > '' @ fmt_d (int MaxPayloadLen))), w)
      else
        (case Write (le_bytes 3 n @ [seq]) w of
           (Ok _, w1) \<Rightarrow>
             (if 0 < n then
                (case Write payload w1 of
                   (Ok _, w2) \<Rightarrow> (Ok (), w2)
                 | (Err e, w2) \<Rightarrow> (Err (Wrap ''write packet payload'' e), w2)
                 | (Panic p, w2) \<Rightarrow> (Panic p, w2))
              else (Ok (), w1))
         | (Err e, w1) \<Rightarrow> (Err (Wrap ''write packet header'' e), w1)
         | (Panic p, w1) \<Rightarrow> (Panic p, w1)))"

section \<open>Length-encoded integers and strings\<close>

definition PutLenEncInt :: "64 word \<Rightarrow> byte list" where
  "PutLenEncInt v =
     (if unat v < 251 then [ucast v]
      else if unat v < 2 ^ 16 then 0xFC # le_bytes 2 (unat v)
      else if unat v < 2 ^ 24 then 0xFD # le_bytes 3 (unat v)
      else 0xFE # le_bytes 8 (unat v))"

definition PutLenEncString :: "string \<Rightarrow> byte list" where
  "PutLenEncString s = PutLenEncInt (word_of_nat (length (bytes_of s))) @ bytes_of s"

text \<open>\<open>decodeLenEncInt\<close>: the value as a Go \<open>int\<close> and the position after it.\<close>

definition decodeLenEncInt :: "byte list \<Rightarrow> nat \<Rightarrow> (int \<times> nat) result" where
  "decodeLenEncInt data pos =
     (if length data \<le> pos then Ok (0, pos)
      else
        rbind (index data pos) (\<lambda>first.
          if first = 0xFB then Ok (0, pos + 1)
          else if first = 0xFC then
            (if pos + 3 > length data then Ok (0, pos + 1)
             else rbind (slice data (pos + 1) (pos + 3)) (\<lambda>bs. Ok (int (le_nat bs), pos + 3)))
          else if first = 0xFD then
            (if pos + 4 > length data then Ok (0, pos + 1)
             else
               rbind (index data (pos + 1)) (\<lambda>b0.
               rbind (index data (pos + 2)) (\<lambda>b1.
               rbind (index data (pos + 3)) (\<lambda>b2. Ok (int (le_nat [b0, b1, b2]), pos + 4)))))
          else if first = 0xFE then
            (if pos + 9 > length data then Ok (0, pos + 1)
             else rbind (slice data (pos + 1) (pos + 9)) (\<lambda>bs. Ok (int64 (int (le_nat bs)), pos + 9)))
          else Ok (int (unat first), pos + 1)))"

text \<open>It reads within the bounds it checked, so it is the function without the checks.\<close>

definition lenenc_at :: "byte list \<Rightarrow> nat \<Rightarrow> int \<times> nat" where
  "lenenc_at data pos =
     (if length data \<le> pos then (0, pos)
      else if data ! pos = 0xFB then (0, pos + 1)
      else if data ! pos = 0xFC then
        (if pos + 3 > length data then (0, pos + 1)
         else (int (le_nat (take 2 (drop (pos + 1) data))), pos + 3))
      else if data ! pos = 0xFD then
        (if pos + 4 > length data then (0, pos + 1)
         else (int (le_nat (take 3 (drop (pos + 1) data))), pos + 4))
      else if data ! pos = 0xFE then
        (if pos + 9 > length data then (0, pos + 1)
         else (int64 (int (le_nat (take 8 (drop (pos + 1) data)))), pos + 9))
      else (int (unat (data ! pos)), pos + 1))"

lemma decodeLenEncInt_eq: "decodeLenEncInt data pos = Ok (lenenc_at data pos)"
proof -
  have three: "take 3 (drop (Suc pos) data) = [data ! Suc pos, data ! Suc (Suc pos), data ! (pos + 3)]"
    if "\<not> length data < pos + 4"
    using that by (simp add: Cons_nth_drop_Suc [symmetric] numeral_eq_Suc)
  show ?thesis
  proof (cases "length data \<le> pos")
    case False
    then show ?thesis
      using three by (simp add: decodeLenEncInt_def lenenc_at_def index_def slice_def)
  qed (simp add: decodeLenEncInt_def lenenc_at_def)
qed

text \<open>\<open>findNull\<close>: the length when there is no null byte.\<close>

function my_findNull :: "byte list \<Rightarrow> nat \<Rightarrow> nat" where
  "my_findNull data i =
     (if i < length data then (if data ! i = 0 then i else my_findNull data (i + 1))
      else length data)"
  by pat_completeness auto
termination
  by (relation "measure (\<lambda>(data, i). length data - i)") auto

declare my_findNull.simps [simp del]

section \<open>The server greeting\<close>

record HandshakeV10 =
  hs_ProtocolVersion :: byte
  hs_ServerVersion :: string
  hs_ConnectionID :: "32 word"
  hs_AuthPluginData :: "byte list"
  hs_Capability :: "32 word"
  hs_CharacterSet :: byte
  hs_StatusFlags :: "16 word"
  hs_AuthPluginName :: string

definition encode_handshake :: "HandshakeV10 \<Rightarrow> byte list" where
  "encode_handshake h =
     (let part1 = (if length (hs_AuthPluginData h) > 8 then take 8 (hs_AuthPluginData h)
                   else hs_AuthPluginData h);
          part2 = (if length (hs_AuthPluginData h) > 8 then
                     (let p = drop 8 (hs_AuthPluginData h);
                          p = (if length p > 12 then take 12 p else p)
                      in p @ replicate (12 - length p) 0)
                   else replicate 12 0)
      in [hs_ProtocolVersion h]
         @ bytes_of (hs_ServerVersion h) @ [0]
         @ le_bytes 4 (unat (hs_ConnectionID h))
         @ part1 @ replicate (8 - length part1) 0
         @ [0]
         @ le_bytes 2 (unat (hs_Capability h AND 0xFFFF))
         @ [hs_CharacterSet h]
         @ le_bytes 2 (unat (hs_StatusFlags h))
         @ le_bytes 2 (unat (drop_bit 16 (hs_Capability h)))
         @ [word_of_nat (length (hs_AuthPluginData h) + 1)]
         @ replicate 10 0
         @ part2 @ [0]
         @ bytes_of (hs_AuthPluginName h) @ [0])"

definition BuildHandshakeV10 :: HandshakeV10 where
  "BuildHandshakeV10 =
     \<lparr>hs_ProtocolVersion = 10,
      hs_ServerVersion = ''5.7.42-HTTP-PG-MySQL-proxy'',
      hs_ConnectionID = 1,
      hs_AuthPluginData = map (\<lambda>i. word_of_nat (i + 0x21)) [0..<20],
      hs_Capability = ServerCapabilityFlags,
      hs_CharacterSet = CharsetUTF8MB4,
      hs_StatusFlags = ServerStatusAutocommit,
      hs_AuthPluginName = AuthPluginName\<rparr>"

section \<open>The client's handshake response\<close>

record HandshakeResponse41 =
  hr_Capability :: "32 word"
  hr_MaxPacketSize :: "32 word"
  hr_CharacterSet :: byte
  hr_Username :: string
  hr_AuthResponse :: "byte list"
  hr_Database :: string
  hr_AuthPluginName :: string

definition has_flag :: "32 word \<Rightarrow> 32 word \<Rightarrow> bool" where
  "has_flag capability flag = (capability AND flag \<noteq> 0)"

text \<open>A null-terminated string at \<open>pos\<close>, and the position after its terminator.\<close>

definition null_string_at :: "byte list \<Rightarrow> nat \<Rightarrow> (string \<times> nat) result" where
  "null_string_at payload pos =
     (let end' = my_findNull payload pos in
      rbind (slice payload pos end') (\<lambda>s. Ok (string_of s, end' + 1)))"

text \<open>The length of the authentication response and the position of its data.\<close>

definition auth_length :: "32 word \<Rightarrow> byte list \<Rightarrow> nat \<Rightarrow> (int \<times> nat) result" where
  "auth_length capability payload pos =
     (if has_flag capability ClientPluginAuthLenencClientData then decodeLenEncInt payload pos
      else if has_flag capability ClientSecureConnection then
        (if pos < length payload then rbind (index payload pos) (\<lambda>b. Ok (int (unat b), pos + 1)) else Ok (0, pos))
      else if pos < length payload then Ok (int (my_findNull payload pos) - int pos, pos)
      else Ok (0, pos))"

definition auth_length_at :: "32 word \<Rightarrow> byte list \<Rightarrow> nat \<Rightarrow> int \<times> nat" where
  "auth_length_at capability payload pos =
     (if has_flag capability ClientPluginAuthLenencClientData then lenenc_at payload pos
      else if has_flag capability ClientSecureConnection then
        (if pos < length payload then (int (unat (payload ! pos)), pos + 1) else (0, pos))
      else if pos < length payload then (int (my_findNull payload pos) - int pos, pos)
      else (0, pos))"

lemma auth_length_eq: "auth_length c d pos = Ok (auth_length_at c d pos)"
  by (simp add: auth_length_def auth_length_at_def decodeLenEncInt_eq index_def)

definition auth_response :: "byte list \<Rightarrow> int \<Rightarrow> nat \<Rightarrow> (byte list \<times> nat) result" where
  "auth_response payload authLen pos =
     (if 0 < authLen \<and> int64 (int pos + authLen) \<le> int (length payload) then
        rbind (make_bytes authLen) (\<lambda>_.
        rbind (slice payload pos (nat (int64 (int pos + authLen)))) (\<lambda>a.
          Ok (a, nat (int64 (int pos + authLen)))))
      else Ok ([], pos))"

definition ParseHandshakeResponse :: "byte list \<Rightarrow> HandshakeResponse41 result" where
  "ParseHandshakeResponse payload =
     (if length payload < 4 then
        Err (ErrorS (''handshake response too short: '' @ fmt_d (int (length payload)) @ '' bytes''))
      else
        rbind (slice payload 0 4) (\<lambda>cap.
        rbind (slice payload 4 8) (\<lambda>maxp.
        rbind (index payload 8) (\<lambda>cs.
        let capability = word_of_nat (le_nat cap); pos = 9 + 23 in
        rbind (if pos < length payload then null_string_at payload pos else Ok ([], pos)) (\<lambda>(user, pos).
        rbind (auth_length capability payload pos) (\<lambda>(authLen, pos).
        rbind (auth_response payload authLen pos) (\<lambda>(auth, pos).
        rbind (if has_flag capability ClientConnectWithDB \<and> pos < length payload
               then null_string_at payload pos else Ok ([], pos)) (\<lambda>(db, pos).
        rbind (if has_flag capability ClientPluginAuth \<and> pos < length payload
               then null_string_at payload pos else Ok ([], pos)) (\<lambda>(plugin, pos).
          Ok \<lparr>hr_Capability = capability,
              hr_MaxPacketSize = word_of_nat (le_nat maxp),
              hr_CharacterSet = cs,
              hr_Username = user,
              hr_AuthResponse = auth,
              hr_Database = db,
              hr_AuthPluginName = plugin\<rparr>)))))))))"

section \<open>Response packets\<close>

definition BuildOKPacket :: "64 word \<Rightarrow> 64 word \<Rightarrow> 16 word \<Rightarrow> 16 word \<Rightarrow> string \<Rightarrow> byte list" where
  "BuildOKPacket affectedRows lastInsertID statusFlags warnings info =
     0x00 # PutLenEncInt affectedRows @ PutLenEncInt lastInsertID
     @ le_bytes 2 (unat statusFlags) @ le_bytes 2 (unat warnings)
     @ (if info \<noteq> [] then PutLenEncString info else [])"

definition BuildERRPacket :: "16 word \<Rightarrow> string \<Rightarrow> string \<Rightarrow> byte list" where
  "BuildERRPacket errCode sqlState message =
     (let state = (if length sqlState < 5 then sqlState @ take (5 - length sqlState) ''     ''
                   else take 5 sqlState)
      in 0xFF # le_bytes 2 (unat errCode) @ [byte_of CHR ''#''] @ bytes_of state @ bytes_of message)"

definition BuildEOFPacket :: "16 word \<Rightarrow> 16 word \<Rightarrow> byte list" where
  "BuildEOFPacket warnings statusFlags =
     0xFE # le_bytes 2 (unat warnings) @ le_bytes 2 (unat statusFlags)"

record ColumnDef41 =
  cd_Catalog :: string
  cd_Schema :: string
  cd_Table :: string
  cd_OrgTable :: string
  cd_Name :: string
  cd_OrgName :: string
  cd_CharacterSet :: "16 word"
  cd_ColumnLength :: "32 word"
  cd_ColumnType :: byte
  cd_Flags :: "16 word"
  cd_Decimals :: byte

definition encode_column :: "ColumnDef41 \<Rightarrow> byte list" where
  "encode_column c =
     PutLenEncString (cd_Catalog c) @ PutLenEncString (cd_Schema c)
     @ PutLenEncString (cd_Table c) @ PutLenEncString (cd_OrgTable c)
     @ PutLenEncString (cd_Name c) @ PutLenEncString (cd_OrgName c)
     @ PutLenEncInt 0x0C
     @ le_bytes 2 (unat (cd_CharacterSet c))
     @ le_bytes 4 (unat (cd_ColumnLength c))
     @ [cd_ColumnType c]
     @ le_bytes 2 (unat (cd_Flags c))
     @ [cd_Decimals c]
     @ [0, 0]"

definition BuildColumnDef :: "string \<Rightarrow> ColumnDef41" where
  "BuildColumnDef name =
     \<lparr>cd_Catalog = ''def'', cd_Schema = [], cd_Table = [], cd_OrgTable = [],
      cd_Name = name, cd_OrgName = name,
      cd_CharacterSet = ucast CharsetUTF8MB4, cd_ColumnLength = 1024, cd_ColumnType = 0xFD,
      cd_Flags = 0, cd_Decimals = 0\<rparr>"

fun BuildResultSetRow :: "string list \<Rightarrow> byte list" where
  "BuildResultSetRow [] = []"
| "BuildResultSetRow (v # vs) =
     (if v = ''NULL'' then [0xFB] else PutLenEncString v) @ BuildResultSetRow vs"

definition DecodeCommand :: "byte list \<Rightarrow> (byte \<times> byte list) result" where
  "DecodeCommand payload =
     (if length payload < 1 then Err (ErrorS ''empty command payload'')
      else rbind (index payload 0) (\<lambda>c. rbind (slice payload 1 (length payload)) (\<lambda>d. Ok (c, d))))"

section \<open>Length-encoded integers: what a client reads\<close>

definition lenenc_int :: "byte list \<Rightarrow> (nat \<times> byte list) option" where
  "lenenc_int bs =
     do {
       (b, r) \<leftarrow> next_byte bs;
       if unat b < 251 then Some (unat b, r)
       else if b = 0xFC then map_option (\<lambda>(x, r). (le_nat x, r)) (next_bytes 2 r)
       else if b = 0xFD then map_option (\<lambda>(x, r). (le_nat x, r)) (next_bytes 3 r)
       else if b = 0xFE then map_option (\<lambda>(x, r). (le_nat x, r)) (next_bytes 8 r)
       else None
     }"

definition lenenc_string :: "byte list \<Rightarrow> (string \<times> byte list) option" where
  "lenenc_string bs =
     do {
       (n, r) \<leftarrow> lenenc_int bs;
       (s, r) \<leftarrow> next_bytes n r;
       Some (string_of s, r)
     }"

lemma lenenc_int_Put [simp, wire]: "lenenc_int (PutLenEncInt v @ r) = Some (unat v, r)"
proof -
  have "unat v < 2 ^ 64" using unat_64_less [of v] by simp
  then show ?thesis
    by (auto simp: PutLenEncInt_def lenenc_int_def le_nat_le_bytes mod_less unsigned_ucast_eq
        take_bit_eq_mod)
qed

lemma lenenc_string_Put [simp, wire]:
  "length s < 2 ^ 64 \<Longrightarrow> lenenc_string (PutLenEncString s @ r) = Some (s, r)"
  by (simp add: PutLenEncString_def lenenc_string_def unat_of_nat mod_less)

lemma length_PutLenEncInt [wire]:
  "length (PutLenEncInt v) =
     (if unat v < 251 then 1 else if unat v < 2 ^ 16 then 3 else if unat v < 2 ^ 24 then 4 else 9)"
  by (simp add: PutLenEncInt_def)

lemma PutLenEncInt_neq_Nil [simp]: "PutLenEncInt v \<noteq> []"
  by (simp add: PutLenEncInt_def)

lemma int64_uint: "int64 (uint (v :: 64 word)) = sint v"
  by (simp add: int64_def sint_uint [of v])

lemma sint_small: "uint (v :: 64 word) < 2 ^ 63 \<Longrightarrow> sint v = uint v"
  using int64_id [of "uint v"] order_trans [of "- (2 ^ 63)" 0 "uint v"] by (simp add: int64_uint)

lemma sint_small_nat: "unat (v :: 64 word) < 2 ^ 63 \<Longrightarrow> sint v = uint v"
  using sint_small [of v] of_nat_less_iff [of "unat v" "2 ^ 63", where 'a = int] by simp

lemma lenenc_at_Put:
  "lenenc_at (p @ PutLenEncInt v @ r) (length p) = (sint v, length p + length (PutLenEncInt v))"
proof -
  have b: "unat v < 2 ^ 64" using unat_64_less [of v] by simp
  consider "unat v < 251" | "251 \<le> unat v" "unat v < 2 ^ 16"
    | "2 ^ 16 \<le> unat v" "unat v < 2 ^ 24" | "2 ^ 24 \<le> unat v" by linarith
  then show ?thesis
  proof cases
    case 1
    then have "unat (ucast v :: byte) = unat v" by (simp add: unsigned_ucast_eq take_bit_eq_mod mod_less)
    then have "(ucast v :: byte) \<noteq> 0xFB" "(ucast v :: byte) \<noteq> 0xFC" "(ucast v :: byte) \<noteq> 0xFD"
      "(ucast v :: byte) \<noteq> 0xFE" using 1 by auto
    with 1 \<open>unat (ucast v :: byte) = unat v\<close> show ?thesis
      by (simp add: lenenc_at_def PutLenEncInt_def nth_append sint_small_nat)
  qed (use b in \<open>simp_all add: lenenc_at_def PutLenEncInt_def nth_append sint_small_nat
      le_nat_le_bytes mod_less int64_uint\<close>)
qed

text \<open>
  Wherever \<open>PutLenEncInt v\<close> stands in a payload, \<open>decodeLenEncInt\<close> returns \<open>v\<close> read
  as a Go \<open>int\<close> (negative from \<open>2^63\<close> on) and the position after the encoding.
\<close>

theorem decodeLenEncInt_Put:
  "decodeLenEncInt (p @ PutLenEncInt v @ r) (length p) = Ok (sint v, length p + length (PutLenEncInt v))"
  by (simp add: decodeLenEncInt_eq lenenc_at_Put)

section \<open>Packets: what one side writes the other reads\<close>

definition packet :: "byte list \<Rightarrow> byte \<Rightarrow> byte list" where
  "packet payload seq = le_bytes 3 (length payload) @ [seq] @ payload"

lemma ReadPacket_packet:
  assumes "length payload \<le> MaxPayloadLen"
  shows "ReadPacket \<lparr>pending = packet payload seq @ rest, closing = e\<rparr> =
           (Ok (payload, seq), \<lparr>pending = rest, closing = e\<rparr>)"
proof -
  have n: "le_nat (le_bytes 3 (length payload)) = length payload"
    using assms by (simp add: le_nat_le_bytes MaxPayloadLen_def mod_less)
  have "ReadFull 4 \<lparr>pending = packet payload seq @ rest, closing = e\<rparr> =
      (Ok (le_bytes 3 (length payload) @ [seq]), \<lparr>pending = payload @ rest, closing = e\<rparr>)"
    using ReadFull_append [of 4 "le_bytes 3 (length payload) @ [seq]" "payload @ rest" e]
    by (simp add: packet_def)
  then show ?thesis
    by (simp add: ReadPacket_def Let_def n nth_append)
qed

lemma ReadPacket_Ok:
  "ReadPacket r = (Ok (payload, seq), r') \<longleftrightarrow>
   length payload \<le> MaxPayloadLen \<and> pending r = packet payload seq @ pending r' \<and>
   closing r' = closing r"
  (is "?L \<longleftrightarrow> ?R")
proof
  assume ?L
  then obtain header r1 where 1: "ReadFull 4 r = (Ok header, r1)"
    by (auto simp: ReadPacket_def split: prod.splits result.splits)
  define n where "n = le_nat (take 3 header)"
  have header: "length header = 4" "pending r = header @ pending r1" "closing r1 = closing r"
    using 1 by (simp_all add: ReadFull_Ok_iff)
  have 2: "ReadFull n r1 = (Ok payload, r') \<and> seq = header ! 3"
  proof (cases "0 < n")
    case True
    with \<open>?L\<close> 1 show ?thesis
      by (auto simp: ReadPacket_def Let_def n_def split: prod.splits result.splits)
  next
    case False
    with \<open>?L\<close> 1 show ?thesis
      by (auto simp: ReadPacket_def Let_def n_def ReadFull_Ok_iff)
  qed
  then have len: "length payload = n" and p1: "pending r1 = payload @ pending r'"
    and cl: "closing r' = closing r1" by (simp_all add: ReadFull_Ok_iff)
  have "n \<le> MaxPayloadLen"
    using le_nat_bound [of "take 3 header"] header by (simp add: n_def MaxPayloadLen_def)
  moreover have "header = le_bytes 3 n @ [seq]"
    using le_bytes_le_nat [of "take 3 header"] header 2
    by (simp add: n_def take_Suc_conv_app_nth [symmetric])
  ultimately show ?R using header len p1 cl by (simp add: packet_def)
next
  assume R: ?R
  then have "r = \<lparr>pending = packet payload seq @ pending r', closing = closing r'\<rparr>"
    by (cases r) simp
  then show ?L using ReadPacket_packet [of payload seq "pending r'" "closing r'"] R
    by (cases r') simp
qed

text \<open>
  C36: \<open>ReadPacket\<close> returns a payload and a sequence number exactly when the connection
  delivers next that payload behind its 4-byte header; it consumes that packet and nothing
  else. A payload has at most \<open>MaxPayloadLen\<close> bytes.
\<close>

theorem ReadPacket_iff:
  "ReadPacket r = (Ok (payload, seq), r') \<longleftrightarrow>
   length payload \<le> MaxPayloadLen \<and> pending r = packet payload seq @ pending r' \<and>
   closing r' = closing r"
  by (rule ReadPacket_Ok)

text \<open>
  \<open>WritePacket\<close> succeeds exactly when the payload is at most \<open>MaxPayloadLen\<close> bytes and the
  connection takes the whole packet. A payload that is too large is not sent at all; on a
  connection that breaks, the client has received a prefix of the packet.
\<close>

theorem WritePacket_effect:
  "(fst (WritePacket payload seq w) = Ok () \<longleftrightarrow>
      length payload \<le> MaxPayloadLen \<and>
      (case budget w of None \<Rightarrow> True | Some k \<Rightarrow> length (packet payload seq) \<le> k))
   \<and> sent (snd (WritePacket payload seq w)) = sent w @
      (if length payload > MaxPayloadLen then []
       else (case budget w of None \<Rightarrow> packet payload seq | Some k \<Rightarrow> take k (packet payload seq)))"
  by (auto simp: WritePacket_def Let_def Write_def packet_def take_Cons' split: option.splits)

lemma WritePacket_no_panic: "fst (WritePacket payload seq w) \<noteq> Panic p"
  by (auto simp: WritePacket_def Let_def Write_def split: option.splits)

section \<open>The greeting, as a client decodes it\<close>

definition decode_greeting :: "byte list \<Rightarrow> HandshakeV10 option" where
  "decode_greeting bs =
     do {
       (ver, r) \<leftarrow> next_byte bs;
       (server, r) \<leftarrow> next_null r;
       (conn, r) \<leftarrow> next_bytes 4 r;
       (part1, r) \<leftarrow> next_bytes 8 r;
       (_, r) \<leftarrow> next_byte r;
       (caplow, r) \<leftarrow> next_bytes 2 r;
       (charset, r) \<leftarrow> next_byte r;
       (status, r) \<leftarrow> next_bytes 2 r;
       (caphigh, r) \<leftarrow> next_bytes 2 r;
       (authlen, r) \<leftarrow> next_byte r;
       (_, r) \<leftarrow> next_bytes 10 r;
       (part2, r) \<leftarrow> next_bytes (max 13 (unat authlen - 8)) r;
       (plugin, r) \<leftarrow> next_null r;
       Some \<lparr>hs_ProtocolVersion = ver, hs_ServerVersion = string_of server,
             hs_ConnectionID = word_of_nat (le_nat conn),
             hs_AuthPluginData = part1 @ take (unat authlen - 9) part2,
             hs_Capability = word_of_nat (le_nat (caplow @ caphigh)),
             hs_CharacterSet = charset, hs_StatusFlags = word_of_nat (le_nat status),
             hs_AuthPluginName = string_of plugin\<rparr>
     }"

lemma le_nat_append: "le_nat (a @ b) = le_nat a + 256 ^ length a * le_nat b"
  by (induction a) (simp_all add: algebra_simps)

lemma unat_low16: "unat ((w :: 32 word) AND 0xFFFF) = unat w mod 2 ^ 16"
proof -
  have "(0xFFFF :: 32 word) = mask 16" by (simp add: mask_eq_exp_minus_1)
  then have "unat (w AND 0xFFFF) = unat (take_bit 16 w)" by (simp only: take_bit_eq_mask)
  also have "\<dots> = take_bit 16 (unat w)" by (rule unsigned_take_bit_eq)
  finally show ?thesis by (simp only: take_bit_eq_mod)
qed

lemma unat_high16: "unat (drop_bit 16 (w :: 32 word)) = unat w div 2 ^ 16"
  by (simp add: drop_bit_eq_div unat_div)

lemma capability_halves:
  "word_of_nat (le_nat (le_bytes 2 (unat ((c :: 32 word) AND 0xFFFF)) @
     le_bytes 2 (unat (drop_bit 16 c)))) = c"
proof -
  have "unat c div 2 ^ 16 < 2 ^ 16"
    by (rule less_mult_imp_div_less) (use unat_32_less [of c] in simp)
  then have "le_nat (le_bytes 2 (unat (c AND 0xFFFF)) @ le_bytes 2 (unat (drop_bit 16 c))) =
      unat c mod 2 ^ 16 + 2 ^ 16 * (unat c div 2 ^ 16)"
    by (simp only: le_nat_append le_nat_le_bytes unat_low16 unat_high16 length_le_bytes)
      (simp add: mod_less)
  also have "\<dots> = unat c" by simp
  finally show ?thesis by simp
qed

lemma word_le_bytes_4 [simp, wire]: "word_of_nat (le_nat (le_bytes 4 (unat (c :: 32 word)))) = c"
  by (simp add: le_nat_le_bytes mod_less)

lemma word_le_bytes_2 [simp, wire]: "word_of_nat (le_nat (le_bytes 2 (unat (c :: 16 word)))) = c"
  by (simp add: le_nat_le_bytes mod_less)

text \<open>
  A client that decodes the greeting reads back every field of any \<open>HandshakeV10\<close> with
  the 20 bytes of scramble \<open>mysql_native_password\<close> needs, its two capability halves put
  together again.
\<close>

theorem greeting_roundtrip:
  assumes "length (hs_AuthPluginData h) = 20"
    and "no_null (hs_ServerVersion h)" and "no_null (hs_AuthPluginName h)"
  shows "decode_greeting (encode_handshake h) = Some h"
proof -
  define d where "d = hs_AuthPluginData h"
  have d: "length (take 8 d) = 8" "length (drop 8 d @ [0]) = 13" "take 12 (drop 8 d) = drop 8 d"
    "take 12 (drop 8 d @ [0]) = drop 8 d"
    using assms(1) by (simp_all add: d_def)
  have e: "encode_handshake h =
     hs_ProtocolVersion h # bytes_of (hs_ServerVersion h) @ 0 #
     le_bytes 4 (unat (hs_ConnectionID h)) @ take 8 d @ 0 #
     le_bytes 2 (unat (hs_Capability h AND 0xFFFF)) @ hs_CharacterSet h #
     le_bytes 2 (unat (hs_StatusFlags h)) @ le_bytes 2 (unat (drop_bit 16 (hs_Capability h))) @
     21 # replicate 10 0 @ (drop 8 d @ [0]) @ bytes_of (hs_AuthPluginName h) @ [0]"
    using assms(1) d by (simp add: encode_handshake_def d_def Let_def)
  show ?thesis
    using assms(2,3) d
    by (simp only: e) (simp add: decode_greeting_def no_null_def capability_halves d_def del: append_assoc)
qed

section \<open>The handshake response\<close>

lemma my_findNull_bounds: "i \<le> length d \<Longrightarrow> i \<le> my_findNull d i \<and> my_findNull d i \<le> length d"
proof (induction d i rule: my_findNull.induct)
  case (1 d i)
  show ?case
  proof (cases "i < length d \<and> d ! i \<noteq> 0")
    case True
    with "1.IH" have "i + 1 \<le> my_findNull d (i + 1) \<and> my_findNull d (i + 1) \<le> length d" by simp
    with True show ?thesis by (subst (1 2) my_findNull.simps) simp
  next
    case False
    with "1.prems" show ?thesis by (subst (1 2) my_findNull.simps) auto
  qed
qed

lemma my_findNull_skip:
  assumes "0 \<notin> set a"
  shows "my_findNull (p @ a @ rest) (length p) = my_findNull (p @ a @ rest) (length p + length a)"
  using assms
proof (induction a arbitrary: p)
  case Nil
  then show ?case by simp
next
  case (Cons x a)
  from Cons.IH [of "p @ [x]"] Cons.prems
  have "my_findNull (p @ x # a @ rest) (Suc (length p)) =
        my_findNull (p @ x # a @ rest) (length p + length (x # a))" by simp
  then show ?case using Cons.prems by (subst my_findNull.simps) (simp add: nth_append)
qed

lemma my_findNull_append:
  "0 \<notin> set a \<Longrightarrow> my_findNull (p @ a @ 0 # rest) (length p) = length p + length a"
  by (subst my_findNull_skip) (simp_all add: my_findNull.simps nth_append)

lemma null_string_at_Ok:
  "pos \<le> length d \<Longrightarrow> \<exists>s. null_string_at d pos = Ok (s, my_findNull d pos + 1)"
  using my_findNull_bounds [of pos d] by (simp add: null_string_at_def Let_def slice_def)

lemma null_string_at_append:
  assumes "no_null s"
  shows "null_string_at (p @ bytes_of s @ 0 # rest) (length p) = Ok (s, length p + length s + 1)"
  using my_findNull_append [of "bytes_of s" p rest] assms
  by (simp add: null_string_at_def Let_def no_null_def slice_def)

lemma optional_string_no_panic:
  "\<not> is_panic (if b \<and> pos < length d then null_string_at d pos else Ok ([], pos))"
  using null_string_at_Ok [of pos d] by (auto simp: is_panic_def)

text \<open>Where the user name ends: the position at which the authentication length is read.\<close>

definition user_end :: "byte list \<Rightarrow> nat" where
  "user_end payload = (if 32 < length payload then my_findNull payload 32 + 1 else 32)"

definition payload_capability :: "byte list \<Rightarrow> 32 word" where
  "payload_capability payload = word_of_nat (le_nat (take 4 payload))"

lemma auth_response_no_panic:
  assumes "length d \<le> 2 ^ 48" and "- (2 ^ 63) \<le> authLen" and "int pos + authLen < 2 ^ 63"
  shows "\<not> is_panic (auth_response d authLen pos)"
proof (cases "0 < authLen \<and> int64 (int pos + authLen) \<le> int (length d)")
  case True
  then have "int64 (int pos + authLen) = int pos + authLen"
    using assms by (intro int64_id) simp_all
  with True assms show ?thesis
    by (auto simp: auth_response_def make_bytes_def slice_def nat_le_iff)
next
  case False
  then show ?thesis by (auto simp: auth_response_def)
qed

lemma auth_response_panic:
  assumes "2 ^ 63 \<le> int pos + authLen" and "authLen < 2 ^ 63" and "int pos < 2 ^ 62"
  shows "is_panic (auth_response d authLen pos)"
proof -
  have "int64 (int pos + authLen) = int pos + authLen - 2 ^ 64"
    using assms by (intro int64_wrap) simp_all
  then show ?thesis using assms by (simp add: auth_response_def make_bytes_def)
qed

text \<open>The stages after the user name, for one payload of at least nine bytes.\<close>

lemma int64_bounds: "- (2 ^ 63) \<le> int64 i" "int64 i < 2 ^ 63"
  using signed_take_bit_int_greater_eq_minus_exp [of 63 i] signed_take_bit_int_less_exp [of 63 i]
  by (simp_all add: int64_def)

lemma lenenc_at_bounds:
  shows "- (2 ^ 63) \<le> fst (lenenc_at d pos)" and "fst (lenenc_at d pos) < 2 ^ 63"
    and "pos \<le> snd (lenenc_at d pos)"
    and "pos \<le> length d + 1 \<Longrightarrow> snd (lenenc_at d pos) \<le> length d + 1"
proof -
  have 2: "int (le_nat (take 2 (drop (pos + 1) d))) < 2 ^ 63"
    using le_nat_take_bound [of 2 "drop (pos + 1) d"] by simp
  have 3: "int (le_nat (take 3 (drop (pos + 1) d))) < 2 ^ 63"
    using le_nat_take_bound [of 3 "drop (pos + 1) d"] by simp
  have b: "uint (d ! pos) < 2 ^ 63"
    using unsigned_less [of "d ! pos", where 'a = int] by simp
  have low: "- (2 ^ 63) \<le> int n" "- (2 ^ 63) \<le> uint (x :: byte)" for n x
    by (simp_all add: order_trans [of _ 0])
  show "- (2 ^ 63) \<le> fst (lenenc_at d pos)"
    using low int64_bounds by (simp add: lenenc_at_def)
  show "fst (lenenc_at d pos) < 2 ^ 63"
    using 2 3 b int64_bounds by (simp add: lenenc_at_def)
  show "pos \<le> snd (lenenc_at d pos)"
    by (simp add: lenenc_at_def)
  show "pos \<le> length d + 1 \<Longrightarrow> snd (lenenc_at d pos) \<le> length d + 1"
    by (simp add: lenenc_at_def)
qed

lemma auth_length_plain_bounds:
  assumes "\<not> has_flag c ClientPluginAuthLenencClientData"
  shows "- (2 ^ 63) \<le> fst (auth_length_at c d pos)"
    and "length d \<le> MaxPayloadLen \<Longrightarrow> pos \<le> length d + 1 \<Longrightarrow>
         int (snd (auth_length_at c d pos)) + fst (auth_length_at c d pos) < 2 ^ 63"
proof -
  have b: "int (unat (d ! pos)) < 256" using unat_byte_less [of "d ! pos"] by linarith
  have nul: "pos < length d \<Longrightarrow> pos \<le> my_findNull d pos \<and> my_findNull d pos \<le> length d"
    using my_findNull_bounds [of pos d] by simp
  have low: "- (2 ^ 63) \<le> uint (x :: byte)" for x
    by (simp add: order_trans [of _ 0])
  show "- (2 ^ 63) \<le> fst (auth_length_at c d pos)"
    using assms low nul by (auto simp: auth_length_at_def)
  show "int (snd (auth_length_at c d pos)) + fst (auth_length_at c d pos) < 2 ^ 63"
    if "length d \<le> MaxPayloadLen" "pos \<le> length d + 1"
    using that assms b nul by (auto simp: auth_length_at_def MaxPayloadLen_def)
qed

text \<open>
  Past the fixed fields the only stage that can panic is the copy of the authentication
  response.
\<close>

lemma handshake_panics_in_auth:
  assumes "9 \<le> length payload"
  shows "is_panic (ParseHandshakeResponse payload) \<longleftrightarrow>
     (let (n, pos) = auth_length_at (payload_capability payload) payload (user_end payload)
      in is_panic (auth_response payload n pos))"
proof -
  have fixed: "slice payload 0 4 = Ok (take 4 payload)" "slice payload 4 8 = Ok (take 4 (drop 4 payload))"
    "index payload 8 = Ok (payload ! 8)"
    using assms by (simp_all add: slice_def index_def)
  obtain user where user: "(if 32 < length payload then null_string_at payload 32 else Ok ([], 32))
      = Ok (user, user_end payload)"
    using null_string_at_Ok [of 32 payload] that
    by (cases "32 < length payload") (auto simp: user_end_def)
  obtain n pos where al: "auth_length_at (payload_capability payload) payload (user_end payload) = (n, pos)"
    by fastforce
  have "ParseHandshakeResponse payload =
     rbind (auth_response payload n pos) (\<lambda>(auth, pos).
     rbind (if has_flag (payload_capability payload) ClientConnectWithDB \<and> pos < length payload
            then null_string_at payload pos else Ok ([], pos)) (\<lambda>(db, pos).
     rbind (if has_flag (payload_capability payload) ClientPluginAuth \<and> pos < length payload
            then null_string_at payload pos else Ok ([], pos)) (\<lambda>(plugin, pos).
       Ok \<lparr>hr_Capability = payload_capability payload,
           hr_MaxPacketSize = word_of_nat (le_nat (take 4 (drop 4 payload))),
           hr_CharacterSet = payload ! 8, hr_Username = user, hr_AuthResponse = auth,
           hr_Database = db, hr_AuthPluginName = plugin\<rparr>)))"
    using assms user al
    by (simp add: ParseHandshakeResponse_def fixed Let_def payload_capability_def auth_length_eq cong: if_cong)
  then show ?thesis using al optional_string_no_panic
    by (auto simp: is_panic_rbind_iff)
qed

lemma auth_length_past_end: "length d \<le> pos \<Longrightarrow> auth_length_at c d pos = (0, pos)"
  by (simp add: auth_length_at_def lenenc_at_def)

lemma user_end_cases: "length d \<le> user_end d \<or> user_end d \<le> length d + 1"
  using my_findNull_bounds [of 32 d] by (auto simp: user_end_def)

lemma auth_length_at_user_end:
  assumes "length d \<le> MaxPayloadLen"
  shows "- (2 ^ 63) \<le> fst (auth_length_at c d (user_end d))"
    and "fst (auth_length_at c d (user_end d)) < 2 ^ 63"
    and "snd (auth_length_at c d (user_end d)) \<le> length d + 33"
    and "\<not> has_flag c ClientPluginAuthLenencClientData \<Longrightarrow>
      fst (auth_length_at c d (user_end d)) + int (snd (auth_length_at c d (user_end d))) < 2 ^ 63"
proof -
  consider "length d \<le> user_end d" "user_end d \<le> length d + 33" | "user_end d \<le> length d + 1"
    using user_end_cases [of d] my_findNull_bounds [of 32 d] that
    by (cases "32 < length d") (auto simp: user_end_def)
  then have "- (2 ^ 63) \<le> fst (auth_length_at c d (user_end d))
    \<and> fst (auth_length_at c d (user_end d)) < 2 ^ 63
    \<and> snd (auth_length_at c d (user_end d)) \<le> length d + 33
    \<and> (\<not> has_flag c ClientPluginAuthLenencClientData \<longrightarrow>
      fst (auth_length_at c d (user_end d)) + int (snd (auth_length_at c d (user_end d))) < 2 ^ 63)"
  proof cases
    case 1
    then show ?thesis using assms by (simp add: auth_length_past_end MaxPayloadLen_def)
  next
    case 2
    show ?thesis
    proof (cases "has_flag c ClientPluginAuthLenencClientData")
      case True
      then show ?thesis
        using lenenc_at_bounds [where d = d and pos = "user_end d"] 2 by (simp add: auth_length_at_def)
    next
      case False
      have "snd (auth_length_at c d (user_end d)) \<le> length d + 33"
        using False 2 by (auto simp: auth_length_at_def)
      with auth_length_plain_bounds(1) [OF False, where d = d and pos = "user_end d"]
        auth_length_plain_bounds(2) [OF False assms 2]
      show ?thesis by (intro conjI impI; linarith)
    qed
  qed
  then show "- (2 ^ 63) \<le> fst (auth_length_at c d (user_end d))"
    and "fst (auth_length_at c d (user_end d)) < 2 ^ 63"
    and "snd (auth_length_at c d (user_end d)) \<le> length d + 33"
    and "\<not> has_flag c ClientPluginAuthLenencClientData \<Longrightarrow>
      fst (auth_length_at c d (user_end d)) + int (snd (auth_length_at c d (user_end d))) < 2 ^ 63"
    by blast+
qed

lemma panics_in_terms_of_lenenc:
  assumes "length payload \<le> MaxPayloadLen"
  shows "is_panic (ParseHandshakeResponse payload) \<longleftrightarrow>
     4 \<le> length payload \<and> length payload < 9 \<or>
     9 \<le> length payload \<and> has_flag (payload_capability payload) ClientPluginAuthLenencClientData \<and>
     2 ^ 63 \<le> fst (lenenc_at payload (user_end payload)) + int (snd (lenenc_at payload (user_end payload)))"
proof (cases "9 \<le> length payload")
  case False
  then show ?thesis
    by (auto simp: ParseHandshakeResponse_def slice_def index_def)
next
  case True
  define c where "c = payload_capability payload"
  define e where "e = user_end payload"
  obtain n pos where al: "auth_length_at c payload e = (n, pos)" by fastforce
  have main: "is_panic (ParseHandshakeResponse payload) \<longleftrightarrow> is_panic (auth_response payload n pos)"
    using handshake_panics_in_auth [OF True] al by (simp add: c_def e_def)
  have small: "length payload \<le> 2 ^ 48" using assms by (simp add: MaxPayloadLen_def)
  have lo: "- (2 ^ 63) \<le> n" "n < 2 ^ 63" and hi: "int pos < 2 ^ 62"
    and plain: "\<not> has_flag c ClientPluginAuthLenencClientData \<Longrightarrow> n + int pos < 2 ^ 63"
    and lenenc: "has_flag c ClientPluginAuthLenencClientData \<Longrightarrow> lenenc_at payload e = (n, pos)"
    using auth_length_at_user_end [OF assms, of c] al assms
    by (simp_all add: e_def auth_length_at_def MaxPayloadLen_def)
  show ?thesis
  proof (cases "2 ^ 63 \<le> int pos + n")
    case True
    then have "has_flag c ClientPluginAuthLenencClientData" using plain by linarith
    with True lenenc \<open>9 \<le> length payload\<close> show ?thesis
      using main auth_response_panic [OF True lo(2) hi] by (simp add: c_def e_def add.commute)
  next
    case False
    then have "\<not> is_panic (auth_response payload n pos)"
      using auth_response_no_panic [OF small lo(1)] by simp
    with False main lenenc \<open>9 \<le> length payload\<close> show ?thesis
      by (auto simp: c_def e_def add.commute)
  qed
qed

text \<open>
  C37: Exactly which handshake responses of a client crash the proxy (a Go panic in a
  connection's goroutine ends the process): those of 4 to 8 bytes, which pass the length
  check but end inside the fixed fields, and those whose length-encoded authentication
  length makes \<open>pos + authLen\<close> overflow, which passes the bounds check.
\<close>

theorem handshake_panics_iff:
  assumes "length payload \<le> MaxPayloadLen"
  shows "is_panic (ParseHandshakeResponse payload) \<longleftrightarrow>
     4 \<le> length payload \<and> length payload < 9 \<or>
     9 \<le> length payload \<and> has_flag (payload_capability payload) ClientPluginAuthLenencClientData \<and>
     (\<exists>n pos. decodeLenEncInt payload (user_end payload) = Ok (n, pos) \<and> 2 ^ 63 \<le> n + int pos)"
  using panics_in_terms_of_lenenc [OF assms]
  by (cases "lenenc_at payload (user_end payload)") (simp add: decodeLenEncInt_eq)

text \<open>
  The handshake response a protocol 4.1 client sends: fixed fields, user name, the
  authentication response in the form its capability flags select, then the database and
  plugin names its flags announce.
\<close>

definition auth_bytes :: "32 word \<Rightarrow> byte list \<Rightarrow> byte list" where
  "auth_bytes c auth =
     (if has_flag c ClientPluginAuthLenencClientData then PutLenEncInt (word_of_nat (length auth)) @ auth
      else if has_flag c ClientSecureConnection then word_of_nat (length auth) # auth
      else auth @ [0])"

definition flagged_string :: "32 word \<Rightarrow> 32 word \<Rightarrow> string \<Rightarrow> byte list" where
  "flagged_string c f s = (if has_flag c f then bytes_of s @ [0] else [])"

definition client_response ::
  "32 word \<Rightarrow> 32 word \<Rightarrow> byte \<Rightarrow> string \<Rightarrow> byte list \<Rightarrow> string \<Rightarrow> string \<Rightarrow> byte list" where
  "client_response c maxp cs user auth db plugin =
     le_bytes 4 (unat c) @ le_bytes 4 (unat maxp) @ [cs] @ replicate 23 0
     @ bytes_of user @ [0] @ auth_bytes c auth
     @ flagged_string c ClientConnectWithDB db @ flagged_string c ClientPluginAuth plugin"

lemma flagged_string_stage:
  assumes "d = p @ flagged_string c f s @ rest" and "no_null s"
  shows "(if has_flag c f \<and> length p < length d then null_string_at d (length p) else Ok ([], length p))
    = Ok (if has_flag c f then s else [], length p + length (flagged_string c f s))"
  using assms null_string_at_append [of s p rest] by (simp add: flagged_string_def)

lemma auth_response_stage:
  assumes "d = p @ auth @ rest" and "length d \<le> MaxPayloadLen"
  shows "auth_response d (int (length auth)) (length p) = Ok (auth, length p + length auth)"
proof -
  have "int64 (int (length p) + int (length auth)) = int (length p + length auth)"
    using assms by (simp add: int64_id MaxPayloadLen_def)
  then show ?thesis
    using assms by (auto simp: auth_response_def make_bytes_def slice_def MaxPayloadLen_def nat_add_distrib)
qed

lemma auth_length_lenenc_stage:
  assumes "d = p @ PutLenEncInt (word_of_nat n) @ rest" and "n < 2 ^ 63"
    and "has_flag c ClientPluginAuthLenencClientData"
  shows "auth_length_at c d (length p) = (int n, length p + length (PutLenEncInt (word_of_nat n)))"
proof -
  have "unat (word_of_nat n :: 64 word) = n" using assms by (simp add: unat_of_nat mod_less)
  then have "sint (word_of_nat n :: 64 word) = int n"
    using sint_small_nat [of "word_of_nat n"] assms by (simp add: uint_nat)
  then show ?thesis using assms lenenc_at_Put by (simp add: auth_length_at_def)
qed

lemma auth_length_secure_stage:
  assumes "d = p @ word_of_nat n # rest" and "n < 256"
    and "\<not> has_flag c ClientPluginAuthLenencClientData" and "has_flag c ClientSecureConnection"
  shows "auth_length_at c d (length p) = (int n, length p + 1)"
proof -
  have "uint (word_of_nat n :: byte) = int n"
    using assms by (simp add: uint_nat unat_of_nat mod_less)
  then show ?thesis using assms by (simp add: auth_length_at_def)
qed

text \<open>The length and data stages together, in both forms that carry a length.\<close>

lemma auth_stage:
  assumes "d = p @ auth_bytes c auth @ rest" and "length d \<le> MaxPayloadLen"
    and "has_flag c ClientPluginAuthLenencClientData \<or>
         has_flag c ClientSecureConnection \<and> length auth < 256"
  shows "(let (n, pos) = auth_length_at c d (length p) in auth_response d n pos) =
         Ok (auth, length p + length (auth_bytes c auth))"
proof (cases "has_flag c ClientPluginAuthLenencClientData")
  case True
  define l where "l = PutLenEncInt (word_of_nat (length auth))"
  have d: "d = p @ l @ auth @ rest" using assms(1) True by (simp add: auth_bytes_def l_def)
  have "auth_length_at c d (length p) = (int (length auth), length p + length l)"
    using auth_length_lenenc_stage [OF d [unfolded l_def] _ True] assms(2) d
    by (simp add: l_def MaxPayloadLen_def)
  moreover have "auth_response d (int (length auth)) (length (p @ l)) =
      Ok (auth, length (p @ l) + length auth)"
    using auth_response_stage [of d "p @ l" auth rest] assms(2) d by simp
  ultimately show ?thesis using True by (simp add: auth_bytes_def l_def add.assoc)
next
  case False
  then have s: "has_flag c ClientSecureConnection" and n: "length auth < 256" using assms by auto
  define l where "l = [word_of_nat (length auth) :: byte]"
  have d: "d = p @ l @ auth @ rest" using assms(1) False s by (simp add: auth_bytes_def l_def)
  have "auth_length_at c d (length p) = (int (length auth), length p + length l)"
    using auth_length_secure_stage [of d p "length auth" "auth @ rest", OF _ n False s] d
    by (simp add: l_def)
  moreover have "auth_response d (int (length auth)) (length (p @ l)) =
      Ok (auth, length (p @ l) + length auth)"
    using auth_response_stage [of d "p @ l" auth rest] assms(2) d by simp
  ultimately show ?thesis using False s by (simp add: auth_bytes_def l_def)
qed

lemma ParseHandshakeResponse_stages:
  assumes "9 \<le> length d" and "c = payload_capability d"
    and "(if 32 < length d then null_string_at d 32 else Ok ([], 32)) = Ok (user, e)"
    and "(let (n, pos) = auth_length_at c d e in auth_response d n pos) = Ok (auth, q)"
    and "(if has_flag c ClientConnectWithDB \<and> q < length d then null_string_at d q else Ok ([], q)) = Ok (db, q')"
    and "(if has_flag c ClientPluginAuth \<and> q' < length d then null_string_at d q' else Ok ([], q')) = Ok (plugin, q'')"
  shows "ParseHandshakeResponse d =
     Ok \<lparr>hr_Capability = c, hr_MaxPacketSize = word_of_nat (le_nat (take 4 (drop 4 d))),
         hr_CharacterSet = d ! 8, hr_Username = user, hr_AuthResponse = auth,
         hr_Database = db, hr_AuthPluginName = plugin\<rparr>"
proof -
  have fixed: "slice d 0 4 = Ok (take 4 d)" "slice d 4 8 = Ok (take 4 (drop 4 d))"
    "index d 8 = Ok (d ! 8)" "\<not> length d < 4"
    using assms(1) by (simp_all add: slice_def index_def)
  obtain n pos where al: "auth_length_at c d e = (n, pos)" by fastforce
  show ?thesis
    unfolding ParseHandshakeResponse_def
    using assms(2-) al
    by (simp add: fixed Let_def auth_length_eq flip: payload_capability_def cong: if_cong)
qed

lemma client_response_fixed:
  assumes "d = client_response c maxp cs user auth db plugin"
  shows "9 \<le> length d" and "payload_capability d = c"
    and "word_of_nat (le_nat (take 4 (drop 4 d))) = maxp" and "d ! 8 = cs"
  by (simp_all add: assms client_response_def payload_capability_def nth_append)

lemma client_response_user:
  assumes "no_null user"
  shows "(if 32 < length (client_response c maxp cs user auth db plugin)
     then null_string_at (client_response c maxp cs user auth db plugin) 32 else Ok ([], 32)) =
     Ok (user, 33 + length user)"
proof -
  define p where "p = le_bytes 4 (unat c) @ le_bytes 4 (unat maxp) @ [cs] @ replicate 23 0"
  have "length p = 32" by (simp add: p_def)
  moreover have "client_response c maxp cs user auth db plugin = p @ bytes_of user @ 0 #
      auth_bytes c auth @ flagged_string c ClientConnectWithDB db @ flagged_string c ClientPluginAuth plugin"
    by (simp add: client_response_def p_def)
  ultimately show ?thesis
    using null_string_at_append [OF assms, of p] by simp
qed

lemma ParseHandshakeResponse_client:
  assumes "no_null user" and "no_null db" and "no_null plugin"
    and "has_flag c ClientPluginAuthLenencClientData \<or>
         has_flag c ClientSecureConnection \<and> length auth < 256"
    and "length (client_response c maxp cs user auth db plugin) \<le> MaxPayloadLen"
  shows "ParseHandshakeResponse (client_response c maxp cs user auth db plugin) =
    Ok \<lparr>hr_Capability = c, hr_MaxPacketSize = maxp, hr_CharacterSet = cs, hr_Username = user,
        hr_AuthResponse = auth,
        hr_Database = (if has_flag c ClientConnectWithDB then db else []),
        hr_AuthPluginName = (if has_flag c ClientPluginAuth then plugin else [])\<rparr>"
proof -
  define d where "d = client_response c maxp cs user auth db plugin"
  define p where "p = le_bytes 4 (unat c) @ le_bytes 4 (unat maxp) @ [cs] @ replicate 23 0
     @ bytes_of user @ [0]"
  define D where "D = flagged_string c ClientConnectWithDB db"
  define P where "P = flagged_string c ClientPluginAuth plugin"
  have lp: "length p = 33 + length user" by (simp add: p_def)
  have d: "d = p @ auth_bytes c auth @ D @ P"
    by (simp add: d_def client_response_def p_def D_def P_def)
  have 0: "(if 32 < length d then null_string_at d 32 else Ok ([], 32)) = Ok (user, 33 + length user)"
    using client_response_user [OF assms(1)] by (simp only: d_def)
  have 1: "(let (n, pos) = auth_length_at c d (33 + length user) in auth_response d n pos) =
      Ok (auth, length (p @ auth_bytes c auth))"
    using auth_stage [OF d _ assms(4)] assms(5) lp by (simp add: d_def)
  have 2: "(if has_flag c ClientConnectWithDB \<and> length (p @ auth_bytes c auth) < length d
       then null_string_at d (length (p @ auth_bytes c auth)) else Ok ([], length (p @ auth_bytes c auth)))
     = Ok (if has_flag c ClientConnectWithDB then db else [], length (p @ auth_bytes c auth @ D))"
    using flagged_string_stage [of d "p @ auth_bytes c auth" c ClientConnectWithDB db P] d assms(2)
    by (simp add: D_def)
  have 3: "(if has_flag c ClientPluginAuth \<and> length (p @ auth_bytes c auth @ D) < length d
       then null_string_at d (length (p @ auth_bytes c auth @ D))
       else Ok ([], length (p @ auth_bytes c auth @ D)))
     = Ok (if has_flag c ClientPluginAuth then plugin else [], length d)"
    using flagged_string_stage [of d "p @ auth_bytes c auth @ D" c ClientPluginAuth plugin "[]"] d assms(3)
    by (simp add: P_def)
  show ?thesis
    using ParseHandshakeResponse_stages [OF client_response_fixed(1) [OF d_def]
        client_response_fixed(2) [OF d_def, symmetric]
        0 1 2 3] client_response_fixed(3,4) [OF d_def]
    by (simp add: d_def)
qed

text \<open>
  From the handshake response of a client that announces the length of its
  authentication response (both current forms), the parser reads back every field; a
  database or plugin name it did not announce is empty.
\<close>

theorem handshake_response_roundtrip:
  assumes "no_null user" and "no_null db" and "no_null plugin"
    and "has_flag c ClientPluginAuthLenencClientData \<or>
         has_flag c ClientSecureConnection \<and> length auth < 256"
    and "length (client_response c maxp cs user auth db plugin) \<le> MaxPayloadLen"
  shows "ParseHandshakeResponse (client_response c maxp cs user auth db plugin) =
    Ok \<lparr>hr_Capability = c, hr_MaxPacketSize = maxp, hr_CharacterSet = cs, hr_Username = user,
        hr_AuthResponse = auth,
        hr_Database = (if has_flag c ClientConnectWithDB then db else []),
        hr_AuthPluginName = (if has_flag c ClientPluginAuth then plugin else [])\<rparr>"
  using ParseHandshakeResponse_client [OF assms] .

lemma slice_of_append: "slice (p @ s @ r) (length p) (length p + length s) = Ok s"
  by (simp add: slice_def)

text \<open>
  C38: A client that null-terminates its authentication response (neither length flag, the
  oldest form) loses its database: the parser stops at the terminator without stepping
  over it, takes the database name for empty and the database for the plugin name.
\<close>

theorem old_client_database_lost:
  assumes "no_null user" and "0 \<notin> set auth" and "no_null db"
    and "\<not> has_flag c ClientPluginAuthLenencClientData" and "\<not> has_flag c ClientSecureConnection"
    and "has_flag c ClientConnectWithDB" and "has_flag c ClientPluginAuth"
    and "length (client_response c maxp cs user auth db plugin) \<le> MaxPayloadLen"
  shows "ParseHandshakeResponse (client_response c maxp cs user auth db plugin) =
    Ok \<lparr>hr_Capability = c, hr_MaxPacketSize = maxp, hr_CharacterSet = cs, hr_Username = user,
        hr_AuthResponse = auth, hr_Database = [], hr_AuthPluginName = db\<rparr>"
proof -
  define d where "d = client_response c maxp cs user auth db plugin"
  define p where "p = le_bytes 4 (unat c) @ le_bytes 4 (unat maxp) @ [cs] @ replicate 23 0
     @ bytes_of user @ [0]"
  define P where "P = bytes_of plugin @ [0]"
  have lp: "length p = 33 + length user" by (simp add: p_def)
  have d: "d = p @ auth @ 0 # bytes_of db @ 0 # P" using assms(4-7)
    by (simp add: d_def client_response_def p_def P_def auth_bytes_def flagged_string_def)
  have 0: "(if 32 < length d then null_string_at d 32 else Ok ([], 32)) = Ok (user, length p)"
    using client_response_user [OF assms(1)] lp by (simp only: d_def)
  have "auth_length_at c d (length p) = (int (length auth), length p)"
    using assms(4,5) my_findNull_append [OF assms(2), of p "bytes_of db @ 0 # P"] d
    by (simp add: auth_length_at_def)
  then have 1: "(let (n, pos) = auth_length_at c d (length p) in auth_response d n pos) =
      Ok (auth, length (p @ auth))"
    using auth_response_stage [of d p auth "0 # bytes_of db @ 0 # P"] assms(8) d
    by (simp add: d_def)
  have "null_string_at d (length (p @ auth)) = Ok ([], length (p @ auth @ [0]))"
    using null_string_at_append [of "[]" "p @ auth" "bytes_of db @ 0 # P"] d
    by (simp add: no_null_def)
  then have 2: "(if has_flag c ClientConnectWithDB \<and> length (p @ auth) < length d
       then null_string_at d (length (p @ auth)) else Ok ([], length (p @ auth)))
     = Ok ([], length (p @ auth @ [0]))"
    using assms(6) d by simp
  have "null_string_at d (length (p @ auth @ [0])) = Ok (db, length (p @ auth @ [0]) + length db + 1)"
    using null_string_at_append [OF assms(3), of "p @ auth @ [0]" P] d by simp
  then have 3: "(if has_flag c ClientPluginAuth \<and> length (p @ auth @ [0]) < length d
       then null_string_at d (length (p @ auth @ [0])) else Ok ([], length (p @ auth @ [0])))
     = Ok (db, length (p @ auth @ [0]) + length db + 1)"
    using assms(7) d by simp
  show ?thesis
    using ParseHandshakeResponse_stages [OF client_response_fixed(1) [OF d_def]
        client_response_fixed(2) [OF d_def, symmetric] 0 1 2 3] client_response_fixed(3,4) [OF d_def]
    by (simp add: d_def)
qed

section \<open>Rows, columns and errors, as a client decodes them\<close>

text \<open>One text-protocol row of \<open>n\<close> columns; \<open>0xFB\<close> is SQL NULL.\<close>

fun decode_row :: "nat \<Rightarrow> byte list \<Rightarrow> string option list option" where
  "decode_row 0 bs = (if bs = [] then Some [] else None)"
| "decode_row (Suc n) bs =
     (case bs of
        [] \<Rightarrow> None
      | b # r \<Rightarrow>
          if b = 0xFB then map_option (Cons None) (decode_row n r)
          else do {
            (s, r) \<leftarrow> lenenc_string bs;
            vs \<leftarrow> decode_row n r;
            Some (Some s # vs)
          })"

definition sql_value :: "string \<Rightarrow> string option" where
  "sql_value v = (if v = ''NULL'' then None else Some v)"

lemma hd_PutLenEncInt: "hd (PutLenEncInt v) \<noteq> 0xFB" "hd (PutLenEncInt v) \<noteq> 0xFF"
proof -
  have "unat v < 251 \<Longrightarrow> unat (ucast v :: byte) = unat v"
    by (simp add: unsigned_ucast_eq take_bit_eq_mod mod_less)
  then show "hd (PutLenEncInt v) \<noteq> 0xFB" "hd (PutLenEncInt v) \<noteq> 0xFF"
    by (auto simp: PutLenEncInt_def)
qed

lemma PutLenEncString_Cons:
  obtains b r where "PutLenEncString s = b # r" and "b \<noteq> 0xFB" and "b \<noteq> 0xFF"
  using hd_PutLenEncInt [of "word_of_nat (length (bytes_of s))"]
  by (cases "PutLenEncInt (word_of_nat (length (bytes_of s)))") (auto simp: PutLenEncString_def)

lemma decode_row_Build:
  assumes "\<forall>v \<in> set vs. length v < 2 ^ 64"
  shows "decode_row (length vs) (BuildResultSetRow vs) = Some (map sql_value vs)"
  using assms
proof (induction vs)
  case Nil
  then show ?case by simp
next
  case (Cons v vs)
  then have IH: "decode_row (length vs) (BuildResultSetRow vs) = Some (map sql_value vs)"
    and len: "length v < 2 ^ 64" by simp_all
  show ?case
  proof (cases "v = ''NULL''")
    case True
    with IH show ?thesis by (simp add: sql_value_def)
  next
    case False
    obtain b r where br: "PutLenEncString v = b # r" "b \<noteq> 0xFB"
      by (rule PutLenEncString_Cons)
    have "lenenc_string (b # r @ BuildResultSetRow vs) = Some (v, BuildResultSetRow vs)"
      using lenenc_string_Put [OF len, of "BuildResultSetRow vs"] br by simp
    with False br IH show ?thesis by (simp add: sql_value_def)
  qed
qed

text \<open>
  A client that decodes a text-protocol row gets every value back, byte for byte, except
  that a value that is the four characters \<open>NULL\<close> arrives as SQL NULL.
\<close>

theorem row_roundtrip:
  assumes "\<forall>v \<in> set vs. length v < 2 ^ 64"
  shows "decode_row (length vs) (BuildResultSetRow vs) = Some (map sql_value vs)"
  using assms by (rule decode_row_Build)

text \<open>
  How a client tells a row from the packet that ends the rows: an EOF packet starts with
  \<open>0xFE\<close> and is shorter than nine bytes, an ERR packet starts with \<open>0xFF\<close>.
\<close>

definition is_eof :: "byte list \<Rightarrow> bool" where
  "is_eof p = (p \<noteq> [] \<and> hd p = 0xFE \<and> length p < 9)"

definition is_err :: "byte list \<Rightarrow> bool" where
  "is_err p = (p \<noteq> [] \<and> hd p = 0xFF)"

lemma is_eof_BuildEOFPacket [simp]: "is_eof (BuildEOFPacket warnings status)"
  by (simp add: is_eof_def BuildEOFPacket_def)

lemma PutLenEncInt_not_eof: "\<not> is_eof (PutLenEncInt v @ r)"
proof -
  have "unat v < 251 \<Longrightarrow> unat (ucast v :: byte) = unat v"
    by (simp add: unsigned_ucast_eq take_bit_eq_mod mod_less)
  then have "(ucast v :: byte) \<noteq> 0xFE" if "unat v < 251" using that by auto
  then show ?thesis by (auto simp: is_eof_def PutLenEncInt_def)
qed

lemma row_not_terminator:
  "\<not> is_eof (BuildResultSetRow vs)" "\<not> is_err (BuildResultSetRow vs)"
proof -
  show "\<not> is_eof (BuildResultSetRow vs)"
  proof (cases vs)
    case (Cons v vs')
    then show ?thesis
      using PutLenEncInt_not_eof [of "word_of_nat (length (bytes_of v))" "bytes_of v @ BuildResultSetRow vs'"]
      by (auto simp: PutLenEncString_def is_eof_def)
  qed (simp add: is_eof_def)
  show "\<not> is_err (BuildResultSetRow vs)"
  proof (cases vs)
    case (Cons v vs')
    then show ?thesis by (rule_tac s = v in PutLenEncString_Cons) (auto simp: is_err_def)
  qed (simp add: is_err_def)
qed

definition decode_column :: "byte list \<Rightarrow> ColumnDef41 option" where
  "decode_column bs =
     do {
       (catalog, r) \<leftarrow> lenenc_string bs;
       (schema, r) \<leftarrow> lenenc_string r;
       (tab, r) \<leftarrow> lenenc_string r;
       (orgtab, r) \<leftarrow> lenenc_string r;
       (name, r) \<leftarrow> lenenc_string r;
       (orgname, r) \<leftarrow> lenenc_string r;
       (fixed, r) \<leftarrow> lenenc_int r;
       (charset, r) \<leftarrow> next_bytes 2 r;
       (len, r) \<leftarrow> next_bytes 4 r;
       (type, r) \<leftarrow> next_byte r;
       (flags, r) \<leftarrow> next_bytes 2 r;
       (decimals, r) \<leftarrow> next_byte r;
       if fixed = 12 \<and> r = [0, 0] then
         Some \<lparr>cd_Catalog = catalog, cd_Schema = schema, cd_Table = tab, cd_OrgTable = orgtab,
               cd_Name = name, cd_OrgName = orgname, cd_CharacterSet = word_of_nat (le_nat charset),
               cd_ColumnLength = word_of_nat (le_nat len), cd_ColumnType = type,
               cd_Flags = word_of_nat (le_nat flags), cd_Decimals = decimals\<rparr>
       else None
     }"

lemma column_roundtrip:
  assumes "length (cd_Catalog c) < 2 ^ 64" "length (cd_Schema c) < 2 ^ 64" "length (cd_Table c) < 2 ^ 64"
    "length (cd_OrgTable c) < 2 ^ 64" "length (cd_Name c) < 2 ^ 64" "length (cd_OrgName c) < 2 ^ 64"
  shows "decode_column (encode_column c) = Some c"
  using assms by (simp add: decode_column_def encode_column_def)

text \<open>An ERR packet: code, SQL state, message; an OK packet: its counters, flags and info.\<close>

definition decode_err :: "byte list \<Rightarrow> (16 word \<times> string \<times> string) option" where
  "decode_err bs =
     do {
       (h, r) \<leftarrow> next_byte bs;
       (code, r) \<leftarrow> next_bytes 2 r;
       (mark, r) \<leftarrow> next_byte r;
       (state, r) \<leftarrow> next_bytes 5 r;
       if h = 0xFF \<and> mark = byte_of CHR ''#''
       then Some (word_of_nat (le_nat code), string_of state, string_of r) else None
     }"

definition decode_ok :: "byte list \<Rightarrow> (nat \<times> nat \<times> 16 word \<times> 16 word \<times> string) option" where
  "decode_ok bs =
     do {
       (h, r) \<leftarrow> next_byte bs;
       (rows, r) \<leftarrow> lenenc_int r;
       (ins, r) \<leftarrow> lenenc_int r;
       (status, r) \<leftarrow> next_bytes 2 r;
       (warn, r) \<leftarrow> next_bytes 2 r;
       (info, r) \<leftarrow> (if r = [] then Some ([], []) else lenenc_string r);
       if h = 0 \<and> r = []
       then Some (rows, ins, word_of_nat (le_nat status), word_of_nat (le_nat warn), info) else None
     }"

lemma PutLenEncString_neq_Nil [simp]: "PutLenEncString s \<noteq> []"
  by (simp add: PutLenEncString_def)

lemma lenenc_string_Put_all [simp]:
  "length s < 2 ^ 64 \<Longrightarrow> lenenc_string (PutLenEncString s) = Some (s, [])"
  using lenenc_string_Put [of s "[]"] by simp

lemma length_err_state:
  "length (if length s < 5 then s @ take (5 - length s) ''     '' else take 5 s) = 5"
  by simp

lemma decode_ok_Build:
  assumes "length info < 2 ^ 64"
  shows "decode_ok (BuildOKPacket rows ins status warn info) = Some (unat rows, unat ins, status, warn, info)"
  using assms by (simp add: decode_ok_def BuildOKPacket_def)

text \<open>
  A client reads back from an ERR packet the error code, the SQL state padded with blanks or
  cut to five characters, and the message; from an OK packet every counter and flag and the
  info string.
\<close>

theorem status_packets_roundtrip:
  assumes "length info < 2 ^ 64"
  shows "decode_err (BuildERRPacket code state msg) =
      Some (code, take 5 (state @ replicate 5 CHR '' ''), msg)
    \<and> decode_ok (BuildOKPacket rows ins status warn info) =
      Some (unat rows, unat ins, status, warn, info)"
proof
  define st where "st = (if length state < 5 then state @ take (5 - length state) ''     '' else take 5 state)"
  have "''     '' = replicate 5 CHR '' ''" by (simp add: numeral_eq_Suc)
  then have st: "st = take 5 (state @ replicate 5 CHR '' '')" "length (bytes_of st) = 5"
    by (simp_all add: st_def)
  have "BuildERRPacket code state msg =
      0xFF # le_bytes 2 (unat code) @ byte_of CHR ''#'' # bytes_of st @ bytes_of msg"
    by (simp add: BuildERRPacket_def st_def)
  then show "decode_err (BuildERRPacket code state msg) =
      Some (code, take 5 (state @ replicate 5 CHR '' ''), msg)"
    unfolding st(1) [symmetric] using st(2) by (simp add: decode_err_def)
qed (rule decode_ok_Build [OF assms])

section \<open>Witnesses\<close>

theorem greeting_roundtrip_witness:
  "length (hs_AuthPluginData BuildHandshakeV10) = 20
   \<and> decode_greeting (encode_handshake BuildHandshakeV10) = Some BuildHandshakeV10"
proof -
  have h: "length (hs_AuthPluginData BuildHandshakeV10) = 20"
    "no_null (hs_ServerVersion BuildHandshakeV10)" "no_null (hs_AuthPluginName BuildHandshakeV10)"
    by (simp_all add: BuildHandshakeV10_def no_null_def AuthPluginName_def byte_of_def)
  show ?thesis using h(1) greeting_roundtrip [OF h] by blast
qed

text \<open>
  A response of 5 bytes, and one whose authentication length is \<open>2^63 - 1\<close>: each crashes the
  proxy.
\<close>

definition overflowing_response :: "byte list" where
  "overflowing_response = [0, 0, 0x20, 0] @ replicate 29 0 @ PutLenEncInt 0x7FFFFFFFFFFFFFFF"

theorem handshake_panics_iff_witness:
  "is_panic (ParseHandshakeResponse [1, 2, 3, 4, 5]) \<and> is_panic (ParseHandshakeResponse overflowing_response)"
proof
  have "length [1, 2, 3, 4, 5 :: byte] \<le> MaxPayloadLen" by (simp add: MaxPayloadLen_def)
  from handshake_panics_iff [OF this] show "is_panic (ParseHandshakeResponse [1, 2, 3, 4, 5])" by simp
next
  have len: "length overflowing_response \<le> MaxPayloadLen"
    by (simp add: MaxPayloadLen_def overflowing_response_def length_PutLenEncInt)
  have cap: "payload_capability overflowing_response = 0x200000"
    by (simp add: payload_capability_def overflowing_response_def)
  have end': "user_end overflowing_response = 33"
  proof -
    have "replicate 29 (0 :: byte) = replicate 28 0 @ [0]" by (simp add: numeral_eq_Suc)
    then show ?thesis
      using my_findNull_append [of "[]" "[0, 0, 0x20, 0] @ replicate 28 0" "PutLenEncInt 0x7FFFFFFFFFFFFFFF"]
      by (simp add: user_end_def overflowing_response_def length_PutLenEncInt)
  qed
  have dec: "decodeLenEncInt overflowing_response 33 = Ok (2 ^ 63 - 1, 42)"
    using lenenc_at_Put [of "[0, 0, 0x20, 0] @ replicate 29 0" "0x7FFFFFFFFFFFFFFF" "[]"]
    by (simp add: overflowing_response_def length_PutLenEncInt decodeLenEncInt_eq)
  show "is_panic (ParseHandshakeResponse overflowing_response)"
    using handshake_panics_iff [OF len]
    by (simp add: cap end' dec has_flag_def capability_defs)
      (simp add: overflowing_response_def length_PutLenEncInt)
qed

theorem handshake_response_roundtrip_witness:
  "hr_Database (case ParseHandshakeResponse (client_response 0x288008 0 45 ''root'' [1, 2] ''testdb'' ''p'')
     of Ok r \<Rightarrow> r) = ''testdb''"
proof -
  have n: "no_null ''root''" "no_null ''testdb''" "no_null ''p''"
    by (simp_all add: no_null_def byte_of_def)
  have f: "has_flag 0x288008 ClientPluginAuthLenencClientData
      \<or> has_flag 0x288008 ClientSecureConnection \<and> length [1, 2 :: byte] < 256"
    "has_flag 0x288008 ClientConnectWithDB"
    by (simp_all add: has_flag_def capability_defs)
  have l: "length (client_response 0x288008 0 45 ''root'' [1, 2] ''testdb'' ''p'') \<le> MaxPayloadLen"
    by (simp add: client_response_def auth_bytes_def flagged_string_def PutLenEncInt_def MaxPayloadLen_def)
  show ?thesis using handshake_response_roundtrip [OF n f(1) l] f(2) by simp
qed

theorem old_client_database_lost_witness:
  "hr_Database (case ParseHandshakeResponse (client_response 0x80008 0 45 ''root'' [1, 2] ''testdb'' ''p'')
     of Ok r \<Rightarrow> r) = [] \<and>
   hr_AuthPluginName (case ParseHandshakeResponse (client_response 0x80008 0 45 ''root'' [1, 2] ''testdb'' ''p'')
     of Ok r \<Rightarrow> r) = ''testdb''"
proof -
  have n: "no_null ''root''" "0 \<notin> set [1, 2 :: byte]" "no_null ''testdb''"
    by (simp_all add: no_null_def byte_of_def)
  have f: "\<not> has_flag 0x80008 ClientPluginAuthLenencClientData" "\<not> has_flag 0x80008 ClientSecureConnection"
    "has_flag 0x80008 ClientConnectWithDB" "has_flag 0x80008 ClientPluginAuth"
    by (simp_all add: has_flag_def capability_defs)
  have l: "length (client_response 0x80008 0 45 ''root'' [1, 2] ''testdb'' ''p'') \<le> MaxPayloadLen"
    using f by (simp add: client_response_def auth_bytes_def flagged_string_def MaxPayloadLen_def)
  show ?thesis using old_client_database_lost [OF n f l] by simp
qed

theorem row_roundtrip_witness:
  "decode_row 3 (BuildResultSetRow [''1'', ''NULL'', []]) = Some [Some ''1'', None, Some []]"
proof -
  have h: "\<forall>v \<in> set [''1'', ''NULL'', []]. length v < 2 ^ 64" by simp
  show ?thesis using row_roundtrip [OF h] by (simp add: sql_value_def numeral_3_eq_3)
qed

theorem status_packets_roundtrip_witness:
  "decode_err (BuildERRPacket 1047 ''08S01'' ''Unknown command'') = Some (1047, ''08S01'', ''Unknown command'')"
proof -
  have h: "length ''x'' < 2 ^ 64" by simp
  show ?thesis
    using status_packets_roundtrip [OF h, of 1047 "''08S01''" "''Unknown command''" 0 0 0 0] by simp
qed

end
