(* ===== verification/SqlCommand.thy ===== *)
theory SqlCommand
  imports Prelude
begin

text \<open>
  How the program looks at SQL text: the first word of a statement (four copies of
  \<open>sqlCommandType\<close>: in \<^verbatim>\<open>pkg/handler\<close>, \<^verbatim>\<open>pkg/mysqlproxy\<close>, \<^verbatim>\<open>pkg/httphandler\<close> and, written
  differently, \<^verbatim>\<open>pkg/pgproxy\<close>) and the completion tags the two proxies build from it
  (\<open>commandTag\<close>, \<open>createTag\<close>). A Go string is a list of its bytes as characters; the
  conversion \<open>string(sql[i])\<close> of one byte is the UTF-8 form of the code point with that
  number, two bytes from 128 on.
\<close>

section \<open>The first word\<close>

definition is_space :: "char \<Rightarrow> bool" where
  "is_space c = (c = CHR '' '' \<or> c = CHR 0x09 \<or> c = CHR 0x0A \<or> c = CHR 0x0D)"

definition ends_word :: "char \<Rightarrow> bool" where
  "ends_word c = (is_space c \<or> c = CHR ''('' \<or> c = CHR '';'')"

declare is_space_def [go_defs] ends_word_def [go_defs]

function skip_spaces :: "string \<Rightarrow> nat \<Rightarrow> nat" where
  "skip_spaces sql i = (if i < length sql \<and> is_space (sql ! i) then skip_spaces sql (i + 1) else i)"
  by pat_completeness auto
termination
  by (relation "measure (\<lambda>(sql, i). length sql - i)") auto

function word_end :: "string \<Rightarrow> nat \<Rightarrow> nat" where
  "word_end sql j = (if j < length sql \<and> \<not> ends_word (sql ! j) then word_end sql (j + 1) else j)"
  by pat_completeness auto
termination
  by (relation "measure (\<lambda>(sql, j). length sql - j)") auto

declare skip_spaces.simps [simp del] word_end.simps [simp del]

text \<open>The copy of \<^verbatim>\<open>pkg/handler\<close>, then those of \<^verbatim>\<open>pkg/mysqlproxy\<close> and \<^verbatim>\<open>pkg/httphandler\<close>.\<close>

definition sqlCommandType :: "string \<Rightarrow> string" where
  "sqlCommandType sql =
     (let i = skip_spaces sql 0; j = word_end sql i in
      if j \<le> i then [] else take (j - i) (drop i sql))"

definition my_sqlCommandType :: "string \<Rightarrow> string" where
  "my_sqlCommandType sql =
     (let i = skip_spaces sql 0; j = word_end sql i in
      if j \<le> i then [] else take (j - i) (drop i sql))"

definition legacy_sqlCommandType :: "string \<Rightarrow> string" where
  "legacy_sqlCommandType sql =
     (let i = skip_spaces sql 0; j = word_end sql i in
      if j \<le> i then [] else take (j - i) (drop i sql))"

text \<open>\<open>string(b)\<close> of one byte, and the copy of \<^verbatim>\<open>pkg/pgproxy\<close> that appends it byte by byte.\<close>

definition rune_string :: "char \<Rightarrow> string" where
  "rune_string c =
     (let n = of_char c :: nat in
      if n < 128 then [c] else [char_of (192 + n div 64), char_of (128 + n mod 64)])"

function pg_word_loop :: "string \<Rightarrow> nat \<Rightarrow> string \<Rightarrow> string" where
  "pg_word_loop sql i s =
     (if i < length sql \<and> \<not> ends_word (sql ! i)
      then pg_word_loop sql (i + 1) (s @ rune_string (sql ! i)) else s)"
  by pat_completeness auto
termination
  by (relation "measure (\<lambda>(sql, i, s). length sql - i)") auto

declare pg_word_loop.simps [simp del]

definition pg_sqlCommandType :: "string \<Rightarrow> string" where
  "pg_sqlCommandType sql = pg_word_loop sql (skip_spaces sql 0) []"

section \<open>Completion tags\<close>

text \<open>The loop of \<open>createTag\<close> over the rest of the statement.\<close>

fun createTag_loop :: "string \<Rightarrow> string list \<Rightarrow> string \<Rightarrow> bool \<Rightarrow> string list \<times> string \<times> bool" where
  "createTag_loop [] parts word inWord = (parts, word, inWord)"
| "createTag_loop (ch # chs) parts word inWord =
     (if length parts < 3 then
        (if is_space ch \<or> ch = CHR '';'' then
           (if inWord then createTag_loop chs (parts @ [word]) [] False
            else createTag_loop chs parts word inWord)
         else createTag_loop chs parts (word @ rune_string ch) True)
      else (parts, word, inWord))"

definition is_ddl :: "string \<Rightarrow> bool" where
  "is_ddl w = (w = ''CREATE'' \<or> w = ''ALTER'' \<or> w = ''DROP'')"

definition createTag :: "string \<Rightarrow> string result" where
  "createTag sql =
     (let (parts, word, inWord) = createTag_loop sql [] [] False;
          parts = (if inWord \<and> length parts < 3 then parts @ [word] else parts)
      in if length parts \<ge> 2 \<and> is_ddl (parts ! 0)
         then Ok (parts ! 0 @ '' '' @ parts ! 1)
         else index parts 0)"

text \<open>\<open>commandTag\<close> of \<^verbatim>\<open>pkg/pgproxy\<close>, and of \<^verbatim>\<open>pkg/mysqlproxy\<close>.\<close>

definition pg_commandTag :: "string \<Rightarrow> nat \<Rightarrow> int \<Rightarrow> string result" where
  "pg_commandTag sql numRows rowsAffected =
     (let cmd = pg_sqlCommandType sql in
      if cmd = ''SELECT'' \<or> cmd = ''SHOW'' \<or> cmd = ''EXPLAIN'' \<or> cmd = ''DESCRIBE''
        then Ok (cmd @ '' '' @ fmt_d (int numRows))
      else if cmd = ''INSERT'' then Ok (''INSERT 0 '' @ fmt_d rowsAffected)
      else if cmd = ''UPDATE'' \<or> cmd = ''DELETE'' \<or> cmd = ''MOVE'' \<or> cmd = ''FETCH'' \<or> cmd = ''COPY''
        then Ok (cmd @ '' '' @ fmt_d rowsAffected)
      else if cmd = ''CREATE'' \<or> cmd = ''ALTER'' \<or> cmd = ''DROP'' then createTag sql
      else if rowsAffected > 0 then Ok (cmd @ '' '' @ fmt_d rowsAffected)
      else Ok cmd)"

definition my_commandTag :: "string \<Rightarrow> int \<Rightarrow> string" where
  "my_commandTag sql rowsAffected =
     (let cmd = my_sqlCommandType sql in
      if cmd = ''INSERT'' then
        ''Records: '' @ fmt_d rowsAffected @ ''  Duplicates: 0  Warnings: 0''
      else if cmd = ''UPDATE'' \<or> cmd = ''DELETE'' then
        ''Affected rows: '' @ fmt_d rowsAffected @ ''  Rows matched: '' @ fmt_d rowsAffected
          @ ''  Changed: '' @ fmt_d rowsAffected @ ''  Warnings: 0''
      else if rowsAffected > 0 then ''Affected rows: '' @ fmt_d rowsAffected
      else [])"

section \<open>The loops compute the first word\<close>

definition is_ascii :: "string \<Rightarrow> bool" where
  "is_ascii w = list_all (\<lambda>c. (of_char c :: nat) < 128) w"

definition first_word :: "string \<Rightarrow> string" where
  "first_word sql = takeWhile (\<lambda>c. \<not> ends_word c) (dropWhile is_space sql)"

lemma drop_skip_spaces: "drop (skip_spaces sql i) sql = dropWhile is_space (drop i sql)"
proof (induction sql i rule: skip_spaces.induct)
  case (1 sql i)
  show ?case
  proof (cases "i < length sql")
    case True
    then show ?thesis using 1
      by (subst skip_spaces.simps) (auto simp: Cons_nth_drop_Suc [symmetric])
  next
    case False
    then show ?thesis by (subst skip_spaces.simps) simp
  qed
qed

lemma take_word_end:
  "j \<le> word_end sql j \<and> take (word_end sql j - j) (drop j sql) = takeWhile (\<lambda>c. \<not> ends_word c) (drop j sql)"
proof (induction sql j rule: word_end.induct)
  case (1 sql j)
  show ?case
  proof (cases "j < length sql \<and> \<not> ends_word (sql ! j)")
    case True
    then have IH: "j + 1 \<le> word_end sql (j + 1)"
      "take (word_end sql (j + 1) - (j + 1)) (drop (j + 1) sql) =
       takeWhile (\<lambda>c. \<not> ends_word c) (drop (j + 1) sql)" using 1 by simp_all
    then have "word_end sql (j + 1) - j = Suc (word_end sql (j + 1) - (j + 1))" by simp
    with True IH show ?thesis
      by (subst (1 2) word_end.simps) (auto simp: Cons_nth_drop_Suc [symmetric])
  next
    case False
    then show ?thesis
      by (cases "j < length sql") (auto simp: word_end.simps [of sql j] simp flip: Cons_nth_drop_Suc)
  qed
qed

lemma sqlCommandType_first_word: "sqlCommandType sql = first_word sql"
proof -
  define i where "i = skip_spaces sql 0"
  have "drop i sql = dropWhile is_space sql" using drop_skip_spaces [of sql 0] by (simp add: i_def)
  then show ?thesis
    using take_word_end [of i sql]
    by (cases "word_end sql i \<le> i") (simp_all add: sqlCommandType_def first_word_def Let_def flip: i_def)
qed

lemma pg_word_loop_word:
  "pg_word_loop sql i s = s @ concat (map rune_string (takeWhile (\<lambda>c. \<not> ends_word c) (drop i sql)))"
proof (induction sql i s rule: pg_word_loop.induct)
  case (1 sql i s)
  show ?case
  proof (cases "i < length sql \<and> \<not> ends_word (sql ! i)")
    case True
    then show ?thesis using 1
      by (subst pg_word_loop.simps) (auto simp: Cons_nth_drop_Suc [symmetric])
  next
    case False
    then show ?thesis
      by (cases "i < length sql")
        (auto simp: pg_word_loop.simps [of sql i s] simp flip: Cons_nth_drop_Suc)
  qed
qed

lemma pg_sqlCommandType_first_word:
  "pg_sqlCommandType sql = concat (map rune_string (first_word sql))"
  using drop_skip_spaces [of sql 0]
  by (simp add: pg_sqlCommandType_def pg_word_loop_word first_word_def)

lemma length_rune_string: "length (rune_string c) = (if (of_char c :: nat) < 128 then 1 else 2)"
  by (simp add: rune_string_def Let_def)

lemma concat_rune_string_eq_iff:
  "concat (map rune_string w) = w \<longleftrightarrow> (\<forall>c \<in> set w. (of_char c :: nat) < 128)"
proof
  assume eq: "concat (map rune_string w) = w"
  have "length (concat (map rune_string w)) = length w + length (filter (\<lambda>c. \<not> (of_char c :: nat) < 128) w)" for w
    by (induction w) (simp_all add: length_rune_string)
  from this [of w] eq have "filter (\<lambda>c. \<not> (of_char c :: nat) < 128) w = []" by simp
  then show "\<forall>c \<in> set w. (of_char c :: nat) < 128" by (simp add: filter_empty_conv)
next
  show "\<forall>c \<in> set w. (of_char c :: nat) < 128 \<Longrightarrow> concat (map rune_string w) = w"
    by (induction w) (simp_all add: rune_string_def)
qed

text \<open>
  C39: The three index-based copies of \<open>sqlCommandType\<close> are one function, the first word of the
  statement. The copy of the PostgreSQL proxy agrees with them exactly on the statements
  whose first word is ASCII: it turns a byte from 128 on into two.
\<close>

theorem sqlCommandType_copies:
  "my_sqlCommandType sql = sqlCommandType sql \<and> legacy_sqlCommandType sql = sqlCommandType sql
   \<and> sqlCommandType sql = takeWhile (\<lambda>c. \<not> ends_word c) (dropWhile is_space sql)
   \<and> (pg_sqlCommandType sql = sqlCommandType sql \<longleftrightarrow>
       is_ascii (sqlCommandType sql))"
proof -
  have "my_sqlCommandType sql = sqlCommandType sql" "legacy_sqlCommandType sql = sqlCommandType sql"
    by (simp_all add: my_sqlCommandType_def legacy_sqlCommandType_def sqlCommandType_def)
  then show ?thesis
    by (simp add: sqlCommandType_first_word pg_sqlCommandType_first_word concat_rune_string_eq_iff
        is_ascii_def list_all_iff)
      (simp add: first_word_def)
qed

section \<open>The tag of CREATE, ALTER and DROP\<close>

definition is_sep :: "char \<Rightarrow> bool" where
  "is_sep c = (is_space c \<or> c = CHR '';'')"

text \<open>The words of a statement: its longest runs without blanks and semicolons.\<close>

function words_of :: "string \<Rightarrow> string list" where
  "words_of sql =
     (if dropWhile is_sep sql = [] then []
      else takeWhile (\<lambda>c. \<not> is_sep c) (dropWhile is_sep sql)
        # words_of (dropWhile (\<lambda>c. \<not> is_sep c) (dropWhile is_sep sql)))"
  by pat_completeness auto
termination
proof (relation "measure length")
  fix sql :: string
  assume ne: "dropWhile is_sep sql \<noteq> []"
  then obtain c cs where c: "dropWhile is_sep sql = c # cs" by (cases "dropWhile is_sep sql") auto
  then have "\<not> is_sep c" using hd_dropWhile [of is_sep sql] by simp
  then have "length (dropWhile (\<lambda>c. \<not> is_sep c) (dropWhile is_sep sql)) \<le> length cs"
    using c length_dropWhile_le [of _ cs] by simp
  also have "length cs < length sql"
    using c length_dropWhile_le [of is_sep sql] by simp
  finally show "(dropWhile (\<lambda>c. \<not> is_sep c) (dropWhile is_sep sql), sql) \<in> measure length" by simp
qed simp

declare words_of.simps [simp del]

definition utf8_expand :: "string \<Rightarrow> string" where
  "utf8_expand w = concat (map rune_string w)"

lemma utf8_expand_Nil [simp]: "utf8_expand [] = []"
  by (simp add: utf8_expand_def)

lemma utf8_expand_Cons [simp]: "utf8_expand (c # w) = rune_string c @ utf8_expand w"
  by (simp add: utf8_expand_def)

definition finish :: "string list \<times> string \<times> bool \<Rightarrow> string list" where
  "finish = (\<lambda>(parts, word, inWord). if inWord \<and> length parts < 3 then parts @ [word] else parts)"

lemma words_of_Cons_sep: "is_sep c \<Longrightarrow> words_of (c # cs) = words_of cs"
  by (simp add: words_of.simps [of "c # cs"] words_of.simps [of cs])

lemma words_of_Cons_word:
  "\<not> is_sep c \<Longrightarrow> words_of (c # cs) =
     (c # takeWhile (\<lambda>c. \<not> is_sep c) cs) # words_of (dropWhile (\<lambda>c. \<not> is_sep c) cs)"
  by (subst words_of.simps) simp

lemma words_of_Nil [simp]: "words_of [] = []"
  by (simp add: words_of.simps)

lemma createTag_loop_full: "3 \<le> length parts \<Longrightarrow> createTag_loop sql parts word b = (parts, word, b)"
  by (cases sql) auto

lemma createTag_loop_words:
  "(length parts \<le> 3 \<longrightarrow>
     finish (createTag_loop sql parts [] False) = take 3 (parts @ map utf8_expand (words_of sql)))
   \<and> (length parts < 3 \<longrightarrow>
     finish (createTag_loop sql parts word True) =
       take 3 (parts @ (word @ utf8_expand (takeWhile (\<lambda>c. \<not> is_sep c) sql))
         # map utf8_expand (words_of (dropWhile (\<lambda>c. \<not> is_sep c) sql))))"
proof (induction sql arbitrary: parts word)
  case Nil
  then show ?case by (auto simp: finish_def)
next
  case (Cons c cs)
  have sep: "is_sep c \<longleftrightarrow> is_space c \<or> c = CHR '';''" by (simp add: is_sep_def)
  have out: "finish (createTag_loop (c # cs) parts [] False) =
      take 3 (parts @ map utf8_expand (words_of (c # cs)))" if "length parts \<le> 3"
  proof (cases "length parts < 3")
    case True
    with Cons.IH [of parts "rune_string c"] sep show ?thesis
      by (cases "is_sep c") (auto simp: words_of_Cons_sep words_of_Cons_word)
  next
    case False
    with that show ?thesis by (simp add: finish_def)
  qed
  have "in": "finish (createTag_loop (c # cs) parts word True) =
       take 3 (parts @ (word @ utf8_expand (takeWhile (\<lambda>c. \<not> is_sep c) (c # cs)))
         # map utf8_expand (words_of (dropWhile (\<lambda>c. \<not> is_sep c) (c # cs))))" if "length parts < 3"
    using that Cons.IH [of parts "word @ rune_string c"] Cons.IH [of "parts @ [word]" "[]"] sep
    by (cases "is_sep c") (auto simp: words_of_Cons_sep)
  from out "in" show ?case by blast
qed

lemma createTag_words:
  "createTag sql =
     (case words_of sql of
        [] \<Rightarrow> Panic PIndex
      | [a] \<Rightarrow> Ok (utf8_expand a)
      | a # b # _ \<Rightarrow> Ok (if is_ddl (utf8_expand a) then utf8_expand a @ '' '' @ utf8_expand b
                       else utf8_expand a))"
proof -
  have "createTag sql =
     (let parts = finish (createTag_loop sql [] [] False)
      in if length parts \<ge> 2 \<and> is_ddl (parts ! 0)
         then Ok (parts ! 0 @ '' '' @ parts ! 1)
         else index parts 0)"
    by (simp add: createTag_def finish_def Let_def split: prod.splits)
  also have "finish (createTag_loop sql [] [] False) = take 3 (map utf8_expand (words_of sql))"
    using createTag_loop_words [of "[]" sql "[]"] by simp
  finally show ?thesis
    by (simp add: Let_def index_def numeral_3_eq_3 numeral_2_eq_2 split: list.splits)
qed

lemma words_of_first_word: "first_word sql \<noteq> [] \<Longrightarrow> words_of sql \<noteq> []"
proof -
  assume "first_word sql \<noteq> []"
  then obtain c cs where c: "dropWhile is_space sql = c # cs" "\<not> ends_word c"
    by (cases "dropWhile is_space sql") (auto simp: first_word_def split: if_splits)
  then have "c \<in> set sql" by (metis list.set_intros(1) set_dropWhileD)
  moreover have "\<not> is_sep c" using c by (simp add: is_sep_def ends_word_def)
  ultimately have "dropWhile is_sep sql \<noteq> []" by (auto simp: dropWhile_eq_Nil_conv)
  then show ?thesis by (subst words_of.simps) simp
qed

lemma utf8_expand_keyword: "utf8_expand w = k \<Longrightarrow> (\<forall>c \<in> set k. (of_char c :: nat) < 128) \<Longrightarrow> w = k"
proof -
  assume a: "utf8_expand w = k" "\<forall>c \<in> set k. (of_char c :: nat) < 128"
  have "set (rune_string c) \<subseteq> set k" if "c \<in> set w" for c
    using a(1) that by (auto simp: utf8_expand_def)
  moreover have "\<exists>d \<in> set (rune_string c). \<not> (of_char d :: nat) < 128" if "\<not> (of_char c :: nat) < 128" for c
  proof -
    have "(192 + (of_char c :: nat) div 64) mod 256 = 192 + of_char c div 64"
    proof -
      have "(of_char c :: nat) div 64 < 4" by (rule less_mult_imp_div_less) simp
      then show ?thesis by simp
    qed
    then show ?thesis using that by (simp add: rune_string_def Let_def)
  qed
  ultimately have "(of_char c :: nat) < 128" if "c \<in> set w" for c
    using a(2) that by blast
  then show "w = k" using a(1) concat_rune_string_eq_iff [of w] by (auto simp: utf8_expand_def)
qed

text \<open>
  The PostgreSQL proxy's \<open>commandTag\<close> never panics, whatever the statement (the index into
  \<open>createTag\<close>'s list of words is always in range), and a statement that starts with
  \<open>CREATE\<close>, \<open>ALTER\<close> or \<open>DROP\<close> and an object word is tagged with these two words.
\<close>

theorem pg_commandTag_total:
  "(\<exists>tag. pg_commandTag sql numRows rowsAffected = Ok tag)
   \<and> (words_of sql = verb # object # tail \<and> sqlCommandType sql = verb \<and> is_ddl verb \<longrightarrow>
      pg_commandTag sql numRows rowsAffected = Ok (verb @ '' '' @ utf8_expand object))"
proof
  have ddl: "\<exists>tag. createTag sql = Ok tag" if "is_ddl (pg_sqlCommandType sql)"
  proof -
    have "first_word sql \<noteq> []" using that
      by (auto simp: pg_sqlCommandType_first_word is_ddl_def)
    then have "words_of sql \<noteq> []" by (rule words_of_first_word)
    then show ?thesis by (auto simp: createTag_words split: list.splits)
  qed
  then show "\<exists>tag. pg_commandTag sql numRows rowsAffected = Ok tag"
    by (auto simp: pg_commandTag_def Let_def is_ddl_def)
  show "words_of sql = verb # object # tail \<and> sqlCommandType sql = verb \<and> is_ddl verb \<longrightarrow>
      pg_commandTag sql numRows rowsAffected = Ok (verb @ '' '' @ utf8_expand object)"
  proof
    assume a: "words_of sql = verb # object # tail \<and> sqlCommandType sql = verb \<and> is_ddl verb"
    then have "utf8_expand verb = verb" by (auto simp: is_ddl_def rune_string_def)
    moreover have "pg_sqlCommandType sql = verb"
      using a \<open>utf8_expand verb = verb\<close>
      by (simp add: pg_sqlCommandType_first_word sqlCommandType_first_word utf8_expand_def)
    ultimately show "pg_commandTag sql numRows rowsAffected = Ok (verb @ '' '' @ utf8_expand object)"
      using a by (auto simp: pg_commandTag_def Let_def createTag_words is_ddl_def)
  qed
qed

theorem pg_commandTag_total_witness:
  "pg_commandTag '' CREATE  TABLE t(a int);'' 0 0 = Ok ''CREATE TABLE''"
proof -
  have w: "words_of '' CREATE  TABLE t(a int);'' = ''CREATE'' # ''TABLE'' # [''t(a'', ''int)'']"
    by (simp add: words_of.simps is_sep_def is_space_def)
  have c: "sqlCommandType '' CREATE  TABLE t(a int);'' = ''CREATE''"
    by (simp add: sqlCommandType_first_word first_word_def ends_word_def is_space_def)
  have "utf8_expand ''TABLE'' = ''TABLE''" by (simp add: rune_string_def)
  then show ?thesis
    using pg_commandTag_total [of "'' CREATE  TABLE t(a int);''" 0 0 "''CREATE''" "''TABLE''" "[''t(a'', ''int)'']"]
      w c by (simp add: is_ddl_def)
qed

end
