(* ===== verification/PoolCore.thy ===== *)
theory PoolCore
  imports Prelude
begin

text \<open>
  The interface \<open>Pool\<close> of \<^verbatim>\<open>pkg/handler/types.go\<close> and the contract both connection pools keep:
  a pool holds one database connection per session. The methods of a pool are a record
  \<open>Pool\<close> of functions on its state; a context's cancellation is one of the outcomes a
  database call may have. The locale \<open>session_pool\<close> is the contract, over the set of
  sessions a pool holds a connection for; it is interpreted by both pools.
\<close>

section \<open>The interface\<close>

record QueryResult =
  q_Columns :: "string list"
  q_Rows :: "string list list"
  q_RowsAffected :: int

record PoolStats =
  TotalConns :: "32 word"
  AcquiredConns :: "32 word"
  IdleConns :: "32 word"
  MaxConns :: "32 word"

record 'p Pool =
  AcquireSession :: "string \<Rightarrow> 'p \<Rightarrow> unit result \<times> 'p"
  ReleaseSession :: "string \<Rightarrow> 'p \<Rightarrow> 'p"
  GetStats :: "'p \<Rightarrow> PoolStats"
  ExecSQL :: "string \<Rightarrow> string \<Rightarrow> 'p \<Rightarrow> QueryResult result \<times> 'p"
  ExecCommand :: "string \<Rightarrow> string \<Rightarrow> 'p \<Rightarrow> int result \<times> 'p"

text \<open>The error of both pools for a session they hold no connection for.\<close>

definition session_not_found :: "string \<Rightarrow> goerror" where
  "session_not_found sid = ErrorS (''session '' @ sid @ '' not found'')"

section \<open>Operations and their runs\<close>

datatype pool_op = Acquire string | Release string | Query string string | Command string string

fun pool_step :: "'p Pool \<Rightarrow> pool_op \<Rightarrow> 'p \<Rightarrow> 'p" where
  "pool_step I (Acquire s) p = snd (AcquireSession I s p)"
| "pool_step I (Release s) p = ReleaseSession I s p"
| "pool_step I (Query s q) p = snd (ExecSQL I s q p)"
| "pool_step I (Command s q) p = snd (ExecCommand I s q p)"

primrec pool_run :: "'p Pool \<Rightarrow> pool_op list \<Rightarrow> 'p \<Rightarrow> 'p" where
  "pool_run I [] p = p"
| "pool_run I (x # xs) p = pool_run I xs (pool_step I x p)"

text \<open>The sessions an operation names as acquired or released.\<close>

fun opens :: "pool_op \<Rightarrow> string set" where
  "opens (Acquire s) = {s}"
| "opens _ = {}"

fun closes :: "pool_op \<Rightarrow> string set" where
  "closes (Release s) = {s}"
| "closes _ = {}"

lemma opens_iff: "s \<in> opens x \<longleftrightarrow> x = Acquire s"
  by (cases x) auto

lemma closes_iff: "s \<in> closes x \<longleftrightarrow> x = Release s"
  by (cases x) auto

section \<open>The contract\<close>

locale session_pool =
  fixes I :: "'p Pool"
    and holds :: "'p \<Rightarrow> string set"
  assumes acquire_Ok: "AcquireSession I s p = (Ok u, p') \<Longrightarrow> holds p' = insert s (holds p)"
    and acquire_fail: "AcquireSession I s p = (r, p') \<Longrightarrow> r \<noteq> Ok () \<Longrightarrow> holds p' = holds p"
    and acquire_held: "s \<in> holds p \<Longrightarrow> AcquireSession I s p = (Ok (), p)"
    and release_holds: "holds (ReleaseSession I s p) = holds p - {s}"
    and release_absent: "s \<notin> holds p \<Longrightarrow> ReleaseSession I s p = p"
    and query_holds: "holds (snd (ExecSQL I s q p)) = holds p"
    and command_holds: "holds (snd (ExecCommand I s q p)) = holds p"
    and query_absent: "s \<notin> holds p \<Longrightarrow> ExecSQL I s q p = (Err (session_not_found s), p)"
    and command_absent: "s \<notin> holds p \<Longrightarrow> ExecCommand I s q p = (Err (session_not_found s), p)"
begin

lemma acquire_twice:
  "AcquireSession I s p = (Ok u, p') \<Longrightarrow> AcquireSession I s p' = (Ok (), p')"
  using acquire_Ok acquire_held by blast

lemma release_twice: "ReleaseSession I s (ReleaseSession I s p) = ReleaseSession I s p"
  by (rule release_absent) (simp add: release_holds)

lemma acquire_holds_cases:
  "holds (snd (AcquireSession I s p)) = insert s (holds p) \<or>
   holds (snd (AcquireSession I s p)) = holds p"
proof (cases "AcquireSession I s p")
  case (Pair r p')
  then show ?thesis using acquire_Ok [of s p _ p'] acquire_fail [of s p r p'] by (cases r) auto
qed

lemma query_after_release:
  "fst (ExecSQL I s q (ReleaseSession I s p)) = Err (session_not_found s)"
  by (simp add: query_absent release_holds)

lemma step_holds:
  "holds p - closes x \<subseteq> holds (pool_step I x p)"
  "holds (pool_step I x p) \<subseteq> (holds p - closes x) \<union> opens x"
proof -
  have "holds p - closes x \<subseteq> holds (pool_step I x p) \<and>
    holds (pool_step I x p) \<subseteq> (holds p - closes x) \<union> opens x"
    using acquire_holds_cases
    by (cases x) (auto simp: release_holds query_holds command_holds)
  then show "holds p - closes x \<subseteq> holds (pool_step I x p)"
    "holds (pool_step I x p) \<subseteq> (holds p - closes x) \<union> opens x" by blast+
qed

text \<open>What a run of operations may leave held, and what it cannot lose.\<close>

lemma run_holds_subset:
  "holds (pool_run I xs p) \<subseteq> holds p \<union> \<Union> (opens ` set xs)"
proof (induction xs arbitrary: p)
  case Nil
  then show ?case by simp
next
  case (Cons x xs)
  have "holds (pool_run I xs (pool_step I x p)) \<subseteq> holds (pool_step I x p) \<union> \<Union> (opens ` set xs)"
    by (rule Cons.IH)
  with step_holds(2) [of x p] show ?case by auto
qed

lemma run_keeps:
  "s \<in> holds p \<Longrightarrow> Release s \<notin> set xs \<Longrightarrow> s \<in> holds (pool_run I xs p)"
proof (induction xs arbitrary: p)
  case Nil
  then show ?case by simp
next
  case (Cons x xs)
  then have "s \<notin> closes x" by (auto simp: closes_iff)
  then have "s \<in> holds (pool_step I x p)" using step_holds(1) Cons.prems by blast
  with Cons show ?case by simp
qed

lemma run_releases:
  assumes "Acquire s \<notin> set ys"
  shows "s \<notin> holds (pool_run I (xs @ Release s # ys) p)"
proof -
  have app: "pool_run I (xs @ zs) p = pool_run I zs (pool_run I xs p)" for zs
    by (induction xs arbitrary: p) auto
  have "s \<notin> \<Union> (opens ` set ys)" using assms by (auto simp: opens_iff)
  then show ?thesis
    using run_holds_subset [of ys "ReleaseSession I s (pool_run I xs p)"]
    by (auto simp: app release_holds)
qed

end

section \<open>Dedicated connections\<close>

text \<open>
  The sessions' connections are pairwise different and are exactly the set \<open>S\<close> of connections
  taken out of the library's pool.
\<close>

definition dedicated :: "(string \<Rightarrow> 'c option) \<Rightarrow> 'c set \<Rightarrow> bool" where
  "dedicated m S \<longleftrightarrow> inj_on m (dom m) \<and> ran m = S"

lemma dedicated_iff:
  "dedicated m S \<longleftrightarrow>
   (\<forall>s t c. m s = Some c \<longrightarrow> m t = Some c \<longrightarrow> s = t) \<and> (\<forall>c. c \<in> S \<longleftrightarrow> (\<exists>s. m s = Some c))"
proof -
  have "inj_on m (dom m) \<longleftrightarrow> (\<forall>s t c. m s = Some c \<longrightarrow> m t = Some c \<longrightarrow> s = t)"
    unfolding inj_on_def dom_def by (auto; metis)
  moreover have "ran m = S \<longleftrightarrow> (\<forall>c. c \<in> S \<longleftrightarrow> (\<exists>s. m s = Some c))"
    by (auto simp: ran_def)
  ultimately show ?thesis unfolding dedicated_def by blast
qed

lemma dedicated_empty [simp]: "dedicated Map.empty {}"
  by (simp add: dedicated_def)

lemma dedicatedD:
  "dedicated m S \<Longrightarrow> m s = Some c \<Longrightarrow> m t = Some c \<Longrightarrow> s = t"
  unfolding dedicated_iff by blast

lemma dedicated_ran: "dedicated m S \<Longrightarrow> ran m = S"
  by (simp add: dedicated_def)

lemma dedicated_insert:
  assumes "dedicated m S" and "c \<notin> S" and "m sid = None"
  shows "dedicated (m(sid \<mapsto> c)) (insert c S)"
proof -
  have "inj_on m (dom m)" "c \<notin> ran m" using assms by (simp_all add: dedicated_def)
  then have "inj_on (m(sid \<mapsto> c)) (dom (m(sid \<mapsto> c)))"
    using assms(3) by (auto simp: inj_on_def ran_def dom_def)
  then show ?thesis using assms by (simp add: dedicated_def ran_map_upd)
qed

lemma dedicated_remove:
  assumes "dedicated m S" and "m sid = Some c"
  shows "dedicated (m(sid := None)) (S - {c})"
proof -
  have inj: "inj_on m (dom m)" using assms by (simp add: dedicated_def)
  then have "inj_on (m(sid := None)) (dom (m(sid := None)))"
    by (auto simp: inj_on_def)
  moreover have "ran (m(sid := None)) = ran m - {c}"
  proof
    show "ran (m(sid := None)) \<subseteq> ran m - {c}"
    proof
      fix d assume "d \<in> ran (m(sid := None))"
      then obtain t where t: "t \<noteq> sid" "m t = Some d" by (auto simp: ran_def split: if_splits)
      then have "d \<noteq> c" using dedicatedD [OF assms(1), of t d sid] assms(2) by auto
      with t show "d \<in> ran m - {c}" by (auto simp: ran_def)
    qed
    show "ran m - {c} \<subseteq> ran (m(sid := None))"
    proof
      fix d assume "d \<in> ran m - {c}"
      then obtain t where t: "m t = Some d" "d \<noteq> c" by (auto simp: ran_def)
      then have "t \<noteq> sid" using assms(2) by auto
      with t show "d \<in> ran (m(sid := None))" by (auto simp: ran_def intro!: exI [of _ t])
    qed
  qed
  ultimately show ?thesis using assms(1) by (simp add: dedicated_def)
qed

lemma dedicated_dom_empty: "dedicated m S \<Longrightarrow> dom m = {} \<Longrightarrow> S = {}"
  by (auto simp: dedicated_def ran_def dom_def)

end
