(* ===== verification/Utf8.thy ===== *)
theory Utf8
  imports Prelude
begin

text \<open>
  The standard library's \<^verbatim>\<open>utf8.DecodeRune\<close> and \<^verbatim>\<open>utf8.AppendRune\<close>, which
  \<^verbatim>\<open>encoding/json\<close> runs over every string: a byte that does not start a valid sequence decodes
  to U+FFFD and counts for one byte. \<open>to_valid\<close> is the text with every such byte replaced.
\<close>

definition bad_rune :: "nat \<times> nat" where
  "bad_rune = (0xFFFD, 1)"

definition byte_in :: "nat \<Rightarrow> nat \<Rightarrow> char \<Rightarrow> bool" where
  "byte_in lo hi c \<longleftrightarrow> lo \<le> of_char c \<and> of_char c \<le> hi"

definition decode2 :: "nat \<Rightarrow> string \<Rightarrow> nat \<times> nat" where
  "decode2 x s =
     (case s of
        b # _ \<Rightarrow> if byte_in 0x80 0xBF b then ((x - 0xC0) * 64 + (of_char b - 0x80), 2) else bad_rune
      | _ \<Rightarrow> bad_rune)"

definition decode3 :: "nat \<Rightarrow> string \<Rightarrow> nat \<times> nat" where
  "decode3 x s =
     (case s of
        b # c # _ \<Rightarrow>
          if byte_in (if x = 0xE0 then 0xA0 else 0x80) (if x = 0xED then 0x9F else 0xBF) b \<and> byte_in 0x80 0xBF c
          then (((x - 0xE0) * 64 + (of_char b - 0x80)) * 64 + (of_char c - 0x80), 3) else bad_rune
      | _ \<Rightarrow> bad_rune)"

definition decode4 :: "nat \<Rightarrow> string \<Rightarrow> nat \<times> nat" where
  "decode4 x s =
     (case s of
        b # c # d # _ \<Rightarrow>
          if byte_in (if x = 0xF0 then 0x90 else 0x80) (if x = 0xF4 then 0x8F else 0xBF) b \<and>
             byte_in 0x80 0xBF c \<and> byte_in 0x80 0xBF d
          then ((((x - 0xF0) * 64 + (of_char b - 0x80)) * 64 + (of_char c - 0x80)) * 64 + (of_char d - 0x80), 4)
          else bad_rune
      | _ \<Rightarrow> bad_rune)"

definition decode_rune :: "char \<Rightarrow> string \<Rightarrow> nat \<times> nat" where
  "decode_rune a s =
     (let x = of_char a in
      if x < 0x80 then (x, 1)
      else if 0xC2 \<le> x \<and> x \<le> 0xDF then decode2 x s
      else if 0xE0 \<le> x \<and> x \<le> 0xEF then decode3 x s
      else if 0xF0 \<le> x \<and> x \<le> 0xF4 then decode4 x s
      else bad_rune)"

definition surrogate :: "nat \<Rightarrow> bool" where
  "surrogate r \<longleftrightarrow> 0xD800 \<le> r \<and> r \<le> 0xDFFF"

definition encode_rune :: "nat \<Rightarrow> string" where
  "encode_rune r =
     (if r < 0x80 then [char_of r]
      else if r < 0x800 then [char_of (0xC0 + r div 64), char_of (0x80 + r mod 64)]
      else if surrogate r \<or> r > 0x10FFFF then [CHR 0xEF, CHR 0xBF, CHR 0xBD]
      else if r < 0x10000 then
        [char_of (0xE0 + r div 4096), char_of (0x80 + r div 64 mod 64), char_of (0x80 + r mod 64)]
      else
        [char_of (0xF0 + r div 262144), char_of (0x80 + r div 4096 mod 64),
         char_of (0x80 + r div 64 mod 64), char_of (0x80 + r mod 64)])"

lemma decode_rune_pos [simp]: "0 < snd (decode_rune a s)"
  by (auto simp: decode_rune_def decode2_def decode3_def decode4_def bad_rune_def Let_def split: list.split)

function to_valid :: "string \<Rightarrow> string" where
  "to_valid [] = []"
| "to_valid (a # s) = (case decode_rune a s of (r, n) \<Rightarrow> encode_rune r @ to_valid (drop n (a # s)))"
  by pat_completeness auto
termination
proof (relation "measure length", goal_cases)
  case (2 a s p n)
  have "0 < snd (decode_rune a s)" by simp
  then have "0 < n" using 2 by (metis snd_conv)
  then show ?case by simp
qed simp

text \<open>A text is valid UTF-8 when replacing changes nothing.\<close>

definition valid_utf8 :: "string \<Rightarrow> bool" where
  "valid_utf8 s \<longleftrightarrow> to_valid s = s"

section \<open>Decoding a valid sequence\<close>

text \<open>
  The three outcomes: an ASCII byte; a well-formed sequence, which \<open>encode_rune\<close> writes again;
  an invalid byte.
\<close>

lemma horner [simp]:
  "q < 64 \<Longrightarrow> (p * 64 + q) div 64 = (p :: nat)" "q < 64 \<Longrightarrow> (p * 64 + q) mod 64 = (q :: nat)"
  by simp_all

lemma div_by_64:
  "r div 4096 = r div 64 div (64 :: nat)" "r div 262144 = r div 64 div 64 div (64 :: nat)"
  by (simp_all flip: div_mult2_eq)

lemma byte_inE:
  assumes "byte_in lo hi b"
  obtains q where "of_char b = lo + q" "lo + q \<le> hi" "char_of (lo + q) = b"
proof
  show "of_char b = lo + (of_char b - lo)" "lo + (of_char b - lo) \<le> hi" "char_of (lo + (of_char b - lo)) = b"
    using assms by (simp_all add: byte_in_def)
qed

definition well_formed :: "char \<Rightarrow> string \<Rightarrow> nat \<Rightarrow> bool" where
  "well_formed a t r \<longleftrightarrow>
     (\<forall>v. decode_rune a (t @ v) = (r, Suc (length t))) \<and> encode_rune r = a # t \<and> t \<noteq> [] \<and>
     0x80 \<le> r \<and> list_all (\<lambda>c. 0x80 \<le> (of_char c :: nat)) t \<and> 0x80 \<le> (of_char a :: nat)"

lemma well_formed2:
  assumes "byte_in 0xC2 0xDF a" "byte_in 0x80 0xBF b"
  shows "\<exists>r. well_formed a [b] r"
proof -
  from assms(1) obtain p :: nat where p: "of_char a = 0xC2 + p" "0xC2 + p \<le> 0xDF" "char_of (0xC2 + p) = a"
    by (rule byte_inE)
  from assms(2) obtain q :: nat where q: "of_char b = 0x80 + q" "0x80 + q \<le> 0xBF" "char_of (0x80 + q) = b"
    by (rule byte_inE)
  let ?r = "(p + 2) * 64 + q"
  have r: "?r div 64 = p + 2" "?r mod 64 = q" using q(2) by (intro horner; simp)+
  have "decode_rune a (b # v) = (?r, 2)" for v
    using assms(2) p q(1) by (simp add: decode_rune_def decode2_def)
  moreover have "encode_rune ?r = [a, b]"
    using p q r by (simp add: encode_rune_def del: distrib_right_numeral add_mult_distrib)
  ultimately show ?thesis
    using p q by (intro exI [of _ ?r]) (simp add: well_formed_def)
qed

lemma well_formed3:
  assumes "byte_in 0xE0 0xEF a" "byte_in (if of_char a = (0xE0 :: nat) then 0xA0 else 0x80) (if of_char a = (0xED :: nat) then 0x9F else 0xBF) b"
    "byte_in 0x80 0xBF c"
  shows "\<exists>r. well_formed a [b, c] r"
proof -
  from assms(1) obtain p :: nat where p: "of_char a = 0xE0 + p" "0xE0 + p \<le> 0xEF" "char_of (0xE0 + p) = a"
    by (rule byte_inE)
  have "byte_in 0x80 0xBF b" using assms(2) by (auto simp: byte_in_def split: if_splits)
  then obtain q :: nat where q: "of_char b = 0x80 + q" "0x80 + q \<le> 0xBF" "char_of (0x80 + q) = b"
    by (rule byte_inE)
  from assms(3) obtain s :: nat where s: "of_char c = 0x80 + s" "0x80 + s \<le> 0xBF" "char_of (0x80 + s) = c"
    by (rule byte_inE)
  let ?r = "(p * 64 + q) * 64 + s"
  have r: "?r div 64 = p * 64 + q" "?r mod 64 = s" "(p * 64 + q) div 64 = p" "(p * 64 + q) mod 64 = q"
    using q(2) s(2) by (intro horner; simp)+
  have lo: "p = 0 \<Longrightarrow> 32 \<le> q" and hi: "p = 13 \<Longrightarrow> q \<le> 31"
    using assms(2) p(1) q(1) by (auto simp: byte_in_def)
  have big: "0x800 \<le> ?r" "?r < 0x10000" using lo p(2) q(2) s(2) by (cases "p = 0"; simp)+
  have nosur: "\<not> surrogate ?r"
  proof -
    consider "p < 13" | "p = 13" | "13 < p" by linarith
    then show ?thesis using hi p(2) q(2) s(2) by cases (simp_all add: surrogate_def)
  qed
  have "decode_rune a (b # c # v) = (?r, 3)" for v
    using assms(2,3) p q(1) s(1) by (simp add: decode_rune_def decode3_def)
  moreover have "encode_rune ?r = [a, b, c]"
    unfolding encode_rune_def div_by_64 r using big nosur p(3) q(3) s(3) by simp
  ultimately show ?thesis
    using p q s big by (intro exI [of _ ?r]) (simp add: well_formed_def)
qed

lemma well_formed4:
  assumes "byte_in 0xF0 0xF4 a" "byte_in (if of_char a = (0xF0 :: nat) then 0x90 else 0x80) (if of_char a = (0xF4 :: nat) then 0x8F else 0xBF) b"
    "byte_in 0x80 0xBF c" "byte_in 0x80 0xBF d"
  shows "\<exists>r. well_formed a [b, c, d] r"
proof -
  from assms(1) obtain p :: nat where p: "of_char a = 0xF0 + p" "0xF0 + p \<le> 0xF4" "char_of (0xF0 + p) = a"
    by (rule byte_inE)
  have "byte_in 0x80 0xBF b" using assms(2) by (auto simp: byte_in_def split: if_splits)
  then obtain q :: nat where q: "of_char b = 0x80 + q" "0x80 + q \<le> 0xBF" "char_of (0x80 + q) = b"
    by (rule byte_inE)
  from assms(3) obtain s :: nat where s: "of_char c = 0x80 + s" "0x80 + s \<le> 0xBF" "char_of (0x80 + s) = c"
    by (rule byte_inE)
  from assms(4) obtain t :: nat where t: "of_char d = 0x80 + t" "0x80 + t \<le> 0xBF" "char_of (0x80 + t) = d"
    by (rule byte_inE)
  let ?u = "(p * 64 + q) * 64 + s"
  let ?r = "?u * 64 + t"
  have r: "?r div 64 = ?u" "?r mod 64 = t" "?u div 64 = p * 64 + q" "?u mod 64 = s"
    "(p * 64 + q) div 64 = p" "(p * 64 + q) mod 64 = q"
    using q(2) s(2) t(2) by (intro horner; simp)+
  have lo: "p = 0 \<Longrightarrow> 16 \<le> q" and hi: "p = 4 \<Longrightarrow> q \<le> 15"
    using assms(2) p(1) q(1) by (auto simp: byte_in_def)
  have big: "0x10000 \<le> ?r" using lo p(2) by (cases "p = 0") simp_all
  have small: "?r \<le> 0x10FFFF" using hi p(2) q(2) s(2) t(2) by (cases "p = 4") simp_all
  have nosur: "\<not> surrogate ?r" using big by (simp add: surrogate_def)
  have "decode_rune a (b # c # d # v) = (?r, 4)" for v
    using assms(2,3,4) p q(1) s(1) t(1) by (simp add: decode_rune_def decode4_def)
  moreover have "encode_rune ?r = [a, b, c, d]"
    unfolding encode_rune_def div_by_64 r using big small nosur p(3) q(3) s(3) t(3) by simp
  ultimately show ?thesis
    using p q s t big by (intro exI [of _ ?r]) (simp add: well_formed_def)
qed

lemma decode_rune_cases:
  obtains (ascii) "of_char a < (0x80 :: nat)" "decode_rune a s = (of_char a, 1)"
  | (multi) t u r where "s = t @ u" "well_formed a t r"
  | (bad) "0x80 \<le> (of_char a :: nat)" "decode_rune a s = bad_rune"
proof -
  let ?x = "of_char a :: nat"
  consider "?x < 0x80" | "0x80 \<le> ?x" "?x < 0xC2" | "0xC2 \<le> ?x" "?x \<le> 0xDF" | "0xE0 \<le> ?x" "?x \<le> 0xEF"
    | "0xF0 \<le> ?x" "?x \<le> 0xF4" | "0xF4 < ?x" by linarith
  then show thesis
  proof cases
    case 1
    then show thesis by (intro ascii) (simp_all add: decode_rune_def)
  next
    case 3
    show thesis
    proof (cases "\<exists>b u. s = b # u \<and> byte_in 0x80 0xBF b")
      case True
      then show thesis using 3 well_formed2 [of a] multi [of "[b]" for b] by (fastforce simp: byte_in_def)
    next
      case False
      then show thesis using 3 by (intro bad) (auto simp: decode_rune_def decode2_def Let_def split: list.split)
    qed
  next
    case 4
    let ?P = "\<lambda>b c. byte_in (if ?x = 0xE0 then 0xA0 else 0x80) (if ?x = 0xED then 0x9F else 0xBF) b \<and> byte_in 0x80 0xBF c"
    show thesis
    proof (cases "\<exists>b c u. s = b # c # u \<and> ?P b c")
      case True
      then obtain b c u where s: "s = b # c # u" "?P b c" by blast
      moreover have "byte_in 0xE0 0xEF a" using 4 by (simp add: byte_in_def)
      ultimately show thesis using well_formed3 [of a b c] multi [of "[b, c]" u] by auto
    next
      case False
      then show thesis using 4 by (intro bad) (auto simp: decode_rune_def decode3_def Let_def split: list.split)
    qed
  next
    case 5
    let ?P = "\<lambda>b c d. byte_in (if ?x = 0xF0 then 0x90 else 0x80) (if ?x = 0xF4 then 0x8F else 0xBF) b \<and>
      byte_in 0x80 0xBF c \<and> byte_in 0x80 0xBF d"
    show thesis
    proof (cases "\<exists>b c d u. s = b # c # d # u \<and> ?P b c d")
      case True
      then obtain b c d u where s: "s = b # c # d # u" "?P b c d" by blast
      moreover have "byte_in 0xF0 0xF4 a" using 5 by (simp add: byte_in_def)
      ultimately show thesis using well_formed4 [of a b c d] multi [of "[b, c, d]" u] by auto
    next
      case False
      then show thesis using 5 by (intro bad) (auto simp: decode_rune_def decode4_def Let_def split: list.split)
    qed
  qed (auto intro!: bad simp: decode_rune_def)
qed

section \<open>Replacing invalid bytes\<close>

lemma to_valid_ascii [simp]: "of_char a < (0x80 :: nat) \<Longrightarrow> to_valid (a # s) = a # to_valid s"
  by (simp add: decode_rune_def encode_rune_def)

lemma to_valid_well_formed: "well_formed a t r \<Longrightarrow> to_valid (a # t @ u) = a # t @ to_valid u"
  by (simp add: well_formed_def)

lemma replacement: "encode_rune 0xFFFD = [CHR 0xEF, CHR 0xBF, CHR 0xBD]"
  by (simp add: encode_rune_def surrogate_def char_of_def bit_0)

lemma to_valid_bad:
  "0x80 \<le> (of_char a :: nat) \<Longrightarrow> decode_rune a s = bad_rune \<Longrightarrow>
   to_valid (a # s) = [CHR 0xEF, CHR 0xBF, CHR 0xBD] @ to_valid s"
  by (simp add: bad_rune_def replacement)

declare to_valid.simps(2) [simp del]

lemma valid_utf8_Nil [simp]: "valid_utf8 []"
  by (simp add: valid_utf8_def)

lemma valid_utf8_ascii: "list_all (\<lambda>c. of_char c < (0x80 :: nat)) s \<Longrightarrow> valid_utf8 s"
  by (induction s) (simp_all add: valid_utf8_def)

lemma well_formed_replacement: "well_formed (CHR 0xEF) [CHR 0xBF, CHR 0xBD] 0xFFFD"
  by (simp add: well_formed_def decode_rune_def decode3_def byte_in_def replacement)

lemma to_valid_idem [simp]: "to_valid (to_valid s) = to_valid s"
proof (induction s rule: length_induct)
  case (1 s)
  show ?case
  proof (cases s)
    case (Cons a u)
    show ?thesis
    proof (rule decode_rune_cases [of a u])
      assume "of_char a < (0x80 :: nat)"
      then show ?thesis using 1 Cons by simp
    next
      fix t v r assume "u = t @ v" "well_formed a t r"
      then show ?thesis using 1 Cons by (simp add: to_valid_well_formed)
    next
      assume "0x80 \<le> (of_char a :: nat)" "decode_rune a u = bad_rune"
      then show ?thesis
        using 1 Cons to_valid_well_formed [OF well_formed_replacement, of "to_valid u"]
        by (simp add: to_valid_bad)
    qed
  qed simp
qed

lemma valid_to_valid [simp]: "valid_utf8 (to_valid s)"
  by (simp add: valid_utf8_def)

end
