(* ===== verification/Json.thy ===== *)
theory Json
  imports Utf8
begin

text \<open>
  The standard library's \<^verbatim>\<open>encoding/json\<close>, for the documents the program exchanges:
  \<open>render\<close> is what \<^verbatim>\<open>json.Marshal\<close> writes (with its HTML escapes), \<open>parse\<close> the values
  \<^verbatim>\<open>json.Unmarshal\<close> reads, invalid UTF-8 replaced on both ways. The parser is a scanner to tokens
  and a machine on an explicit stack, as deep as the library's limit of 10000 levels. The texts
  of the library's errors are not modelled: a malformed document is \<open>None\<close>.
\<close>

datatype json =
    JNull
  | JBool bool
  | JNum string
  | JStr string
  | JArr "json list"
  | JObj "(string \<times> json) list"

abbreviation quote :: char where "quote \<equiv> CHR 0x22"
abbreviation backslash :: char where "backslash \<equiv> CHR 0x5C"

section \<open>Writing\<close>

text \<open>An ASCII character inside a string.\<close>

definition escape_char :: "char \<Rightarrow> string" where
  "escape_char c =
     (if c = backslash \<or> c = quote then [backslash, c]
      else if c = CHR 0x08 then [backslash, CHR ''b'']
      else if c = CHR 0x0C then [backslash, CHR ''f'']
      else if c = CHR 0x0A then [backslash, CHR ''n'']
      else if c = CHR 0x0D then [backslash, CHR ''r'']
      else if c = CHR 0x09 then [backslash, CHR ''t'']
      else if of_char c < (0x20 :: nat) \<or> c = CHR ''<'' \<or> c = CHR ''>'' \<or> c = CHR ''&'' then
        [backslash, CHR ''u'', CHR ''0'', CHR ''0'', hex_digit (of_char c div 16), hex_digit (of_char c mod 16)]
      else [c])"

function escape_string :: "string \<Rightarrow> string" where
  "escape_string [] = []"
| "escape_string (a # s) =
     (if of_char a < (0x80 :: nat) then escape_char a @ escape_string s
      else
        (case decode_rune a s of
           (r, n) \<Rightarrow>
             (if (r, n) = bad_rune then backslash # ''ufffd''
              else if r = 0x2028 \<or> r = 0x2029 then backslash # ''u202'' @ [hex_digit (r mod 16)]
              else take n (a # s)) @ escape_string (drop n (a # s))))"
  by pat_completeness auto
termination
proof (relation "measure length", goal_cases)
  case (3 a s p n)
  have "0 < snd (decode_rune a s)" by simp
  then have "0 < n" using 3 by (metis snd_conv)
  then show ?case by simp
qed simp_all

definition render_string :: "string \<Rightarrow> string" where
  "render_string s = quote # escape_string s @ [quote]"

fun commas :: "string list \<Rightarrow> string" where
  "commas [] = []"
| "commas [x] = x"
| "commas (x # xs) = x @ CHR '','' # commas xs"

fun render :: "json \<Rightarrow> string" where
  "render JNull = ''null''"
| "render (JBool b) = (if b then ''true'' else ''false'')"
| "render (JNum s) = s"
| "render (JStr s) = render_string s"
| "render (JArr vs) = CHR ''['' # commas (map render vs) @ '']''"
| "render (JObj kvs) = CHR ''{'' # commas (map (\<lambda>(k, v). render_string k @ CHR '':'' # render v) kvs) @ ''}''"

section \<open>Scanning\<close>

definition hex_val :: "char \<Rightarrow> nat option" where
  "hex_val c =
     (let n = of_char c in
      if 48 \<le> n \<and> n \<le> 57 then Some (n - 48)
      else if 97 \<le> n \<and> n \<le> 102 then Some (n - 87)
      else if 65 \<le> n \<and> n \<le> 70 then Some (n - 55)
      else None)"

text \<open>The four digits after \<open>\u\<close>.\<close>

fun getu4 :: "string \<Rightarrow> (nat \<times> string) option" where
  "getu4 (a # b # c # d # s) =
     (case (hex_val a, hex_val b, hex_val c, hex_val d) of
        (Some w, Some x, Some y, Some z) \<Rightarrow> Some (((w * 16 + x) * 16 + y) * 16 + z, s)
      | _ \<Rightarrow> None)"
| "getu4 _ = None"

text \<open>
  An escape after its backslash: the bytes it stands for and the rest. A surrogate counts only
  with its other half behind it.
\<close>

definition surrogate_pair :: "nat \<Rightarrow> string \<Rightarrow> (string \<times> string) option" where
  "surrogate_pair v s =
     (case s of
        b # u # s' \<Rightarrow>
          if b = backslash \<and> u = CHR ''u'' then
            (case getu4 s' of
               Some (w, s'') \<Rightarrow>
                 if v < 0xDC00 \<and> 0xDC00 \<le> w \<and> w < 0xE000
                 then Some (encode_rune (0x10000 + (v - 0xD800) * 1024 + (w - 0xDC00)), s'') else None
             | None \<Rightarrow> None)
          else None
      | _ \<Rightarrow> None)"

fun scan_escape :: "string \<Rightarrow> (string \<times> string) option" where
  "scan_escape [] = None"
| "scan_escape (e # s) =
     (if e = quote \<or> e = backslash \<or> e = CHR ''/'' then Some ([e], s)
      else if e = CHR ''b'' then Some ([CHR 0x08], s)
      else if e = CHR ''f'' then Some ([CHR 0x0C], s)
      else if e = CHR ''n'' then Some ([CHR 0x0A], s)
      else if e = CHR ''r'' then Some ([CHR 0x0D], s)
      else if e = CHR ''t'' then Some ([CHR 0x09], s)
      else if e = CHR ''u'' then
        (case getu4 s of
           None \<Rightarrow> None
         | Some (v, s') \<Rightarrow>
             if surrogate v then
               (case surrogate_pair v s' of Some x \<Rightarrow> Some x | None \<Rightarrow> Some (encode_rune 0xFFFD, s'))
             else Some (encode_rune v, s'))
      else None)"

lemma getu4_length: "getu4 s = Some (v, u) \<Longrightarrow> length u < length s"
  by (cases s rule: getu4.cases) (auto split: option.splits)

lemma scan_escape_length: "scan_escape s = Some (t, u) \<Longrightarrow> length u < length s"
  by (cases s) (auto simp: surrogate_pair_def dest!: getu4_length split: if_splits option.splits list.splits prod.splits)

function scan_string :: "string \<Rightarrow> (string \<times> string) option" where
  "scan_string [] = None"
| "scan_string (c # s) =
     (if c = quote then Some ([], s)
      else if c = backslash then
        (case scan_escape s of
           None \<Rightarrow> None
         | Some (t, s') \<Rightarrow> map_option (\<lambda>(r, u). (t @ r, u)) (scan_string s'))
      else if of_char c < (0x20 :: nat) then None
      else (case decode_rune c s of
              (r, n) \<Rightarrow> map_option (\<lambda>(t, u). (encode_rune r @ t, u)) (scan_string (drop n (c # s)))))"
  by pat_completeness auto
termination
proof (relation "measure length", goal_cases)
  case (2 c s p t s')
  then show ?case using scan_escape_length [of s t s'] by simp
next
  case (3 c s p n)
  have "0 < snd (decode_rune c s)" by simp
  then have "0 < n" using 3 by (metis snd_conv)
  then show ?case by simp
qed simp_all

declare scan_string.simps(2) [simp del] escape_string.simps(2) [simp del]

text \<open>Numbers: sign, integer part without leading zeros, fraction, exponent.\<close>

definition is_digit :: "char \<Rightarrow> bool" where
  "is_digit c \<longleftrightarrow> 48 \<le> (of_char c :: nat) \<and> of_char c \<le> (57 :: nat)"

definition scan_digits :: "string \<Rightarrow> (string \<times> string) option" where
  "scan_digits s =
     (let ds = takeWhile is_digit s in if ds = [] then None else Some (ds, dropWhile is_digit s))"

definition scan_int :: "string \<Rightarrow> (string \<times> string) option" where
  "scan_int s = (case s of [] \<Rightarrow> None | c # r \<Rightarrow> if c = CHR ''0'' then Some ([c], r) else scan_digits s)"

definition scan_frac :: "string \<Rightarrow> (string \<times> string) option" where
  "scan_frac s =
     (case s of
        c # r \<Rightarrow> if c = CHR ''.'' then map_option (\<lambda>(t, u). (c # t, u)) (scan_digits r) else Some ([], s)
      | [] \<Rightarrow> Some ([], s))"

definition scan_exp :: "string \<Rightarrow> (string \<times> string) option" where
  "scan_exp s =
     (case s of
        c # r \<Rightarrow>
          if c = CHR ''e'' \<or> c = CHR ''E'' then
            (case r of
               d # r' \<Rightarrow>
                 if d = CHR ''+'' \<or> d = CHR ''-'' then map_option (\<lambda>(t, u). (c # d # t, u)) (scan_digits r')
                 else map_option (\<lambda>(t, u). (c # t, u)) (scan_digits r)
             | [] \<Rightarrow> None)
          else Some ([], s)
      | [] \<Rightarrow> Some ([], s))"

definition scan_sign :: "string \<Rightarrow> string \<times> string" where
  "scan_sign s = (case s of c # r \<Rightarrow> if c = CHR ''-'' then ([c], r) else ([], s) | [] \<Rightarrow> ([], s))"

definition scan_number :: "string \<Rightarrow> (string \<times> string) option" where
  "scan_number s =
     (case scan_int (snd (scan_sign s)) of
        None \<Rightarrow> None
      | Some (i, s2) \<Rightarrow>
          (case scan_frac s2 of
             None \<Rightarrow> None
           | Some (f, s3) \<Rightarrow>
               (case scan_exp s3 of None \<Rightarrow> None | Some (e, s4) \<Rightarrow> Some (fst (scan_sign s) @ i @ f @ e, s4))))"

lemma length_dropWhile_less: "takeWhile P s \<noteq> [] \<Longrightarrow> length (dropWhile P s) < length s"
  by (cases s) (auto simp: length_dropWhile_le less_Suc_eq_le split: if_splits)

lemma scan_digits_length: "scan_digits s = Some (t, u) \<Longrightarrow> length u < length s"
  by (auto simp: scan_digits_def Let_def length_dropWhile_less split: if_splits)

lemma scan_number_length: "scan_number s = Some (t, u) \<Longrightarrow> length u < length s"
proof -
  assume "scan_number s = Some (t, u)"
  then obtain i s2 f s3 e where i: "scan_int (snd (scan_sign s)) = Some (i, s2)"
    and f: "scan_frac s2 = Some (f, s3)" and e: "scan_exp s3 = Some (e, u)"
    by (auto simp: scan_number_def split: option.splits)
  have "length (snd (scan_sign s)) \<le> length s" by (simp add: scan_sign_def split: list.split)
  moreover from i have "length s2 < length (snd (scan_sign s))"
    by (auto simp: scan_int_def dest: scan_digits_length split: list.splits if_splits)
  moreover from f have "length s3 \<le> length s2"
    by (auto simp: scan_frac_def dest!: scan_digits_length split: list.splits if_splits)
  moreover from e have "length u \<le> length s3"
    by (auto simp: scan_exp_def dest!: scan_digits_length split: list.splits if_splits)
  ultimately show "length u < length s" by linarith
qed

lemma scan_string_length: "scan_string s = Some (t, u) \<Longrightarrow> length u < length s"
proof (induction s arbitrary: t u rule: scan_string.induct)
  case (2 c s)
  show ?case
  proof (cases "c = quote")
    case True
    then show ?thesis using 2 by (simp add: scan_string.simps(2))
  next
    case q: False
    show ?thesis
    proof (cases "c = backslash")
      case True
      then obtain t' s' r where "scan_escape s = Some (t', s')" "scan_string s' = Some (r, u)"
        using "2.prems" q by (auto simp: scan_string.simps(2) split: option.splits)
      then show ?thesis using "2.IH"(1) [OF q True] scan_escape_length by force
    next
      case False
      obtain x n where d: "decode_rune c s = (x, n)" by fastforce
      then have "0 < n" using decode_rune_pos [of c s] by simp
      moreover from "2.prems" q False d obtain r where
        "\<not> of_char c < (0x20 :: nat)" "scan_string (drop n (c # s)) = Some (r, u)"
        by (auto simp: scan_string.simps(2) split: if_splits)
      ultimately show ?thesis using "2.IH"(2) [OF q False] d by force
    qed
  qed
qed simp

datatype token =
    TLBrace | TRBrace | TLBrack | TRBrack | TColon | TComma
  | TNull | TBool bool | TNum string | TStr string

definition is_ws :: "char \<Rightarrow> bool" where
  "is_ws c \<longleftrightarrow> c = CHR '' '' \<or> c = CHR 0x09 \<or> c = CHR 0x0A \<or> c = CHR 0x0D"

definition starts_number :: "char \<Rightarrow> bool" where
  "starts_number c \<longleftrightarrow> c = CHR ''-'' \<or> is_digit c"

text \<open>The tokens of one character.\<close>

definition punct :: "char \<Rightarrow> token option" where
  "punct c =
     (if c = CHR ''{'' then Some TLBrace else if c = CHR ''}'' then Some TRBrace
      else if c = CHR ''['' then Some TLBrack else if c = CHR '']'' then Some TRBrack
      else if c = CHR '':'' then Some TColon else if c = CHR '','' then Some TComma else None)"

function tokens :: "string \<Rightarrow> token list option" where
  "tokens [] = Some []"
| "tokens (c # s) =
     (if is_ws c then tokens s
      else
        (case punct c of
           Some t \<Rightarrow> map_option (Cons t) (tokens s)
         | None \<Rightarrow>
             if c = quote then
               (case scan_string s of None \<Rightarrow> None | Some (t, u) \<Rightarrow> map_option (Cons (TStr t)) (tokens u))
             else if starts_number c then
               (case scan_number (c # s) of None \<Rightarrow> None | Some (t, u) \<Rightarrow> map_option (Cons (TNum t)) (tokens u))
             else if take 4 (c # s) = ''null'' then map_option (Cons TNull) (tokens (drop 3 s))
             else if take 4 (c # s) = ''true'' then map_option (Cons (TBool True)) (tokens (drop 3 s))
             else if take 5 (c # s) = ''false'' then map_option (Cons (TBool False)) (tokens (drop 4 s))
             else None))"
  by pat_completeness auto
termination
  by (relation "measure length") (auto dest!: scan_string_length dest: scan_number_length)

declare tokens.simps(2) [simp del]

section \<open>Parsing\<close>

text \<open>
  The parser's state: what it expects next, and the values still open, innermost first: an array
  with the elements read, an object with the members read and the key of the one being read.
\<close>

datatype mode =
    MValue
  | MFirst
  | MKey0
  | MKey "(string \<times> json) list"
  | MColon "(string \<times> json) list" string
  | MDone json

datatype frame = FArr "json list" | FObj "(string \<times> json) list" string

definition max_depth :: nat where
  "max_depth = 10000"

definition value_step :: "frame list \<Rightarrow> token \<Rightarrow> (mode \<times> frame list) option" where
  "value_step fs t =
     (case t of
        TNull \<Rightarrow> Some (MDone JNull, fs)
      | TBool b \<Rightarrow> Some (MDone (JBool b), fs)
      | TNum s \<Rightarrow> Some (MDone (JNum s), fs)
      | TStr s \<Rightarrow> Some (MDone (JStr s), fs)
      | TLBrack \<Rightarrow> if length fs < max_depth then Some (MFirst, FArr [] # fs) else None
      | TLBrace \<Rightarrow> if length fs < max_depth then Some (MKey0, fs) else None
      | _ \<Rightarrow> None)"

definition done_step :: "json \<Rightarrow> frame list \<Rightarrow> token \<Rightarrow> (mode \<times> frame list) option" where
  "done_step v fs t =
     (case fs of
        [] \<Rightarrow> None
      | FArr vs # fs' \<Rightarrow>
          (case t of
             TComma \<Rightarrow> Some (MValue, FArr (vs @ [v]) # fs')
           | TRBrack \<Rightarrow> Some (MDone (JArr (vs @ [v])), fs')
           | _ \<Rightarrow> None)
      | FObj kvs k # fs' \<Rightarrow>
          (case t of
             TComma \<Rightarrow> Some (MKey (kvs @ [(k, v)]), fs')
           | TRBrace \<Rightarrow> Some (MDone (JObj (kvs @ [(k, v)])), fs')
           | _ \<Rightarrow> None))"

definition jstep :: "mode \<times> frame list \<Rightarrow> token \<Rightarrow> (mode \<times> frame list) option" where
  "jstep st t =
     (case st of (m, fs) \<Rightarrow>
        (case m of
           MValue \<Rightarrow> value_step fs t
         | MFirst \<Rightarrow> if t = TRBrack then Some (MDone (JArr []), tl fs) else value_step fs t
         | MKey0 \<Rightarrow>
             (case t of
                TRBrace \<Rightarrow> Some (MDone (JObj []), fs)
              | TStr k \<Rightarrow> Some (MColon [] k, fs)
              | _ \<Rightarrow> None)
         | MKey kvs \<Rightarrow> (case t of TStr k \<Rightarrow> Some (MColon kvs k, fs) | _ \<Rightarrow> None)
         | MColon kvs k \<Rightarrow> (if t = TColon then Some (MValue, FObj kvs k # fs) else None)
         | MDone v \<Rightarrow> done_step v fs t))"

primrec jrun :: "token list \<Rightarrow> mode \<times> frame list \<Rightarrow> (mode \<times> frame list) option" where
  "jrun [] st = Some st"
| "jrun (t # ts) st = (case jstep st t of None \<Rightarrow> None | Some st' \<Rightarrow> jrun ts st')"

definition parse :: "string \<Rightarrow> json option" where
  "parse s =
     (case tokens s of
        None \<Rightarrow> None
      | Some ts \<Rightarrow>
          (case jrun ts (MValue, []) of Some (MDone v, []) \<Rightarrow> Some v | _ \<Rightarrow> None))"

section \<open>Strings come back\<close>

lemma scan_string_plain:
  "c \<noteq> quote \<Longrightarrow> c \<noteq> backslash \<Longrightarrow> 0x20 \<le> (of_char c :: nat) \<Longrightarrow> of_char c < (0x80 :: nat) \<Longrightarrow>
   scan_string (c # s) = map_option (\<lambda>(t, u). (c # t, u)) (scan_string s)"
  by (simp add: scan_string.simps(2) decode_rune_def encode_rune_def)

lemma scan_string_escape:
  "scan_escape s = Some (t, s') \<Longrightarrow>
   scan_string (backslash # s) = map_option (\<lambda>(r, u). (t @ r, u)) (scan_string s')"
  by (simp add: scan_string.simps(2))

lemma hex_val_hex_digit [simp]: "n < 16 \<Longrightarrow> hex_val (hex_digit n) = Some n"
  by (auto simp: hex_val_def hex_digit_def Let_def)

lemma scan_escape_00:
  assumes "of_char c < (0x80 :: nat)"
  shows "scan_escape (CHR ''u'' # CHR ''0'' # CHR ''0'' # hex_digit (of_char c div 16) # hex_digit (of_char c mod 16) # s)
    = Some ([c], s)"
proof -
  have "(of_char c :: nat) div 16 < 16" using assms by simp
  moreover have "of_char c div 16 * 16 + of_char c mod 16 = (of_char c :: nat)" by (rule div_mult_mod_eq)
  moreover have "hex_val (CHR ''0'') = Some 0" by (simp add: hex_val_def)
  ultimately show ?thesis using assms by (simp add: surrogate_def encode_rune_def)
qed

lemma scan_escape_char:
  assumes "of_char c < (0x80 :: nat)"
  shows "scan_string (escape_char c @ s) = map_option (\<lambda>(t, u). (c # t, u)) (scan_string s)"
proof (cases "c = backslash \<or> c = quote \<or> c = CHR 0x08 \<or> c = CHR 0x0C \<or> c = CHR 0x0A \<or> c = CHR 0x0D \<or> c = CHR 0x09")
  case True
  then show ?thesis by (elim disjE) (simp_all add: escape_char_def scan_string_escape)
next
  case False
  note f = False
  show ?thesis
  proof (cases "of_char c < (0x20 :: nat) \<or> c = CHR ''<'' \<or> c = CHR ''>'' \<or> c = CHR ''&''")
    case True
    with f have "escape_char c = [backslash, CHR ''u'', CHR ''0'', CHR ''0'', hex_digit (of_char c div 16), hex_digit (of_char c mod 16)]"
      by (simp add: escape_char_def)
    then show ?thesis by (simp add: scan_string_escape [OF scan_escape_00 [OF assms]])
  next
    case False
    with f assms show ?thesis by (simp add: escape_char_def scan_string_plain)
  qed
qed

lemma scan_escape_string: "scan_string (escape_string s @ quote # rest) = Some (to_valid s, rest)"
proof (induction s rule: length_induct)
  case (1 s)
  show ?case
  proof (cases s)
    case Nil
    then show ?thesis by (simp add: scan_string.simps(2))
  next
    case (Cons a v)
    show ?thesis
    proof (rule decode_rune_cases [of a v])
      assume "of_char a < (0x80 :: nat)"
      then show ?thesis using 1 Cons by (simp add: escape_string.simps(2) scan_escape_char)
    next
      assume "0x80 \<le> (of_char a :: nat)" "decode_rune a v = bad_rune"
      moreover have "scan_escape (CHR ''u'' # ''fffd'' @ w) = Some (encode_rune 0xFFFD, w)" for w
        by (simp add: hex_val_def surrogate_def)
      note scan_string_escape [OF this]
      ultimately show ?thesis
        using 1 Cons by (simp add: escape_string.simps(2) bad_rune_def to_valid_bad replacement)
    next
      fix t w r assume v: "v = t @ w" and wf: "well_formed a t r"
      have dec: "decode_rune a v = (r, Suc (length t))" using wf v by (simp add: well_formed_def)
      have hi: "0x80 \<le> (of_char a :: nat)" and ne: "t \<noteq> []" using wf by (simp_all add: well_formed_def)
      have tv: "to_valid s = encode_rune r @ to_valid w"
        using to_valid_well_formed [OF wf, of w] wf Cons v by (simp add: well_formed_def)
      have IH: "scan_string (escape_string w @ quote # rest) = Some (to_valid w, rest)"
        using 1 Cons v by simp
      show ?thesis
      proof (cases "r = 0x2028 \<or> r = 0x2029")
        case True
        have e: "escape_string s = backslash # CHR ''u'' # ''202'' @ hex_digit (r mod 16) # escape_string w"
          using Cons v dec hi ne True by (auto simp: escape_string.simps(2) bad_rune_def)
        have "scan_escape (CHR ''u'' # ''202'' @ hex_digit (r mod 16) # x) = Some (encode_rune r, x)" for x
          using True by (auto simp: hex_val_def surrogate_def hex_digit_def)
        from scan_string_escape [OF this] show ?thesis by (simp add: e tv IH)
      next
        case False
        have e: "escape_string s = a # t @ escape_string w"
          using Cons v dec hi ne False by (simp add: escape_string.simps(2) bad_rune_def)
        have "decode_rune a (t @ x) = (r, Suc (length t))" for x using wf by (simp add: well_formed_def)
        then show ?thesis
          using hi by (auto simp: e tv IH scan_string.simps(2))
      qed
    qed
  qed
qed

section \<open>Numbers come back\<close>

definition digits_value :: "string \<Rightarrow> nat" where
  "digits_value ds = foldl (\<lambda>n c. 10 * n + (of_char c - 48)) 0 ds"

lemma is_digit_char_of [simp]: "d < 10 \<Longrightarrow> is_digit (char_of (48 + d :: nat))"
  by (simp add: is_digit_def)

lemma show_nat_digits: "list_all is_digit (show_nat n)"
proof (induction n rule: show_nat.induct)
  case (1 n)
  show ?case using 1 by (subst show_nat.simps) simp
qed

lemma show_nat_neq_Nil [simp]: "show_nat n \<noteq> []"
  by (subst show_nat.simps) simp

lemma digits_value_show_nat [simp]: "digits_value (show_nat n) = n"
proof (induction n rule: show_nat.induct)
  case (1 n)
  show ?case using 1 by (subst show_nat.simps) (simp add: digits_value_def)
qed

lemma hd_show_nat: "0 < n \<Longrightarrow> hd (show_nat n) \<noteq> CHR ''0''"
proof (induction n rule: show_nat.induct)
  case (1 n)
  show ?case
  proof (cases "n < 10")
    case True
    have "of_char (char_of (48 + n)) = 48 + n" using True by simp
    then have "char_of (48 + n) \<noteq> CHR ''0''" using 1(2) by (auto simp: dest!: arg_cong [of _ _ "of_char :: char \<Rightarrow> nat"])
    then show ?thesis using True by (subst show_nat.simps) simp
  next
    case False
    then show ?thesis using 1 by (subst show_nat.simps) (simp add: hd_append)
  qed
qed

definition ends_number :: "string \<Rightarrow> bool" where
  "ends_number s =
     (case s of [] \<Rightarrow> True | c # _ \<Rightarrow> \<not> is_digit c \<and> c \<noteq> CHR ''.'' \<and> c \<noteq> CHR ''e'' \<and> c \<noteq> CHR ''E'')"

lemma scan_digits_all:
  assumes "list_all is_digit ds" "ds \<noteq> []" "ends_number r"
  shows "scan_digits (ds @ r) = Some (ds, r)"
proof -
  have "takeWhile is_digit r = []" "dropWhile is_digit r = r"
    using assms(3) by (cases r; simp add: ends_number_def)+
  moreover have "\<forall>c \<in> set ds. is_digit c" using assms(1) by (simp add: list_all_iff)
  ultimately show ?thesis using assms(2) by (simp add: scan_digits_def)
qed

lemma scan_int_show_nat: "ends_number r \<Longrightarrow> scan_int (show_nat n @ r) = Some (show_nat n, r)"
proof (cases "n = 0")
  case True
  then have "show_nat n = ''0''" by (subst show_nat.simps) simp
  then show ?thesis by (simp add: scan_int_def)
next
  case False
  assume "ends_number r"
  then have "scan_digits (show_nat n @ r) = Some (show_nat n, r)"
    by (simp add: scan_digits_all show_nat_digits)
  moreover obtain c ds where "show_nat n = c # ds" "c \<noteq> CHR ''0''"
    using False hd_show_nat [of n] by (cases "show_nat n") auto
  ultimately show ?thesis by (simp add: scan_int_def)
qed

lemma scan_frac_none [simp]: "ends_number r \<Longrightarrow> scan_frac r = Some ([], r)"
  by (cases r) (simp_all add: scan_frac_def ends_number_def)

lemma scan_exp_none [simp]: "ends_number r \<Longrightarrow> scan_exp r = Some ([], r)"
  by (cases r) (simp_all add: scan_exp_def ends_number_def)

lemma hd_show_nat_digit: "is_digit (hd (show_nat n))"
  using show_nat_digits [of n] by (cases "show_nat n") auto

lemma is_digit_minus [simp]: "\<not> is_digit (CHR ''-'')"
  by (simp add: is_digit_def)

lemma scan_sign_fmt_d:
  "scan_sign (fmt_d i @ r) =
    (if i < 0 then ([CHR ''-''], show_nat (nat (- i)) @ r) else ([], show_nat (nat i) @ r))"
proof -
  obtain c ds where "show_nat (nat i) = c # ds" "c \<noteq> CHR ''-''"
    using hd_show_nat_digit [of "nat i"] is_digit_minus by (metis list.collapse show_nat_neq_Nil)
  then show ?thesis by (simp add: scan_sign_def fmt_d_def)
qed

lemma scan_number_fmt_d: "ends_number r \<Longrightarrow> scan_number (fmt_d i @ r) = Some (fmt_d i, r)"
  by (simp add: scan_number_def scan_sign_fmt_d scan_int_show_nat) (simp add: fmt_d_def)

lemma starts_number_fmt_d: "starts_number (hd (fmt_d i))"
  using hd_show_nat_digit by (simp add: fmt_d_def starts_number_def)

lemma starts_number_other:
  "starts_number c \<Longrightarrow> \<not> is_ws c \<and> punct c = None \<and> c \<noteq> quote"
proof (intro conjI notI)
  assume s: "starts_number c"
  show "is_ws c \<Longrightarrow> False" "c = quote \<Longrightarrow> False"
    using s by (auto simp: starts_number_def is_digit_def is_ws_def)
  show "punct c = None"
  proof (cases "punct c")
    case (Some t)
    then have "c \<in> set ''{}[]:,''" by (simp add: punct_def split: if_splits)
    then have "\<not> starts_number c" by (auto simp: starts_number_def is_digit_def)
    with s show ?thesis by simp
  qed simp
qed

lemma tokens_number:
  assumes "ends_number r"
  shows "tokens (fmt_d i @ r) = map_option (Cons (TNum (fmt_d i))) (tokens r)"
proof -
  have "fmt_d i \<noteq> []" by (simp add: fmt_d_def)
  then obtain c s where c: "fmt_d i = c # s" by (meson neq_Nil_conv)
  with starts_number_fmt_d [of i] starts_number_other [of c] scan_number_fmt_d [OF assms, of i]
  show ?thesis by (simp add: tokens.simps(2))
qed

section \<open>Documents come back\<close>

fun sep :: "token list list \<Rightarrow> token list" where
  "sep [] = []"
| "sep [x] = x"
| "sep (x # xs) = x @ TComma # sep xs"

fun toks :: "json \<Rightarrow> token list" where
  "toks JNull = [TNull]"
| "toks (JBool b) = [TBool b]"
| "toks (JNum s) = [TNum s]"
| "toks (JStr s) = [TStr s]"
| "toks (JArr vs) = TLBrack # sep (map toks vs) @ [TRBrack]"
| "toks (JObj kvs) = TLBrace # sep (map (\<lambda>(k, v). TStr k # TColon # toks v) kvs) @ [TRBrace]"

text \<open>Valid UTF-8 everywhere; integers as numbers; the nesting.\<close>

fun clean :: "json \<Rightarrow> json" where
  "clean (JStr s) = JStr (to_valid s)"
| "clean (JArr vs) = JArr (map clean vs)"
| "clean (JObj kvs) = JObj (map (\<lambda>(k, v). (to_valid k, clean v)) kvs)"
| "clean v = v"

fun int_numbers :: "json \<Rightarrow> bool" where
  "int_numbers (JNum s) = (\<exists>i. s = fmt_d i)"
| "int_numbers (JArr vs) = list_all int_numbers vs"
| "int_numbers (JObj kvs) = list_all (\<lambda>(k, v). int_numbers v) kvs"
| "int_numbers v = True"

fun depth :: "json \<Rightarrow> nat" where
  "depth (JArr vs) = Suc (fold max (map depth vs) 0)"
| "depth (JObj kvs) = Suc (fold max (map (\<lambda>(k, v). depth v) kvs) 0)"
| "depth v = 0"

lemma append_Cons_fun: "(@) (x # xs) = (\<lambda>ys. x # xs @ ys)"
  by (rule ext) simp

lemma tokens_punct: "punct c = Some t \<Longrightarrow> tokens (c # s) = map_option (Cons t) (tokens s)"
proof -
  assume p: "punct c = Some t"
  then have "\<not> is_ws c" by (auto simp: punct_def is_ws_def split: if_splits)
  with p show ?thesis by (simp add: tokens.simps(2))
qed

lemma tokens_string: "tokens (render_string s @ r) = map_option (Cons (TStr (to_valid s))) (tokens r)"
  by (simp add: render_string_def tokens.simps(2) is_ws_def punct_def scan_escape_string)

lemma tokens_commas:
  assumes "\<And>x r. x \<in> set xs \<Longrightarrow> ends_number r \<Longrightarrow> tokens (f x @ r) = map_option ((@) (g x)) (tokens r)"
    and "ends_number r"
  shows "tokens (commas (map f xs) @ r) = map_option ((@) (sep (map g xs))) (tokens r)"
  using assms
proof (induction xs rule: induct_list012)
  case 1
  then show ?case by (simp add: option.map_ident)
next
  case (3 x y zs)
  have c: "ends_number (CHR '','' # s)" for s by (simp add: ends_number_def is_digit_def)
  have p: "punct CHR '','' = Some TComma" by (simp add: punct_def)
  show ?case
    using 3 by (simp add: c tokens_punct [OF p] option.map_comp o_def)
qed simp

lemma tokens_render:
  "int_numbers v \<Longrightarrow> ends_number r \<Longrightarrow> tokens (render v @ r) = map_option ((@) (toks (clean v))) (tokens r)"
proof (induction v arbitrary: r rule: render.induct)
  case 1
  then show ?case by (simp add: tokens.simps(2) is_ws_def punct_def starts_number_def is_digit_def)
next
  case (2 b)
  then show ?case by (simp add: tokens.simps(2) is_ws_def punct_def starts_number_def is_digit_def)
next
  case (3 s)
  then show ?case by (auto simp: tokens_number)
next
  case (4 s)
  then show ?case by (simp add: tokens_string)
next
  case (5 vs)
  have p: "punct CHR ''['' = Some TLBrack" "punct CHR '']'' = Some TRBrack" by (simp_all add: punct_def)
  have e: "ends_number (CHR '']'' # r)" by (simp add: ends_number_def is_digit_def)
  have "tokens (commas (map render vs) @ CHR '']'' # r) =
    map_option ((@) (sep (map (toks \<circ> clean) vs))) (tokens (CHR '']'' # r))"
    by (rule tokens_commas) (use 5 e in \<open>auto simp: list_all_iff\<close>)
  then show ?case
    by (simp add: tokens_punct [OF p(1)] tokens_punct [OF p(2)] option.map_comp o_def)
next
  case (6 kvs)
  have p: "punct CHR ''{'' = Some TLBrace" "punct CHR ''}'' = Some TRBrace" "punct CHR '':'' = Some TColon"
    by (simp_all add: punct_def)
  have e: "ends_number (CHR ''}'' # r)" by (simp add: ends_number_def is_digit_def)
  have "tokens (commas (map (\<lambda>(k, v). render_string k @ CHR '':'' # render v) kvs) @ CHR ''}'' # r) =
    map_option ((@) (sep (map (\<lambda>(k, v). TStr (to_valid k) # TColon # toks (clean v)) kvs))) (tokens (CHR ''}'' # r))"
  proof (rule tokens_commas)
    fix x s assume x: "x \<in> set kvs" and s: "ends_number s"
    obtain k v where kv: "x = (k, v)" by fastforce
    have "tokens (render v @ s) = map_option ((@) (toks (clean v))) (tokens s)"
      using 6 x kv s by (fastforce simp: list_all_iff)
    then show "tokens ((case x of (k, v) \<Rightarrow> render_string k @ CHR '':'' # render v) @ s) =
      map_option ((@) (case x of (k, v) \<Rightarrow> TStr (to_valid k) # TColon # toks (clean v))) (tokens s)"
      by (simp add: kv tokens_string tokens_punct [OF p(3)] option.map_comp o_def append_Cons_fun)
  qed (rule e)
  moreover have "map (\<lambda>(k, v). TStr k # TColon # toks v) (map (\<lambda>(k, v). (to_valid k, clean v)) kvs) =
    map (\<lambda>(k, v). TStr (to_valid k) # TColon # toks (clean v)) kvs"
    by auto
  ultimately show ?case
    by (simp add: tokens_punct [OF p(1)] tokens_punct [OF p(2)] option.map_comp o_def split_def)
qed

lemma sep_Cons: "xs \<noteq> [] \<Longrightarrow> sep (x # xs) = x @ TComma # sep xs"
  by (cases xs) simp_all

lemma fold_max_ge: "(a :: nat) \<le> fold max xs a \<and> (\<forall>x \<in> set xs. x \<le> fold max xs a)"
  by (induction xs arbitrary: a) (force, fastforce simp: max_def split: if_splits)

text \<open>A value's tokens, wherever a value may start, lead to its being delivered.\<close>

lemma jrun_value_start:
  "jrun (toks v @ ts) (MFirst, fs) = jrun (toks v @ ts) (MValue, fs)"
  by (cases v) (simp_all add: jstep_def)

lemma jrun_elements:
  assumes "\<And>v fs ts. v \<in> set vs \<Longrightarrow> length fs = n \<Longrightarrow> jrun (toks v @ ts) (MValue, fs) = jrun ts (MDone v, fs)"
    and "vs \<noteq> []" "Suc (length fs) = n"
  shows "jrun (sep (map toks vs) @ TRBrack # ts) (MValue, FArr acc # fs) = jrun ts (MDone (JArr (acc @ vs)), fs)"
  using assms(1,2)
proof (induction vs arbitrary: acc)
  case (Cons v vs)
  show ?case
  proof (cases "vs = []")
    case True
    then show ?thesis using Cons.prems assms(3) by (simp add: jstep_def done_step_def)
  next
    case False
    then show ?thesis using Cons assms(3) by (simp add: sep_Cons jstep_def done_step_def)
  qed
qed simp

lemma jrun_members:
  assumes "\<And>k v fs ts. (k, v) \<in> set kvs \<Longrightarrow> length fs = n \<Longrightarrow> jrun (toks v @ ts) (MValue, fs) = jrun ts (MDone v, fs)"
    and "kvs \<noteq> []" "Suc (length fs) = n"
  shows "jrun (sep (map (\<lambda>(k, v). TStr k # TColon # toks v) kvs) @ TRBrace # ts) (MKey acc, fs) =
    jrun ts (MDone (JObj (acc @ kvs)), fs)"
  using assms(1,2)
proof (induction kvs arbitrary: acc)
  case (Cons x kvs)
  obtain k v where x: "x = (k, v)" by fastforce
  show ?case
  proof (cases "kvs = []")
    case True
    then show ?thesis using Cons.prems assms(3) by (simp add: x jstep_def done_step_def)
  next
    case False
    have "jrun (toks v @ us) (MValue, FObj acc k # fs) = jrun us (MDone v, FObj acc k # fs)" for us
      using Cons.prems(1) [of k v "FObj acc k # fs" us] assms(3) by (simp add: x)
    moreover have "jrun (sep (map (\<lambda>(k, v). TStr k # TColon # toks v) kvs) @ TRBrace # ts) (MKey (acc @ [(k, v)]), fs) =
      jrun ts (MDone (JObj ((acc @ [(k, v)]) @ kvs)), fs)"
      by (rule Cons.IH) (use Cons.prems(1) False in auto)
    ultimately show ?thesis using False by (simp add: x sep_Cons jstep_def done_step_def)
  qed
qed simp

lemma jrun_first_key:
  "kvs \<noteq> [] \<Longrightarrow> jrun (sep (map (\<lambda>(k, v). TStr k # TColon # toks v) kvs) @ ts) (MKey0, fs) =
   jrun (sep (map (\<lambda>(k, v). TStr k # TColon # toks v) kvs) @ ts) (MKey [], fs)"
  by (cases kvs rule: remdups_adj.cases) (auto simp: jstep_def)

lemma jrun_toks:
  "depth v + length fs \<le> max_depth \<Longrightarrow> jrun (toks v @ ts) (MValue, fs) = jrun ts (MDone v, fs)"
proof (induction v arbitrary: fs ts rule: toks.induct)
  case (5 vs)
  show ?case
  proof (cases "vs = []")
    case True
    then show ?thesis using 5 by (simp add: jstep_def value_step_def)
  next
    case False
    have le: "\<forall>v \<in> set vs. depth v + Suc (length fs) \<le> max_depth"
    proof
      fix v assume "v \<in> set vs"
      then have "depth v \<le> fold max (map depth vs) 0" using fold_max_ge by auto
      then show "depth v + Suc (length fs) \<le> max_depth" using 5(2) by simp
    qed
    have first: "jrun (sep (map toks vs) @ us) (MFirst, gs) = jrun (sep (map toks vs) @ us) (MValue, gs)" for us gs
      using False by (cases vs rule: remdups_adj.cases) (simp_all add: jrun_value_start)
    have "jrun (sep (map toks vs) @ TRBrack # ts) (MValue, FArr [] # fs) = jrun ts (MDone (JArr ([] @ vs)), fs)"
      by (rule jrun_elements [where n = "Suc (length fs)"]) (use 5(1) le False in auto)
    then show ?thesis using 5(2) by (simp add: first jstep_def value_step_def)
  qed
next
  case (6 kvs)
  show ?case
  proof (cases "kvs = []")
    case True
    then show ?thesis using 6 by (simp add: jstep_def value_step_def)
  next
    case False
    have le: "\<forall>(k, v) \<in> set kvs. depth v + Suc (length fs) \<le> max_depth"
    proof
      fix x assume x: "x \<in> set kvs"
      then have "(case x of (k, v) \<Rightarrow> depth v) \<le> fold max (map (\<lambda>(k, v). depth v) kvs) 0" using fold_max_ge by auto
      then show "case x of (k, v) \<Rightarrow> depth v + Suc (length fs) \<le> max_depth" using 6(2) by (auto split: prod.splits)
    qed
    have "jrun (sep (map (\<lambda>(k, v). TStr k # TColon # toks v) kvs) @ TRBrace # ts) (MKey [], fs) =
      jrun ts (MDone (JObj ([] @ kvs)), fs)"
      by (rule jrun_members [where n = "Suc (length fs)"]) (use 6(1) le False in fastforce)+
    then show ?thesis using 6(2) False by (simp add: jrun_first_key jstep_def value_step_def)
  qed
qed (simp_all add: jstep_def value_step_def)

text \<open>Every document the program writes is read again, its strings made valid UTF-8.\<close>

lemma parse_render:
  assumes "int_numbers v" and "depth (clean v) \<le> max_depth"
  shows "parse (render v) = Some (clean v)"
proof -
  have "tokens (render v) = Some (toks (clean v))"
    using tokens_render [OF assms(1), of "[]"] by (simp add: ends_number_def)
  moreover have "jrun (toks (clean v)) (MValue, []) = Some (MDone (clean v), [])"
    using jrun_toks [of "clean v" "[]" "[]"] assms(2) by simp
  ultimately show ?thesis by (simp add: parse_def)
qed

section \<open>How long a document is\<close>

lemma length_escape_char: "length (escape_char c) \<le> 6"
  by (simp add: escape_char_def)

lemma length_escape_string: "length (escape_string s) \<le> 6 * length s"
proof (induction s rule: escape_string.induct)
  case (2 a s)
  obtain r n where d: "decode_rune a s = (r, n)" by fastforce
  have "0 < snd (decode_rune a s)" by simp
  then have n: "0 < n" using d by simp
  show ?case
  proof (cases "of_char a < (128 :: nat)")
    case True
    with 2(1) length_escape_char [of a] show ?thesis by (simp add: escape_string.simps(2))
  next
    case False
    let ?h = "if (r, n) = bad_rune then backslash # ''ufffd''
      else if r = 0x2028 \<or> r = 0x2029 then backslash # ''u202'' @ [hex_digit (r mod 16)] else take n (a # s)"
    have "length (escape_string (drop n (a # s))) \<le> 6 * length (drop n (a # s))"
      using 2(2) [OF False d [symmetric]] .
    moreover have "length ?h \<le> 6 * length (take n (a # s))" using n by (cases n) auto
    moreover have "length (take n (a # s)) + length (drop n (a # s)) = length (a # s)"
      by (metis append_take_drop_id length_append)
    moreover have "escape_string (a # s) = ?h @ escape_string (drop n (a # s))"
      using False d by (simp add: escape_string.simps(2))
    ultimately show ?thesis by (simp only: length_append)
  qed
qed simp

lemma length_render_string: "length (render_string s) \<le> 6 * length s + 2"
  using length_escape_string [of s] by (simp add: render_string_def)

end
