(* ===== verification/Sha256.thy ===== *)
theory Sha256
  imports Prelude
begin

unbundle bit_operations_syntax

text \<open>
  The standard library's \<^verbatim>\<open>sha256.Sum256\<close> (FIPS 180-4), which \<^verbatim>\<open>crypto.DeriveKey\<close> calls: the
  padding, the message schedule of a block, the compression function, the digest.
\<close>

text \<open>
  The constants are the first 32 bits of the fractional parts of square and cube roots of the
  first primes: \<open>root_bits k n 35 0\<close> is the \<open>k\<close>-th root of \<open>n\<close>, rounded down, when it has
  35 bits.
\<close>

primrec root_bits :: "nat \<Rightarrow> nat \<Rightarrow> nat \<Rightarrow> nat \<Rightarrow> nat" where
  "root_bits k n 0 r = r"
| "root_bits k n (Suc b) r = root_bits k n b (if (r + 2 ^ b) ^ k \<le> n then r + 2 ^ b else r)"

definition root_fraction :: "nat \<Rightarrow> nat \<Rightarrow> 32 word" where
  "root_fraction k p = word_of_nat (root_bits k (p * 2 ^ (32 * k)) 35 0)"

definition sha_H0 :: "32 word list" where
  "sha_H0 = map (root_fraction 2) [2, 3, 5, 7, 11, 13, 17, 19]"

definition sha_K :: "32 word list" where
  "sha_K = map (root_fraction 3) (filter (\<lambda>n. list_all (\<lambda>d. n mod d \<noteq> 0) [2..<n]) [2..<312])"

text \<open>The message, a one bit, zeros, and the length in bits: a multiple of 64 bytes.\<close>

definition sha_pad :: "byte list \<Rightarrow> byte list" where
  "sha_pad m = m @ 0x80 # replicate ((119 - length m mod 64) mod 64) 0 @ be_bytes 8 (8 * length m)"

fun chunks :: "nat \<Rightarrow> 'a list \<Rightarrow> 'a list list" where
  "chunks n xs = (if xs = [] \<or> n = 0 then [] else take n xs # chunks n (drop n xs))"

declare chunks.simps [simp del]

definition sha_sigma :: "nat \<Rightarrow> nat \<Rightarrow> nat \<Rightarrow> 32 word \<Rightarrow> 32 word" where
  "sha_sigma a b c x = word_rotr a x XOR word_rotr b x XOR drop_bit c x"

definition sha_Sigma :: "nat \<Rightarrow> nat \<Rightarrow> nat \<Rightarrow> 32 word \<Rightarrow> 32 word" where
  "sha_Sigma a b c x = word_rotr a x XOR word_rotr b x XOR word_rotr c x"

primrec sha_schedule :: "nat \<Rightarrow> 32 word list \<Rightarrow> 32 word list" where
  "sha_schedule 0 w = w"
| "sha_schedule (Suc k) w =
     (let t = length w in
      sha_schedule k (w @ [sha_sigma 17 19 10 (w ! (t - 2)) + w ! (t - 7) +
                           sha_sigma 7 18 3 (w ! (t - 15)) + w ! (t - 16)]))"

fun sha_round :: "32 word list \<Rightarrow> 32 word \<times> 32 word \<Rightarrow> 32 word list" where
  "sha_round [a, b, c, d, e, f, g, h] (k, w) =
     (let t1 = h + sha_Sigma 6 11 25 e + ((e AND f) XOR (NOT e AND g)) + k + w;
          t2 = sha_Sigma 2 13 22 a + ((a AND b) XOR (a AND c) XOR (b AND c))
      in [t1 + t2, a, b, c, d + t1, e, f, g])"
| "sha_round st _ = st"

definition sha_block :: "32 word list \<Rightarrow> byte list \<Rightarrow> 32 word list" where
  "sha_block H bs =
     (let w = sha_schedule 48 (map (\<lambda>q. word_of_nat (be_nat q)) (chunks 4 bs))
      in map2 (+) H (foldl sha_round H (zip sha_K w)))"

definition Sum256 :: "byte list \<Rightarrow> byte list" where
  "Sum256 m = concat (map (\<lambda>h. be_bytes 4 (unat h)) (foldl sha_block sha_H0 (chunks 64 (sha_pad m))))"

section \<open>The digest is 32 bytes\<close>

lemma length_sha_round [simp]: "length (sha_round st kw) = length st"
  by (cases "(st, kw)" rule: sha_round.cases) (simp_all add: Let_def)

lemma length_foldl_sha_round [simp]: "length (foldl sha_round st kws) = length st"
  by (induction kws arbitrary: st) auto

lemma length_sha_block [simp]: "length (sha_block H bs) = length H"
  by (simp add: sha_block_def Let_def)

lemma length_foldl_sha_block [simp]: "length (foldl sha_block H bss) = length H"
  by (induction bss arbitrary: H) auto

lemma length_Sum256 [simp]: "length (Sum256 m) = 32"
proof -
  have four: "length (concat (map (\<lambda>h. be_bytes 4 (unat h)) hs)) = 4 * length hs" for hs :: "32 word list"
    by (induction hs) auto
  show ?thesis by (simp add: Sum256_def four sha_H0_def)
qed

text \<open>The padded message is a whole number of blocks.\<close>

lemma length_sha_pad: "length (sha_pad m) mod 64 = 0"
proof -
  have "(n + Suc ((119 - n mod 64) mod 64 + 8)) mod 64 = 0" for n :: nat
  proof -
    define r where "r = n mod 64"
    have r: "r < 64" "n = 64 * (n div 64) + r" by (simp_all add: r_def)
    have "(r + Suc ((119 - r) mod 64 + 8)) mod 64 = 0"
    proof (cases "r \<le> 55")
      case True
      then have "119 - r = 64 + (55 - r)" by simp
      then have "(119 - r) mod 64 = 55 - r" by (simp only: mod_add_self1) simp
      with True show ?thesis by simp
    qed (use r in simp)
    moreover have "(n + k) mod 64 = (r + k) mod 64" for k by (simp add: r_def mod_add_left_eq)
    ultimately show ?thesis by (simp only: r_def)
  qed
  then show ?thesis by (simp add: sha_pad_def)
qed

end
