(* ===== verification/AesGcm.thy ===== *)
theory AesGcm
  imports Sha256
begin

unbundle bit_operations_syntax

text \<open>
  The standard library's \<^verbatim>\<open>crypto/aes\<close> (FIPS 197) and \<^verbatim>\<open>cipher.NewGCM\<close> (NIST SP 800-38D) as
  \<^verbatim>\<open>pkg/crypto\<close> uses them: a 12-byte nonce, a 16-byte tag, no additional data. The locale
  \<open>aead\<close> states what the program relies on, that opening accepts exactly what sealing with the
  same key and nonce makes; it is interpreted on this model of GCM.
\<close>

section \<open>AES\<close>

definition xtime :: "byte \<Rightarrow> byte" where
  "xtime b = (if bit b 7 then push_bit 1 b XOR 0x1b else push_bit 1 b)"

primrec gf_mul_loop :: "nat \<Rightarrow> byte \<Rightarrow> byte \<Rightarrow> byte" where
  "gf_mul_loop 0 a b = 0"
| "gf_mul_loop (Suc k) a b = (if bit b 0 then a else 0) XOR gf_mul_loop k (xtime a) (drop_bit 1 b)"

definition gf_mul :: "byte \<Rightarrow> byte \<Rightarrow> byte" where
  "gf_mul a b = gf_mul_loop 8 a b"

text \<open>The inverse in the field is the 254th power, and the S-box its affine image.\<close>

definition gf_inv :: "byte \<Rightarrow> byte" where
  "gf_inv a = ((\<lambda>r. gf_mul a (gf_mul r r)) ^^ 6) a"

definition sbox :: "byte \<Rightarrow> byte" where
  "sbox a = (let b = gf_inv a; b = gf_mul b b in
     b XOR word_rotl 1 b XOR word_rotl 2 b XOR word_rotl 3 b XOR word_rotl 4 b XOR 0x63)"

definition xor_bytes :: "byte list \<Rightarrow> byte list \<Rightarrow> byte list" where
  "xor_bytes a b = map2 (XOR) a b"

text \<open>The key schedule, a list of four-byte words.\<close>

primrec rcon :: "nat \<Rightarrow> byte" where
  "rcon 0 = 0x8d"
| "rcon (Suc n) = xtime (rcon n)"

primrec key_schedule :: "nat \<Rightarrow> nat \<Rightarrow> byte list list \<Rightarrow> byte list list" where
  "key_schedule nk 0 w = w"
| "key_schedule nk (Suc k) w =
     (let i = length w;
          t = w ! (i - 1);
          t = (if i mod nk = 0 then xor_bytes (map sbox (rotate 1 t)) [rcon (i div nk), 0, 0, 0]
               else if nk > 6 \<and> i mod nk = 4 then map sbox t
               else t)
      in key_schedule nk k (w @ [xor_bytes (w ! (i - nk)) t]))"

definition round_keys :: "byte list \<Rightarrow> byte list list" where
  "round_keys key =
     (let nk = length key div 4
      in chunks 16 (concat (key_schedule nk (4 * (nk + 7) - nk) (chunks 4 key))))"

definition shift_rows :: "byte list \<Rightarrow> byte list" where
  "shift_rows s = map (\<lambda>i. s ! ((5 * i) mod 16)) [0..<16]"

fun mix_column :: "byte list \<Rightarrow> byte list" where
  "mix_column [a, b, c, d] =
     [gf_mul 2 a XOR gf_mul 3 b XOR c XOR d, a XOR gf_mul 2 b XOR gf_mul 3 c XOR d,
      a XOR b XOR gf_mul 2 c XOR gf_mul 3 d, gf_mul 3 a XOR b XOR c XOR gf_mul 2 d]"
| "mix_column col = col"

definition mix_columns :: "byte list \<Rightarrow> byte list" where
  "mix_columns s = concat (map mix_column (chunks 4 s))"

fun aes_rounds :: "byte list list \<Rightarrow> byte list \<Rightarrow> byte list" where
  "aes_rounds [] s = s"
| "aes_rounds [k] s = xor_bytes (shift_rows (map sbox s)) k"
| "aes_rounds (k # ks) s = aes_rounds ks (xor_bytes (mix_columns (shift_rows (map sbox s))) k)"

definition aes_block :: "byte list \<Rightarrow> byte list \<Rightarrow> byte list" where
  "aes_block key s =
     (case round_keys key of [] \<Rightarrow> s | k # ks \<Rightarrow> aes_rounds ks (xor_bytes s k))"

section \<open>GCM\<close>

text \<open>
  A block is a 128-bit word, its first byte the most significant; \<open>ghash_mul\<close> multiplies in the
  field of the standard, whose bit 0 is the most significant bit of the word.
\<close>

definition block_of :: "byte list \<Rightarrow> 128 word" where
  "block_of bs = word_of_nat (be_nat (take 16 (bs @ replicate 16 0)))"

primrec ghash_mul_loop :: "nat \<Rightarrow> 128 word \<Rightarrow> 128 word \<Rightarrow> 128 word" where
  "ghash_mul_loop 0 x v = 0"
| "ghash_mul_loop (Suc k) x v =
     (if bit x k then v else 0) XOR
     ghash_mul_loop k x (if bit v 0 then drop_bit 1 v XOR push_bit 120 0xe1 else drop_bit 1 v)"

definition ghash_mul :: "128 word \<Rightarrow> 128 word \<Rightarrow> 128 word" where
  "ghash_mul x y = ghash_mul_loop 128 x y"

definition ghash :: "128 word \<Rightarrow> 128 word list \<Rightarrow> 128 word" where
  "ghash h xs = foldl (\<lambda>y x. ghash_mul (y XOR x) h) 0 xs"

text \<open>\<open>ctr_block key nonce i\<close> is the key stream block of counter \<open>i\<close>, a 32-bit number.\<close>

definition ctr_block :: "byte list \<Rightarrow> byte list \<Rightarrow> nat \<Rightarrow> byte list" where
  "ctr_block key nonce i = aes_block key (nonce @ be_bytes 4 i)"

definition key_stream :: "byte list \<Rightarrow> byte list \<Rightarrow> nat \<Rightarrow> byte list" where
  "key_stream key nonce n =
     take n (concat (map (\<lambda>i. take 16 (ctr_block key nonce (i + 2) @ replicate 16 0)) [0..<Suc (n div 16)]))"

definition gcm_crypt :: "byte list \<Rightarrow> byte list \<Rightarrow> byte list \<Rightarrow> byte list" where
  "gcm_crypt key nonce bs = xor_bytes bs (key_stream key nonce (length bs))"

definition gcm_tag :: "byte list \<Rightarrow> byte list \<Rightarrow> byte list \<Rightarrow> byte list" where
  "gcm_tag key nonce c =
     (let h = block_of (aes_block key (replicate 16 0));
          s = ghash h (map block_of (chunks 16 c) @ [block_of (replicate 8 0 @ be_bytes 8 (8 * length c))])
      in be_bytes 16 (unat (s XOR block_of (ctr_block key nonce 1))))"

definition gcm_seal :: "byte list \<Rightarrow> byte list \<Rightarrow> byte list \<Rightarrow> byte list" where
  "gcm_seal key nonce p = (let c = gcm_crypt key nonce p in c @ gcm_tag key nonce c)"

text \<open>\<open>Open\<close>: a text shorter than a tag, longer than GCM allows or with another tag is refused.\<close>

definition gcm_limit :: nat where
  "gcm_limit = (2 ^ 32 - 2) * 16"

definition gcm_open :: "byte list \<Rightarrow> byte list \<Rightarrow> byte list \<Rightarrow> byte list option" where
  "gcm_open key nonce ct =
     (if length ct < 16 \<or> length ct > gcm_limit + 16 then None
      else
        (let c = take (length ct - 16) ct; tag = drop (length ct - 16) ct in
         if tag = gcm_tag key nonce c then Some (gcm_crypt key nonce c) else None))"

section \<open>What a caller of GCM relies on\<close>

locale aead =
  fixes seal :: "'k \<Rightarrow> 'n \<Rightarrow> byte list \<Rightarrow> byte list"
    and unseal :: "'k \<Rightarrow> 'n \<Rightarrow> byte list \<Rightarrow> byte list option"
    and limit overhead :: nat
  assumes unseal_iff: "unseal k n ct = Some p \<longleftrightarrow> length p \<le> limit \<and> ct = seal k n p"
    and length_seal: "length (seal k n p) = length p + overhead"
begin

lemma unseal_seal: "length p \<le> limit \<Longrightarrow> unseal k n (seal k n p) = Some p"
  by (simp add: unseal_iff)

lemma unseal_None_iff: "unseal k n ct = None \<longleftrightarrow> (\<forall>p. length p \<le> limit \<longrightarrow> ct \<noteq> seal k n p)"
  using unseal_iff by (metis not_None_eq option.distinct(1))

lemma seal_inj: "length p \<le> limit \<Longrightarrow> length q \<le> limit \<Longrightarrow> seal k n p = seal k n q \<longleftrightarrow> p = q"
  by (metis option.inject unseal_seal)

lemma unseal_short: "length ct < overhead \<Longrightarrow> unseal k n ct = None"
  by (auto simp: unseal_None_iff length_seal)

lemma unseal_length: "unseal k n ct = Some p \<Longrightarrow> length ct = length p + overhead"
  by (simp add: unseal_iff length_seal)

end

lemma length_xor_bytes [simp]: "length (xor_bytes a b) = min (length a) (length b)"
  by (simp add: xor_bytes_def)

lemma xor_bytes_cancel: "length a \<le> length b \<Longrightarrow> xor_bytes (xor_bytes a b) b = a"
  by (rule nth_equalityI) (simp_all add: xor_bytes_def xor.assoc)

lemma length_key_stream [simp]: "length (key_stream key nonce n) = n"
proof -
  have "length (concat (map (\<lambda>i. take 16 (f i @ replicate 16 (0 :: byte))) js)) = 16 * length js"
    for f and js :: "nat list"
    by (induction js) auto
  then have "length (concat (map (\<lambda>i. take 16 (ctr_block key nonce (i + 2) @ replicate 16 0)) [0..<Suc (n div 16)]))
    = 16 * Suc (n div 16)"
    by (metis diff_zero length_upt)
  moreover have "n \<le> 16 * Suc (n div 16)" by presburger
  ultimately show ?thesis by (simp only: key_stream_def length_take)
qed

lemma length_gcm_crypt [simp]: "length (gcm_crypt key nonce bs) = length bs"
  by (simp add: gcm_crypt_def)

lemma gcm_crypt_twice [simp]: "gcm_crypt key nonce (gcm_crypt key nonce bs) = bs"
  using xor_bytes_cancel [of bs "key_stream key nonce (length bs)"] by (simp add: gcm_crypt_def)

lemma length_gcm_tag [simp]: "length (gcm_tag key nonce c) = 16"
  by (simp add: gcm_tag_def Let_def)

lemma length_gcm_seal [simp]: "length (gcm_seal key nonce p) = length p + 16"
  by (simp add: gcm_seal_def Let_def)

lemma gcm_open_iff: "gcm_open key nonce ct = Some p \<longleftrightarrow> length p \<le> gcm_limit \<and> ct = gcm_seal key nonce p"
proof
  assume o: "gcm_open key nonce ct = Some p"
  let ?c = "take (length ct - 16) ct"
  from o have l: "16 \<le> length ct" "length ct \<le> gcm_limit + 16" and
    t: "drop (length ct - 16) ct = gcm_tag key nonce ?c" and p: "p = gcm_crypt key nonce ?c"
    by (simp_all add: gcm_open_def Let_def split: if_splits)
  from p have "gcm_crypt key nonce p = ?c" by simp
  with t have "gcm_seal key nonce p = ?c @ drop (length ct - 16) ct" by (simp add: gcm_seal_def Let_def)
  with l p show "length p \<le> gcm_limit \<and> ct = gcm_seal key nonce p" by simp
next
  assume "length p \<le> gcm_limit \<and> ct = gcm_seal key nonce p"
  then show "gcm_open key nonce ct = Some p"
    by (simp add: gcm_open_def Let_def gcm_seal_def)
qed

interpretation gcm: aead gcm_seal gcm_open gcm_limit 16
  by unfold_locales (simp_all add: gcm_open_iff)

end
