(* ===== verification/Base64.thy ===== *)
theory Base64
  imports Prelude
begin

text \<open>
  The standard library's \<^verbatim>\<open>base64.StdEncoding\<close>: it writes the generated key of
  \<^verbatim>\<open>crypto.GenerateKey\<close> and the \<open>[]byte\<close> fields of a JSON document. Decoding skips line
  breaks, demands the padding and does not look at the unused low bits of the last character.
\<close>

definition b64_char :: "nat \<Rightarrow> char" where
  "b64_char n =
     (if n < 26 then char_of (65 + n)
      else if n < 52 then char_of (71 + n)
      else if n < 62 then char_of (48 + (n - 52))
      else if n = 62 then CHR ''+'' else CHR ''/'')"

definition b64_value :: "char \<Rightarrow> nat option" where
  "b64_value c =
     (let n = of_char c in
      if 65 \<le> n \<and> n \<le> 90 then Some (n - 65)
      else if 97 \<le> n \<and> n \<le> 122 then Some (n - 71)
      else if 48 \<le> n \<and> n \<le> 57 then Some (n + 4)
      else if c = CHR ''+'' then Some 62
      else if c = CHR ''/'' then Some 63
      else None)"

definition b64_quad :: "nat \<Rightarrow> string" where
  "b64_quad x = map b64_char [x div 262144, x div 4096 mod 64, x div 64 mod 64, x mod 64]"

fun b64_encode :: "byte list \<Rightarrow> string" where
  "b64_encode [] = []"
| "b64_encode [a] = take 2 (b64_quad (unat a * 65536)) @ ''==''"
| "b64_encode [a, b] = take 3 (b64_quad (unat a * 65536 + unat b * 256)) @ ''=''"
| "b64_encode (a # b # c # bs) = b64_quad (unat a * 65536 + unat b * 256 + unat c) @ b64_encode bs"

definition b64_join :: "nat option list \<Rightarrow> nat option" where
  "b64_join vs = foldl (\<lambda>x v. case (x, v) of (Some a, Some b) \<Rightarrow> Some (64 * a + b) | _ \<Rightarrow> None) (Some 0) vs"

fun b64_decode_quads :: "string \<Rightarrow> byte list option" where
  "b64_decode_quads [] = Some []"
| "b64_decode_quads [a, b, c, d] =
     (if d = CHR ''='' then
        (if c = CHR ''='' then map_option (\<lambda>x. be_bytes 1 (x div 16)) (b64_join [b64_value a, b64_value b])
         else map_option (\<lambda>x. be_bytes 2 (x div 4)) (b64_join [b64_value a, b64_value b, b64_value c]))
      else map_option (be_bytes 3) (b64_join (map b64_value [a, b, c, d])))"
| "b64_decode_quads (a # b # c # d # s) =
     (case b64_join (map b64_value [a, b, c, d]) of
        Some x \<Rightarrow> map_option ((@) (be_bytes 3 x)) (b64_decode_quads s)
      | None \<Rightarrow> None)"
| "b64_decode_quads _ = None"

definition b64_decode :: "string \<Rightarrow> byte list option" where
  "b64_decode s = b64_decode_quads (filter (\<lambda>c. c \<noteq> CHR 0x0A \<and> c \<noteq> CHR 0x0D) s)"

section \<open>Decoding inverts encoding\<close>

lemma b64_value_char [simp]: "n < 64 \<Longrightarrow> b64_value (b64_char n) = Some n"
proof -
  assume n: "n < 64"
  consider "n < 26" | "26 \<le> n" "n < 52" | "52 \<le> n" "n < 62" | "n = 62" | "n = 63" using n by linarith
  then show ?thesis by cases (auto simp: b64_value_def b64_char_def Let_def)
qed

lemma b64_char_neq [simp]:
  assumes "n < 64"
  shows "b64_char n \<noteq> CHR ''=''" "b64_char n \<noteq> CHR 0x0A" "b64_char n \<noteq> CHR 0x0D"
proof -
  have "b64_value (CHR ''='') = None" "b64_value (CHR 0x0A) = None" "b64_value (CHR 0x0D) = None"
    by (simp_all add: b64_value_def Let_def)
  with b64_value_char [OF assms]
  show "b64_char n \<noteq> CHR ''=''" "b64_char n \<noteq> CHR 0x0A" "b64_char n \<noteq> CHR 0x0D"
    by (metis option.distinct(1))+
qed

lemma sextets:
  fixes x :: nat
  shows "64 * (64 * (64 * (x div 262144) + x div 4096 mod 64) + x div 64 mod 64) + x mod 64 = x"
proof -
  have "64 * (x div 262144) + x div 4096 mod 64 = x div 4096"
    using mult_div_mod_eq [of 64 "x div 4096"] by (simp add: div_mult2_eq [symmetric])
  moreover have "64 * (x div 4096) + x div 64 mod 64 = x div 64"
    using mult_div_mod_eq [of 64 "x div 64"] by (simp add: div_mult2_eq [symmetric])
  ultimately show ?thesis using mult_div_mod_eq [of 64 x] by simp
qed

lemma be_bytes_two [simp]:
  "be_bytes 2 (unat (a :: byte) * 256 + unat (b :: byte)) = [a, b]"
  using be_bytes_be_nat [of "[a, b]"] by (simp add: be_nat_def algebra_simps numeral_2_eq_2)

lemma be_bytes_three [simp]:
  "be_bytes 3 (unat (a :: byte) * 65536 + unat (b :: byte) * 256 + unat (c :: byte)) = [a, b, c]"
  using be_bytes_be_nat [of "[a, b, c]"] by (simp add: be_nat_def algebra_simps numeral_3_eq_3)

lemma be_bytes_one [simp]: "be_bytes 1 (unat (a :: byte)) = [a]"
  using be_bytes_be_nat [of "[a]"] by (simp add: be_nat_def)

lemma three_bytes_bound:
  "unat (a :: byte) * 65536 + unat (b :: byte) * 256 + unat (c :: byte) < 16777216"
  using unat_byte_less [of a] unat_byte_less [of b] unat_byte_less [of c] by linarith

lemma unat_byte_div [simp]: "unat (a :: byte) div 4 < 64"
  using unat_byte_less [of a] by linarith

lemma b64_decode_encode_quads: "b64_decode_quads (b64_encode bs) = Some bs"
proof (induction bs rule: b64_encode.induct)
  case 1
  then show ?case by simp
next
  case (2 a)
  let ?x = "unat a * 65536"
  have b: "unat a div 4 < 64" by (rule unat_byte_div)
  have j: "64 * (unat a div 4) + 16 * unat a mod 64 = 16 * unat a"
  proof -
    have "16 * unat a mod 64 = 16 * (unat a mod 4)" using mult_mod_right [of 16 "unat a" 4] by simp
    then show ?thesis using mult_div_mod_eq [of 4 "unat a"] by linarith
  qed
  show ?case using be_bytes_one [of a] by (simp add: b64_quad_def b64_join_def b j)
next
  case (3 a b)
  define y where "y = unat a * 256 + unat b"
  define x where "x = y * 256"
  have l: "x div 262144 < 64" using three_bytes_bound [of a b 0] by (simp add: x_def y_def algebra_simps)
  have "x mod 64 = 0" by (simp add: x_def)
  then have j: "(64 * (64 * (x div 262144) + x div 4096 mod 64) + x div 64 mod 64) div 4 = y"
    using sextets [of x] by (simp add: x_def)
  then have j: "(4096 * (x div 262144) + 64 * (x div 4096 mod 64) + x div 64 mod 64) div 4 = y"
    by (simp add: algebra_simps)
  have e: "b64_encode [a, b] = take 3 (b64_quad x) @ ''=''"
    by (simp add: x_def y_def algebra_simps)
  have y: "be_bytes 2 y = [a, b]" unfolding y_def by simp
  show ?case unfolding e by (simp add: b64_quad_def b64_join_def l j y)
next
  case (4 a b c bs)
  let ?x = "unat a * 65536 + unat b * 256 + unat c"
  have l: "?x div 262144 < 64" using three_bytes_bound [of a b c] by simp
  have q: "b64_join (map b64_value (b64_quad ?x)) = Some ?x"
    using sextets [of ?x] by (simp add: b64_quad_def b64_join_def l)
  show ?case
  proof (cases "b64_encode bs")
    case Nil
    then have "bs = []" by (cases bs rule: b64_encode.cases) (auto simp: b64_quad_def)
    with q show ?thesis by (simp add: b64_quad_def l)
  next
    case (Cons e es)
    with q 4 show ?thesis by (simp add: b64_quad_def l)
  qed
qed

lemma b64_encode_no_newline: "c \<in> set (b64_encode bs) \<Longrightarrow> c \<noteq> CHR 0x0A \<and> c \<noteq> CHR 0x0D"
proof (induction bs rule: b64_encode.induct)
  case (2 a)
  with unat_byte_div [of a] show ?case by (auto simp: b64_quad_def)
next
  case (3 a b)
  have "(unat a * 65536 + unat b * 256) div 262144 < 64" using three_bytes_bound [of a b 0] by simp
  with 3 show ?case by (auto simp: b64_quad_def)
next
  case (4 a b c bs)
  have "(unat a * 65536 + unat b * 256 + unat c) div 262144 < 64" using three_bytes_bound [of a b c] by simp
  with 4 show ?case by (auto simp: b64_quad_def)
qed simp

lemma b64_roundtrip [simp]: "b64_decode (b64_encode bs) = Some bs"
proof -
  have "filter (\<lambda>c. c \<noteq> CHR 0x0A \<and> c \<noteq> CHR 0x0D) (b64_encode bs) = b64_encode bs"
    by (rule filter_True) (use b64_encode_no_newline in blast)
  then show ?thesis by (simp add: b64_decode_def b64_decode_encode_quads)
qed

lemma length_b64_encode: "length (b64_encode bs) = 4 * ((length bs + 2) div 3)"
proof (induction bs rule: b64_encode.induct)
  case (4 a b c bs)
  have "(5 + length bs) div 3 = 1 + (length bs + 2) div 3" by presburger
  with 4 show ?case by (simp add: b64_quad_def)
qed (simp_all add: b64_quad_def)

end
