(* ===== verification/Crypto.thy ===== *)
theory Crypto
  imports AesGcm Base64
begin

text \<open>
  The model of \<^verbatim>\<open>pkg/crypto/crypto.go\<close>. \<open>rand.Reader\<close> is a \<open>reader\<close> that the functions
  take from, so an \<open>Encrypt\<close> also returns the entropy left. A message is the nonce followed by
  what GCM seals.
\<close>

definition ErrKeyTooShort :: goerror where
  "ErrKeyTooShort = ErrorS ''encryption key must be at least 32 characters''"

definition ErrDecryptFail :: goerror where
  "ErrDecryptFail = ErrorS ''decryption failed''"

definition DeriveKey :: "string \<Rightarrow> byte list result" where
  "DeriveKey key = (if length key = 0 then Err ErrKeyTooShort else Ok (Sum256 (bytes_of key)))"

definition GenerateKey :: "reader \<Rightarrow> string result \<times> reader" where
  "GenerateKey rnd =
     (case ReadFull 32 rnd of
        (Ok key, rnd') \<Rightarrow> (Ok (b64_encode key), rnd')
      | (Err e, rnd') \<Rightarrow> (Panic (PMessage (''crypto/rand failed: '' @ error_text e)), rnd')
      | (Panic p, rnd') \<Rightarrow> (Panic p, rnd'))"

text \<open>\<open>aes.NewCipher\<close> checks the key's length; \<open>cipher.NewGCM\<close> cannot fail on an AES block.\<close>

definition NewCipher :: "byte list \<Rightarrow> unit result" where
  "NewCipher key =
     (if length key \<in> {16, 24, 32} then Ok ()
      else Err (ErrorS (''crypto/aes: invalid key size '' @ show_nat (length key))))"

definition NonceSize :: nat where
  "NonceSize = 12"

text \<open>\<open>gcm.Seal\<close> panics beyond the length GCM allows.\<close>

definition Seal :: "byte list \<Rightarrow> byte list \<Rightarrow> byte list \<Rightarrow> byte list result" where
  "Seal key nonce plaintext =
     (if length plaintext > gcm_limit then Panic (PMessage ''crypto/cipher: message too large for GCM'')
      else Ok (nonce @ gcm_seal key nonce plaintext))"

definition Encrypt :: "byte list \<Rightarrow> byte list \<Rightarrow> reader \<Rightarrow> byte list result \<times> reader" where
  "Encrypt plaintext key rnd =
     (case NewCipher key of
        Err e \<Rightarrow> (Err e, rnd)
      | Panic p \<Rightarrow> (Panic p, rnd)
      | Ok _ \<Rightarrow>
          (case ReadFull NonceSize rnd of
             (Ok nonce, rnd') \<Rightarrow> (Seal key nonce plaintext, rnd')
           | (Err e, rnd') \<Rightarrow> (Err e, rnd')
           | (Panic p, rnd') \<Rightarrow> (Panic p, rnd')))"

definition Decrypt :: "byte list \<Rightarrow> byte list \<Rightarrow> byte list result" where
  "Decrypt ciphertext key =
     rbind (NewCipher key) (\<lambda>_.
       if length ciphertext < NonceSize then Err ErrDecryptFail
       else
         rbind (slice ciphertext 0 NonceSize) (\<lambda>nonce.
         rbind (slice ciphertext NonceSize (length ciphertext)) (\<lambda>sealed.
           case gcm_open key nonce sealed of
             Some plaintext \<Rightarrow> Ok plaintext
           | None \<Rightarrow> Err ErrDecryptFail)))"

section \<open>Keys\<close>

definition good_key :: "byte list \<Rightarrow> bool" where
  "good_key key \<longleftrightarrow> length key \<in> {16, 24, 32}"

lemma DeriveKey_cases: "DeriveKey key = (if key = [] then Err ErrKeyTooShort else Ok (Sum256 (bytes_of key)))"
  by (simp add: DeriveKey_def)

lemma DeriveKey_good: "DeriveKey s = Ok key \<Longrightarrow> good_key key"
  by (auto simp: DeriveKey_def good_key_def split: if_splits)

lemma NewCipher_good [simp]: "good_key key \<Longrightarrow> NewCipher key = Ok ()"
  by (simp add: good_key_def NewCipher_def)

lemma NewCipher_bad: "\<not> good_key key \<Longrightarrow> \<exists>e. NewCipher key = Err e"
  by (simp add: good_key_def NewCipher_def)

text \<open>
  A key is derived from every non-empty string, whatever its length, and always has the 32
  bytes AES-256 needs; only the empty string is refused, with the error that speaks of 32
  characters.
\<close>

theorem DeriveKey_total:
  "case DeriveKey s of
     Ok key \<Rightarrow> s \<noteq> [] \<and> length key = 32 \<and> NewCipher key = Ok ()
   | Err e \<Rightarrow> s = [] \<and> error_text e = ''encryption key must be at least 32 characters''
   | Panic p \<Rightarrow> False"
  by (simp add: DeriveKey_def ErrKeyTooShort_def NewCipher_def)

section \<open>Messages\<close>

text \<open>What is on the wire: a nonce of 12 bytes and what GCM seals under it.\<close>

definition message :: "byte list \<Rightarrow> byte list \<Rightarrow> byte list \<Rightarrow> byte list" where
  "message key nonce p = nonce @ gcm_seal key nonce p"

lemma Encrypt_OkD:
  assumes "Encrypt p key rnd = (Ok c, rnd')"
  shows "good_key key" "length p \<le> gcm_limit" "c = message key (take 12 (pending rnd)) p"
    "12 \<le> length (pending rnd)" "rnd' = rnd\<lparr>pending := drop 12 (pending rnd)\<rparr>"
proof -
  have g: "good_key key"
  proof (rule ccontr)
    assume "\<not> good_key key"
    from NewCipher_bad [OF this] assms show False by (auto simp: Encrypt_def)
  qed
  then show "good_key key" .
  from assms g show "length p \<le> gcm_limit" "c = message key (take 12 (pending rnd)) p"
    "12 \<le> length (pending rnd)" "rnd' = rnd\<lparr>pending := drop 12 (pending rnd)\<rparr>"
    by (auto simp: Encrypt_def ReadFull_def Seal_def message_def NonceSize_def split: if_splits)
qed

lemma Encrypt_Ok:
  "good_key key \<Longrightarrow> length p \<le> gcm_limit \<Longrightarrow> 12 \<le> length (pending rnd) \<Longrightarrow>
   Encrypt p key rnd = (Ok (message key (take 12 (pending rnd)) p), rnd\<lparr>pending := drop 12 (pending rnd)\<rparr>)"
  by (simp add: Encrypt_def ReadFull_def Seal_def message_def NonceSize_def)

lemma Decrypt_eq:
  "Decrypt c key =
     rbind (NewCipher key) (\<lambda>_.
       if length c < 12 then Err ErrDecryptFail
       else (case gcm_open key (take 12 c) (drop 12 c) of Some p \<Rightarrow> Ok p | None \<Rightarrow> Err ErrDecryptFail))"
  by (simp add: Decrypt_def slice_def NonceSize_def cong: if_cong)

lemma Decrypt_message:
  "good_key key \<Longrightarrow> length nonce = 12 \<Longrightarrow> length p \<le> gcm_limit \<Longrightarrow> Decrypt (message key nonce p) key = Ok p"
  by (simp add: Decrypt_eq message_def NonceSize_def gcm.unseal_seal)

lemma Decrypt_OkD:
  assumes "Decrypt c key = Ok p"
  shows "good_key key" "12 \<le> length c" "length p \<le> gcm_limit" "c = message key (take 12 c) p"
proof -
  have g: "good_key key"
  proof (rule ccontr)
    assume "\<not> good_key key"
    from NewCipher_bad [OF this] assms show False by (auto simp: Decrypt_eq)
  qed
  then show "good_key key" .
  from assms g have "12 \<le> length c" "gcm_open key (take 12 c) (drop 12 c) = Some p"
    by (auto simp: Decrypt_eq NonceSize_def Let_def split: if_splits option.splits)
  then show "12 \<le> length c" "length p \<le> gcm_limit" "c = message key (take 12 c) p"
    by (auto simp: message_def gcm.unseal_iff) (metis append_take_drop_id)
qed

lemma Decrypt_no_panic: "Decrypt c key \<noteq> Panic p"
  by (auto simp: Decrypt_eq NewCipher_def Let_def rbind_eq_Panic_iff split: option.splits if_splits)

text \<open>
  C32: What \<open>Encrypt\<close> makes, \<open>Decrypt\<close> with the same key gives back, for every plaintext,
  key and nonce; the message is 28 bytes longer, starts with 12 fresh bytes of the random
  source, and nothing but the random source changes.
\<close>

theorem Decrypt_Encrypt:
  assumes "Encrypt p key rnd = (Ok c, rnd')"
  shows "Decrypt c key = Ok p \<and> length c = length p + 28 \<and> pending rnd = take 12 c @ pending rnd'"
  using Encrypt_OkD [OF assms] Decrypt_message by (simp add: message_def)

text \<open>
  Encryption with a key of a valid length fails only when the random source does, and panics
  only beyond the 64 GiB that GCM allows.
\<close>

theorem Encrypt_outcome:
  "Encrypt p key rnd =
     (if \<not> good_key key then (Err (ErrorS (''crypto/aes: invalid key size '' @ show_nat (length key))), rnd)
      else if length (pending rnd) < 12 then
        (Err (if closing rnd = EOF \<and> pending rnd \<noteq> [] then UnexpectedEOF else closing rnd), rnd\<lparr>pending := []\<rparr>)
      else
        (if length p \<le> 68719476704 then Ok (take 12 (pending rnd) @ gcm_seal key (take 12 (pending rnd)) p)
         else Panic (PMessage ''crypto/cipher: message too large for GCM''),
         rnd\<lparr>pending := drop 12 (pending rnd)\<rparr>))"
  by (simp add: Encrypt_def NewCipher_def good_key_def ReadFull_def Seal_def NonceSize_def gcm_limit_def)

lemma Decrypt_fails_iff:
  "Decrypt c key = Err ErrDecryptFail \<longleftrightarrow>
     good_key key \<and> \<not> (\<exists>q nonce. length q \<le> gcm_limit \<and> length nonce = 12 \<and> c = nonce @ gcm_seal key nonce q)"
proof (cases "good_key key")
  case True
  have "Decrypt c key = Err ErrDecryptFail \<longleftrightarrow> (\<forall>q. Decrypt c key \<noteq> Ok q)"
    using True by (auto simp: Decrypt_eq Let_def split: option.splits)
  also have "\<dots> \<longleftrightarrow> \<not> (\<exists>q nonce. length q \<le> gcm_limit \<and> length nonce = 12 \<and> c = nonce @ gcm_seal key nonce q)"
    using True Decrypt_message Decrypt_OkD(3,4) Decrypt_OkD(2)
    by (auto simp: message_def) (metis length_take min.absorb2)
  finally show ?thesis using True by simp
next
  case False
  then have "Decrypt c key \<noteq> Err ErrDecryptFail"
    by (auto simp: Decrypt_eq NewCipher_def good_key_def ErrDecryptFail_def)
  with False show ?thesis by simp
qed

lemma Decrypt_Ok_iff: "Decrypt c key = Ok p \<longleftrightarrow> (\<exists>rnd rnd'. Encrypt p key rnd = (Ok c, rnd'))"
proof
  assume "Decrypt c key = Ok p"
  from Decrypt_OkD [OF this] Encrypt_Ok [of key p "\<lparr>pending = c, closing = EOF\<rparr>"]
  show "\<exists>rnd rnd'. Encrypt p key rnd = (Ok c, rnd')" by auto
next
  assume "\<exists>rnd rnd'. Encrypt p key rnd = (Ok c, rnd')"
  then show "Decrypt c key = Ok p" using Encrypt_OkD Decrypt_message by (metis length_take min.absorb2)
qed

text \<open>
  C33: \<open>Decrypt\<close> gives a plaintext exactly when \<open>Encrypt\<close> can make the text from it with the same
  key and some random bytes. With a key of a valid length every other text (too short, another
  key's, one with a changed byte in ciphertext or tag) fails with \<open>ErrDecryptFail\<close>; with any other
  key the error names its length. No text makes it panic.
\<close>

theorem Decrypt_iff:
  "(Decrypt c key = Ok p \<longleftrightarrow> (\<exists>rnd rnd'. Encrypt p key rnd = (Ok c, rnd')))
   \<and> (Decrypt c key = Err ErrDecryptFail \<longleftrightarrow>
        length key \<in> {16, 24, 32} \<and> \<not> (\<exists>q rnd rnd'. Encrypt q key rnd = (Ok c, rnd')))
   \<and> (Decrypt c key = Err (ErrorS (''crypto/aes: invalid key size '' @ show_nat (length key))) \<longleftrightarrow>
        length key \<notin> {16, 24, 32})
   \<and> \<not> is_panic (Decrypt c key)"
proof (cases "good_key key")
  case True
  then have "Decrypt c key = Err ErrDecryptFail \<or> (\<exists>q. Decrypt c key = Ok q)"
    by (simp add: Decrypt_eq split: option.split)
  moreover define e where "e = ErrorS (''crypto/aes: invalid key size '' @ show_nat (length key))"
  moreover have "e \<noteq> ErrDecryptFail" by (simp add: e_def ErrDecryptFail_def)
  ultimately show ?thesis
    using True unfolding Decrypt_Ok_iff [symmetric] good_key_def e_def [symmetric] by auto
next
  case False
  then have "Decrypt c key = Err (ErrorS (''crypto/aes: invalid key size '' @ show_nat (length key)))"
    by (simp add: Decrypt_eq NewCipher_def good_key_def)
  with False show ?thesis
    unfolding Decrypt_Ok_iff [symmetric] good_key_def by (simp add: ErrDecryptFail_def)
qed

text \<open>
  A generated key is the 44 characters that encode 32 random bytes.
\<close>

theorem GenerateKey_spec:
  assumes "GenerateKey rnd = (Ok s, rnd')"
  shows "length s = 44 \<and> map_option (\<lambda>k. k @ pending rnd') (b64_decode s) = Some (pending rnd)"
  using assms by (auto simp: GenerateKey_def ReadFull_Ok_iff length_b64_encode split: prod.splits result.splits)

section \<open>Witnesses\<close>

definition example_key :: "byte list" where
  "example_key = replicate 32 7"

definition example_entropy :: reader where
  "example_entropy = \<lparr>pending = replicate 32 1, closing = EOF\<rparr>"

lemma good_example_key [simp]: "good_key example_key"
  by (simp add: good_key_def example_key_def)

theorem Decrypt_Encrypt_witness:
  "Decrypt (replicate 12 1 @ gcm_seal example_key (replicate 12 1) (bytes_of ''hi'')) example_key =
   Ok (bytes_of ''hi'')"
proof -
  have "Encrypt (bytes_of ''hi'') example_key example_entropy =
    (Ok (replicate 12 1 @ gcm_seal example_key (replicate 12 1) (bytes_of ''hi'')),
     example_entropy\<lparr>pending := replicate 20 1\<rparr>)"
    by (simp add: Encrypt_Ok example_entropy_def gcm_limit_def message_def)
  from Decrypt_Encrypt [OF this] show ?thesis by simp
qed

theorem GenerateKey_spec_witness:
  "length (b64_encode (replicate 32 1)) = 44"
proof -
  have "GenerateKey example_entropy = (Ok (b64_encode (replicate 32 1)), example_entropy\<lparr>pending := []\<rparr>)"
    by (simp add: GenerateKey_def ReadFull_def example_entropy_def)
  from GenerateKey_spec [OF this] show ?thesis by blast
qed

end
