(* ===== verification/Messages.thy ===== *)
theory Messages
  imports Json Crypto
begin

text \<open>
  The JSON messages between the proxies and the server: \<open>QueryRequest\<close> and \<open>QueryResponse\<close> of
  \<^verbatim>\<open>pkg/handler/types.go\<close> with the proxies' copies of them, what \<^verbatim>\<open>json.Marshal\<close> writes for
  each and how \<^verbatim>\<open>json.Unmarshal\<close> fills them from a document. A \<open>nil\<close> slice and an empty one are
  the same list: both are left out by \<open>omitempty\<close>, and the code looks only at lengths.
\<close>

record QueryRequest =
  Type :: byte
  SQL :: string
  Raw :: "byte list"

record QueryResponse =
  Columns :: "string list"
  Rows :: "string list list"
  RowsAffected :: int
  Error :: string

section \<open>Marshal\<close>

definition json_int :: "int \<Rightarrow> json" where
  "json_int i = JNum (fmt_d i)"

definition json_strings :: "string list \<Rightarrow> json" where
  "json_strings ss = JArr (map JStr ss)"

text \<open>A field tagged \<open>omitempty\<close>.\<close>

definition omitempty :: "bool \<Rightarrow> string \<Rightarrow> json \<Rightarrow> (string \<times> json) list" where
  "omitempty is_empty k v = (if is_empty then [] else [(k, v)])"

definition request_json :: "QueryRequest \<Rightarrow> json" where
  "request_json r =
     JObj ([(''type'', json_int (uint (Type r))), (''sql'', JStr (SQL r))] @
           omitempty (Raw r = []) ''raw'' (JStr (b64_encode (Raw r))))"

text \<open>The request of \<^verbatim>\<open>pkg/mysqlproxy\<close> has no raw payload.\<close>

definition my_request_json :: "byte \<Rightarrow> string \<Rightarrow> json" where
  "my_request_json t sql = JObj [(''type'', json_int (uint t)), (''sql'', JStr sql)]"

definition response_json :: "QueryResponse \<Rightarrow> json" where
  "response_json r =
     JObj (omitempty (Columns r = []) ''columns'' (json_strings (Columns r)) @
           omitempty (Rows r = []) ''rows'' (JArr (map json_strings (Rows r))) @
           [(''rows_affected'', json_int (RowsAffected r))] @
           omitempty (Error r = []) ''error'' (JStr (Error r)))"

definition Marshal :: "json \<Rightarrow> byte list" where
  "Marshal v = bytes_of (render v)"

section \<open>Unmarshal\<close>

text \<open>
  Field names match up to Unicode case folding; the two characters outside ASCII that fold to
  letters are U+017F and U+212A.
\<close>

fun fold_name :: "string \<Rightarrow> string" where
  "fold_name [] = []"
| "fold_name (c # s) =
     (if 97 \<le> (of_char c :: nat) \<and> of_char c \<le> (122 :: nat) then char_of (of_char c - 32 :: nat) # fold_name s
      else if c = CHR 0xC5 \<and> take 1 s = [CHR 0xBF] then CHR ''S'' # fold_name (drop 1 s)
      else if c = CHR 0xE2 \<and> take 2 s = [CHR 0x84, CHR 0xAA] then CHR ''K'' # fold_name (drop 2 s)
      else c # fold_name s)"

definition names :: "string \<Rightarrow> string \<Rightarrow> bool" where
  "names k field \<longleftrightarrow> fold_name k = fold_name field"

text \<open>
  Setting a Go value from a JSON value: \<open>null\<close> leaves a number or a string as it is and empties
  a slice, an element of an array is set into the one already there; \<open>None\<close> is a type error.
\<close>

definition parse_int :: "string \<Rightarrow> int option" where
  "parse_int s =
     (let ds = (case s of c # r \<Rightarrow> if c = CHR ''-'' then r else s | [] \<Rightarrow> s) in
      if ds = [] \<or> \<not> list_all is_digit ds then None
      else Some (if ds = s then int (digits_value ds) else - int (digits_value ds)))"

definition set_int :: "int \<Rightarrow> int \<Rightarrow> json \<Rightarrow> int \<Rightarrow> int option" where
  "set_int lo hi v old =
     (case v of
        JNull \<Rightarrow> Some old
      | JNum s \<Rightarrow>
          (case parse_int s of
             Some i \<Rightarrow> if lo \<le> i \<and> i \<le> hi then Some i else None
           | None \<Rightarrow> None)
      | _ \<Rightarrow> None)"

text \<open>A \<open>byte\<close>: the literal of an unsigned integer has no sign.\<close>

definition set_byte :: "json \<Rightarrow> byte \<Rightarrow> byte option" where
  "set_byte v old =
     (case v of
        JNull \<Rightarrow> Some old
      | JNum s \<Rightarrow>
          if list_all is_digit s \<and> digits_value s < 256 then Some (word_of_nat (digits_value s)) else None
      | _ \<Rightarrow> None)"

definition set_string :: "json \<Rightarrow> string \<Rightarrow> string option" where
  "set_string v old = (case v of JNull \<Rightarrow> Some old | JStr s \<Rightarrow> Some s | _ \<Rightarrow> None)"

primrec set_elements :: "(json \<Rightarrow> 'a \<Rightarrow> 'a option) \<Rightarrow> 'a \<Rightarrow> json list \<Rightarrow> 'a list \<Rightarrow> 'a list option" where
  "set_elements f z [] old = Some []"
| "set_elements f z (v # vs) old =
     (case f v (case old of [] \<Rightarrow> z | x # _ \<Rightarrow> x) of
        None \<Rightarrow> None
      | Some x \<Rightarrow> map_option (Cons x) (set_elements f z vs (tl old)))"

definition set_slice :: "(json \<Rightarrow> 'a \<Rightarrow> 'a option) \<Rightarrow> 'a \<Rightarrow> json \<Rightarrow> 'a list \<Rightarrow> 'a list option" where
  "set_slice f z v old =
     (case v of JNull \<Rightarrow> Some [] | JArr vs \<Rightarrow> set_elements f z vs old | _ \<Rightarrow> None)"

definition set_bytes :: "json \<Rightarrow> byte list \<Rightarrow> byte list option" where
  "set_bytes v old = (case v of JStr s \<Rightarrow> b64_decode s | _ \<Rightarrow> set_slice set_byte 0 v old)"

definition set_request_field :: "string \<times> json \<Rightarrow> QueryRequest \<Rightarrow> QueryRequest option" where
  "set_request_field kv r =
     (case kv of (k, v) \<Rightarrow>
        if names k ''type'' then map_option (\<lambda>x. r\<lparr>Type := x\<rparr>) (set_byte v (Type r))
        else if names k ''sql'' then map_option (\<lambda>x. r\<lparr>SQL := x\<rparr>) (set_string v (SQL r))
        else if names k ''raw'' then map_option (\<lambda>x. r\<lparr>Raw := x\<rparr>) (set_bytes v (Raw r))
        else Some r)"

definition set_response_field :: "string \<times> json \<Rightarrow> QueryResponse \<Rightarrow> QueryResponse option" where
  "set_response_field kv r =
     (case kv of (k, v) \<Rightarrow>
        if names k ''columns'' then map_option (\<lambda>x. r\<lparr>Columns := x\<rparr>) (set_slice set_string [] v (Columns r))
        else if names k ''rows'' then
          map_option (\<lambda>x. r\<lparr>Rows := x\<rparr>) (set_slice (set_slice set_string []) [] v (Rows r))
        else if names k ''rows_affected'' then
          map_option (\<lambda>x. r\<lparr>RowsAffected := x\<rparr>) (set_int (- (2 ^ 63)) (2 ^ 63 - 1) v (RowsAffected r))
        else if names k ''error'' then map_option (\<lambda>x. r\<lparr>Error := x\<rparr>) (set_string v (Error r))
        else Some r)"

primrec set_fields :: "(string \<times> json \<Rightarrow> 'r \<Rightarrow> 'r option) \<Rightarrow> (string \<times> json) list \<Rightarrow> 'r \<Rightarrow> 'r option" where
  "set_fields f [] r = Some r"
| "set_fields f (kv # kvs) r = (case f kv r of None \<Rightarrow> None | Some r' \<Rightarrow> set_fields f kvs r')"

text \<open>\<open>json.Unmarshal\<close> into a struct that holds \<open>r\<close>; the texts of its errors are not modelled.\<close>

definition json_syntax_error :: goerror where
  "json_syntax_error = ErrorS ''invalid JSON document''"

definition json_type_error :: goerror where
  "json_type_error = ErrorS ''json: cannot unmarshal''"

definition Unmarshal :: "(string \<times> json \<Rightarrow> 'r \<Rightarrow> 'r option) \<Rightarrow> byte list \<Rightarrow> 'r \<Rightarrow> 'r result" where
  "Unmarshal f bs r =
     (case parse (string_of bs) of
        None \<Rightarrow> Err json_syntax_error
      | Some JNull \<Rightarrow> Ok r
      | Some (JObj kvs) \<Rightarrow> (case set_fields f kvs r of None \<Rightarrow> Err json_type_error | Some r' \<Rightarrow> Ok r')
      | Some _ \<Rightarrow> Err json_type_error)"

definition empty_request :: QueryRequest where
  "empty_request = \<lparr>Type = 0, SQL = [], Raw = []\<rparr>"

definition empty_response :: QueryResponse where
  "empty_response = \<lparr>Columns = [], Rows = [], RowsAffected = 0, Error = []\<rparr>"

definition Unmarshal_request :: "byte list \<Rightarrow> QueryRequest result" where
  "Unmarshal_request bs = Unmarshal set_request_field bs empty_request"

definition Unmarshal_response :: "byte list \<Rightarrow> QueryResponse result" where
  "Unmarshal_response bs = Unmarshal set_response_field bs empty_response"

section \<open>Messages come back\<close>

lemma Unmarshal_no_panic [simp]: "Unmarshal f bs r \<noteq> Panic p"
proof (cases "parse (string_of bs)")
  case (Some v)
  then show ?thesis by (cases v) (simp_all add: Unmarshal_def split: option.split)
qed (simp add: Unmarshal_def)

lemma ascii_to_valid: "list_all (\<lambda>c. of_char c < (0x80 :: nat)) s \<Longrightarrow> to_valid s = s"
  using valid_utf8_ascii by (simp add: valid_utf8_def)

lemma b64_char_ascii [simp]: "of_char (b64_char (n mod 64)) < (0x80 :: nat)"
proof -
  have "n mod 64 < 64" by simp
  then show ?thesis by (auto simp: b64_char_def)
qed

lemma b64_quad_ascii: "x < 16777216 \<Longrightarrow> list_all (\<lambda>c. of_char c < (0x80 :: nat)) (b64_quad x)"
proof -
  assume "x < 16777216"
  then have "x div 262144 < 64" by simp
  then have "x div 262144 = x div 262144 mod 64" by simp
  then show ?thesis using b64_char_ascii [of "x div 262144"] by (simp add: b64_quad_def)
qed

lemma list_all_take: "list_all P xs \<Longrightarrow> list_all P (take n xs)"
  by (auto simp: list_all_iff dest: in_set_takeD)

lemma b64_encode_ascii: "list_all (\<lambda>c. of_char c < (0x80 :: nat)) (b64_encode bs)"
proof (induction bs rule: b64_encode.induct)
  case (2 a)
  have "list_all (\<lambda>c. of_char c < (0x80 :: nat)) (b64_quad (unat a * 65536))"
    using three_bytes_bound [of a 0 0] by (simp add: b64_quad_ascii)
  then have "list_all (\<lambda>c. of_char c < (0x80 :: nat)) (take 2 (b64_quad (unat a * 65536)))"
    by (rule list_all_take)
  then show ?case by simp
next
  case (3 a b)
  have "list_all (\<lambda>c. of_char c < (0x80 :: nat)) (b64_quad (unat a * 65536 + unat b * 256))"
    using three_bytes_bound [of a b 0] by (simp add: b64_quad_ascii)
  then have "list_all (\<lambda>c. of_char c < (0x80 :: nat)) (take 3 (b64_quad (unat a * 65536 + unat b * 256)))"
    by (rule list_all_take)
  then show ?case by simp
next
  case (4 a b c bs)
  then show ?case using three_bytes_bound [of a b c] by (simp add: b64_quad_ascii)
qed simp

lemma to_valid_b64 [simp]: "to_valid (b64_encode bs) = b64_encode bs"
  by (rule ascii_to_valid) (rule b64_encode_ascii)

lemma parse_int_fmt_d [simp]: "parse_int (fmt_d i) = Some i"
proof (cases "i < 0")
  case True
  have "show_nat (nat (- i)) \<noteq> CHR ''-'' # show_nat (nat (- i))" by simp
  with True show ?thesis by (simp add: parse_int_def fmt_d_def show_nat_digits)
next
  case False
  obtain c ds where c: "show_nat (nat i) = c # ds" "c \<noteq> CHR ''-''"
    using hd_show_nat_digit [of "nat i"] is_digit_minus by (metis list.collapse show_nat_neq_Nil)
  moreover have "list_all is_digit (c # ds)" "digits_value (c # ds) = nat i"
    using show_nat_digits [of "nat i"] digits_value_show_nat [of "nat i"] c by simp_all
  ultimately show ?thesis using False by (simp add: parse_int_def fmt_d_def)
qed

lemma set_byte_fmt_d [simp]: "set_byte (JNum (fmt_d (uint b))) old = Some b"
  by (simp add: set_byte_def fmt_d_def show_nat_digits)

lemma set_strings [simp]: "set_elements set_string z (map (\<lambda>s. JStr (f s)) ss) [] = Some (map f ss)"
  by (induction ss) (simp_all add: set_string_def)

lemma set_rows [simp]:
  "set_elements (set_slice set_string z) [] (map (\<lambda>ss. JArr (map (\<lambda>s. JStr (f s)) ss)) rows) [] =
   Some (map (map f) rows)"
  by (induction rows) (simp_all add: set_slice_def)

lemma names_simps [simp]: "names k k"
  "\<not> names ''sql'' ''type''" "\<not> names ''raw'' ''type''" "\<not> names ''raw'' ''sql''"
  "\<not> names ''rows'' ''columns''" "\<not> names ''rows_affected'' ''columns''" "\<not> names ''rows_affected'' ''rows''"
  "\<not> names ''error'' ''columns''" "\<not> names ''error'' ''rows''" "\<not> names ''error'' ''rows_affected''"
  by (simp_all add: names_def)

lemma valid_names [simp]:
  "to_valid ''type'' = ''type''" "to_valid ''sql'' = ''sql''" "to_valid ''raw'' = ''raw''"
  "to_valid ''columns'' = ''columns''" "to_valid ''rows'' = ''rows''"
  "to_valid ''rows_affected'' = ''rows_affected''" "to_valid ''error'' = ''error''"
  by (simp_all add: ascii_to_valid)

lemma parse_Marshal:
  "int_numbers v \<Longrightarrow> depth (clean v) \<le> 10000 \<Longrightarrow> parse (string_of (Marshal v)) = Some (clean v)"
  by (simp add: Marshal_def parse_render max_depth_def)

definition valid_request :: "QueryRequest \<Rightarrow> QueryRequest" where
  "valid_request r = r\<lparr>SQL := to_valid (SQL r)\<rparr>"

definition valid_response :: "QueryResponse \<Rightarrow> QueryResponse" where
  "valid_response r =
     r\<lparr>Columns := map to_valid (Columns r), Rows := map (map to_valid) (Rows r), Error := to_valid (Error r)\<rparr>"

definition in_int64 :: "int \<Rightarrow> bool" where
  "in_int64 i \<longleftrightarrow> - (2 ^ 63) \<le> i \<and> i \<le> 2 ^ 63 - 1"

lemma in_int64_0 [simp]: "in_int64 0"
  by (simp add: in_int64_def)

lemma to_valid_eq_Nil [simp]: "to_valid s = [] \<longleftrightarrow> s = []"
proof (cases s)
  case (Cons a u)
  have "encode_rune r \<noteq> []" for r by (simp add: encode_rune_def)
  then show ?thesis by (simp add: Cons to_valid.simps(2) split: prod.split)
qed simp

lemma Unmarshal_request_Marshal: "Unmarshal_request (Marshal (request_json r)) = Ok (valid_request r)"
proof -
  have "parse (string_of (Marshal (request_json r))) = Some (clean (request_json r))"
    by (rule parse_Marshal) (auto simp: request_json_def omitempty_def json_int_def)
  then show ?thesis
    by (cases r) (auto simp: Unmarshal_request_def Unmarshal_def request_json_def omitempty_def json_int_def
        set_request_field_def set_string_def set_bytes_def empty_request_def valid_request_def)
qed

lemma my_request_roundtrip:
  "Unmarshal_request (Marshal (my_request_json t sql)) = Ok \<lparr>Type = t, SQL = to_valid sql, Raw = []\<rparr>"
proof -
  have "parse (string_of (Marshal (my_request_json t sql))) = Some (clean (my_request_json t sql))"
    by (rule parse_Marshal) (auto simp: my_request_json_def json_int_def)
  then show ?thesis
    by (simp add: Unmarshal_request_def Unmarshal_def my_request_json_def json_int_def
        set_request_field_def set_string_def empty_request_def)
qed

lemma fold_max_const: "(\<forall>x \<in> set xs. x = (k :: nat)) \<Longrightarrow> a \<le> k \<Longrightarrow> fold max xs a \<le> k"
  by (induction xs arbitrary: a) auto

lemma depth_json_strings [simp]: "depth (clean (json_strings ss)) = Suc 0"
proof -
  have "fold max (map (depth \<circ> (clean \<circ> JStr)) ss) 0 \<le> 0" by (rule fold_max_const) auto
  then show ?thesis by (simp add: json_strings_def)
qed

lemma depth_rows: "depth (clean (JArr (map json_strings rows))) \<le> 2"
proof -
  have "fold max (map (depth \<circ> (clean \<circ> json_strings)) rows) 0 \<le> 1" by (rule fold_max_const) auto
  then show ?thesis by simp
qed

lemma int_numbers_strings [simp]: "int_numbers (json_strings ss)"
  by (simp add: json_strings_def list_all_iff)

lemma Unmarshal_response_Marshal:
  assumes "in_int64 (RowsAffected r)"
  shows "Unmarshal_response (Marshal (response_json r)) = Ok (valid_response r)"
proof -
  have "depth (clean (response_json r)) \<le> 3"
    using depth_rows [of "Rows r"] by (simp add: response_json_def omitempty_def json_int_def)
  moreover have "int_numbers (response_json r)"
    by (auto simp: response_json_def omitempty_def json_int_def list_all_iff)
  ultimately have p: "parse (string_of (Marshal (response_json r))) = Some (clean (response_json r))"
    by (intro parse_Marshal) simp_all
  have [simp]: "clean (json_strings ss) = JArr (map (\<lambda>s. JStr (to_valid s)) ss)" for ss
    by (simp add: json_strings_def)
  have rows: "set_slice (set_slice set_string []) [] (JArr (map (clean \<circ> json_strings) (Rows r))) [] =
    Some (map (map to_valid) (Rows r))"
    by (simp add: set_slice_def comp_def)
  show ?thesis
    using p rows assms unfolding in_int64_def
    by (cases r) (auto simp: Unmarshal_response_def Unmarshal_def response_json_def omitempty_def json_int_def
        set_response_field_def set_string_def set_slice_def set_int_def empty_response_def comp_def
        valid_response_def)
qed

section \<open>Messages over the encrypted channel\<close>

text \<open>
  What one side marshals and encrypts, the other decrypts and unmarshals: the contract of a
  message format on the channel, over the value \<open>norm x\<close> that arrives for \<open>x\<close>.
\<close>

locale sealed_codec =
  fixes enc :: "'a \<Rightarrow> byte list" and dec :: "byte list \<Rightarrow> 'b result" and norm :: "'a \<Rightarrow> 'b" and ok :: "'a \<Rightarrow> bool"
  assumes dec_enc: "ok x \<Longrightarrow> dec (enc x) = Ok (norm x)"
begin

lemma exchange:
  "Encrypt (enc x) key rnd = (Ok c, rnd') \<Longrightarrow> ok x \<Longrightarrow> rbind (Decrypt c key) dec = Ok (norm x)"
  using Encrypt_OkD [of "enc x" key rnd c rnd'] by (simp add: Decrypt_message dec_enc)

lemma received:
  "Decrypt c key = Ok (enc x) \<Longrightarrow> ok x \<Longrightarrow> rbind (Decrypt c key) dec = Ok (norm x)"
  by (simp add: dec_enc)

lemma same_arrival:
  "ok x \<Longrightarrow> ok y \<Longrightarrow> enc x = enc y \<Longrightarrow> norm x = norm y"
  by (metis dec_enc result.inject(1))

end

interpretation request_codec: sealed_codec "\<lambda>r. Marshal (request_json r)" Unmarshal_request valid_request "\<lambda>_. True"
  by unfold_locales (simp add: Unmarshal_request_Marshal)

interpretation my_request_codec: sealed_codec "\<lambda>(t, sql). Marshal (my_request_json t sql)" Unmarshal_request
    "\<lambda>(t, sql). \<lparr>Type = t, SQL = to_valid sql, Raw = []\<rparr>" "\<lambda>_. True"
  by unfold_locales (auto simp: my_request_roundtrip)

interpretation response_codec: sealed_codec "\<lambda>r. Marshal (response_json r)" Unmarshal_response valid_response
    "\<lambda>r. in_int64 (RowsAffected r)"
  by unfold_locales (simp add: Unmarshal_response_Marshal)

text \<open>
  The server reads from the request a PostgreSQL proxy marshals and encrypts exactly the
  message type, the SQL text and the raw payload the proxy put in; bytes of the SQL that are not
  UTF-8 arrive as U+FFFD, and only those.
\<close>

theorem request_over_channel:
  assumes "Encrypt (Marshal (request_json r)) key rnd = (Ok c, rnd')"
  shows "rbind (Decrypt c key) Unmarshal_request = Ok (r\<lparr>SQL := to_valid (SQL r)\<rparr>)"
  using request_codec.exchange [OF assms] by (simp add: valid_request_def)

text \<open>
  A proxy reads from the response the server marshals and encrypts exactly the columns,
  rows, row count and error the server put in, bytes that are not UTF-8 replaced by U+FFFD.
\<close>

theorem response_over_channel:
  assumes "Encrypt (Marshal (response_json r)) key rnd = (Ok c, rnd')"
    and "- (2 ^ 63) \<le> RowsAffected r" "RowsAffected r < 2 ^ 63"
  shows "rbind (Decrypt c key) Unmarshal_response =
    Ok (r\<lparr>Columns := map to_valid (Columns r), Rows := map (map to_valid) (Rows r),
         Error := to_valid (Error r)\<rparr>)"
  using response_codec.exchange [OF assms(1)] assms(2,3) by (simp add: valid_response_def in_int64_def)

section \<open>Witnesses\<close>

definition example_request :: QueryRequest where
  "example_request = \<lparr>Type = 81, SQL = ''SELECT 1 < 2'', Raw = [83, 0]\<rparr>"

definition example_response :: QueryResponse where
  "example_response = \<lparr>Columns = [''a''], Rows = [[''x & y''], [''NULL'']], RowsAffected = 0, Error = []\<rparr>"

lemma b64_example: "b64_encode [83, 0] = ''UwA=''"
  by (simp add: b64_quad_def b64_char_def char_of_def bit_0)

lemma length_example_request: "length (Marshal (request_json example_request)) \<le> gcm_limit"
  by (simp add: Marshal_def request_json_def example_request_def omitempty_def json_int_def render_string_def
      escape_string.simps(2) escape_char_def b64_example fmt_d_def show_nat.simps gcm_limit_def
      del: b64_encode.simps)

lemma length_example_response: "length (Marshal (response_json example_response)) \<le> gcm_limit"
  by (simp add: Marshal_def response_json_def example_response_def omitempty_def json_int_def json_strings_def
      render_string_def escape_string.simps(2) escape_char_def fmt_d_def show_nat.simps gcm_limit_def)

theorem request_over_channel_witness:
  "rbind (Decrypt (message example_key (replicate 12 1) (Marshal (request_json example_request))) example_key)
     Unmarshal_request = Ok example_request"
proof -
  have "Encrypt (Marshal (request_json example_request)) example_key example_entropy =
    (Ok (message example_key (replicate 12 1) (Marshal (request_json example_request))),
     example_entropy\<lparr>pending := replicate 20 1\<rparr>)"
    using length_example_request by (simp add: Encrypt_Ok example_entropy_def)
  from request_over_channel [OF this] show ?thesis by (simp add: example_request_def ascii_to_valid)
qed

theorem response_over_channel_witness:
  "rbind (Decrypt (message example_key (replicate 12 1) (Marshal (response_json example_response))) example_key)
     Unmarshal_response = Ok example_response"
proof -
  have "Encrypt (Marshal (response_json example_response)) example_key example_entropy =
    (Ok (message example_key (replicate 12 1) (Marshal (response_json example_response))),
     example_entropy\<lparr>pending := replicate 20 1\<rparr>)"
    using length_example_response by (simp add: Encrypt_Ok example_entropy_def)
  from response_over_channel [OF this] show ?thesis by (simp add: example_response_def ascii_to_valid)
qed

end
