(* ===== verification/Handler.thy ===== *)
theory Handler
  imports SqlCommand PoolCore Messages
begin

text \<open>
  The model of \<^verbatim>\<open>pkg/handler/handler.go\<close>, the server's core: sessions, the statement cache of
  the extended query protocol, the routing of SQL to a pool's query or command method, and the
  encrypted JSON exchange around it. The two pools are \<open>Pool\<close> records over states of their own;
  a session's entry in \<open>sessionPools\<close> says which of the two holds its connection. The random
  source and the id that \<^verbatim>\<open>uuid.New\<close> makes are inputs. One call is one step: the locks of the
  code protect its maps, and this model does not interleave two calls.
\<close>

section \<open>The handler\<close>

datatype pool_ref = UsePg | UseMy

record ('p, 'm) Handler =
  pgPool :: 'p
  mysqlPool :: "'m option"
  encKey :: "byte list"
  stmts :: "string \<Rightarrow> string option"
  sessionPools :: "string \<Rightarrow> pool_ref option"
  entropy :: reader

record ('p, 'm) pools =
  pg_ops :: "'p Pool"
  my_ops :: "'m Pool"

definition NewHandler :: "'p \<Rightarrow> 'm option \<Rightarrow> string \<Rightarrow> reader \<Rightarrow> ('p, 'm) Handler result" where
  "NewHandler pg my key rnd =
     rbind (wrap_err ''derive key'' (DeriveKey key)) (\<lambda>k.
       Ok \<lparr>pgPool = pg, mysqlPool = my, encKey = k, stmts = Map.empty, sessionPools = Map.empty, entropy = rnd\<rparr>)"

section \<open>Calls on a pool\<close>

text \<open>A method of the pool a reference names; \<open>UseMy\<close> is only recorded when there is one.\<close>

definition pool_acquire :: "('p, 'm) pools \<Rightarrow> pool_ref \<Rightarrow> string \<Rightarrow> ('p, 'm) Handler \<Rightarrow> unit result \<times> ('p, 'm) Handler" where
  "pool_acquire I ref sid h =
     (case ref of
        UsePg \<Rightarrow> (case AcquireSession (pg_ops I) sid (pgPool h) of (r, p) \<Rightarrow> (r, h\<lparr>pgPool := p\<rparr>))
      | UseMy \<Rightarrow>
          (case mysqlPool h of
             None \<Rightarrow> (Panic PNil, h)
           | Some m \<Rightarrow> (case AcquireSession (my_ops I) sid m of (r, p) \<Rightarrow> (r, h\<lparr>mysqlPool := Some p\<rparr>))))"

definition pool_release :: "('p, 'm) pools \<Rightarrow> pool_ref \<Rightarrow> string \<Rightarrow> ('p, 'm) Handler \<Rightarrow> ('p, 'm) Handler" where
  "pool_release I ref sid h =
     (case ref of
        UsePg \<Rightarrow> h\<lparr>pgPool := ReleaseSession (pg_ops I) sid (pgPool h)\<rparr>
      | UseMy \<Rightarrow> h\<lparr>mysqlPool := map_option (ReleaseSession (my_ops I) sid) (mysqlPool h)\<rparr>)"

definition pool_query ::
  "('p, 'm) pools \<Rightarrow> pool_ref \<Rightarrow> string \<Rightarrow> string \<Rightarrow> ('p, 'm) Handler \<Rightarrow> QueryResult result \<times> ('p, 'm) Handler" where
  "pool_query I ref sid sql h =
     (case ref of
        UsePg \<Rightarrow> (case ExecSQL (pg_ops I) sid sql (pgPool h) of (r, p) \<Rightarrow> (r, h\<lparr>pgPool := p\<rparr>))
      | UseMy \<Rightarrow>
          (case mysqlPool h of
             None \<Rightarrow> (Panic PNil, h)
           | Some m \<Rightarrow> (case ExecSQL (my_ops I) sid sql m of (r, p) \<Rightarrow> (r, h\<lparr>mysqlPool := Some p\<rparr>))))"

definition pool_command ::
  "('p, 'm) pools \<Rightarrow> pool_ref \<Rightarrow> string \<Rightarrow> string \<Rightarrow> ('p, 'm) Handler \<Rightarrow> int result \<times> ('p, 'm) Handler" where
  "pool_command I ref sid sql h =
     (case ref of
        UsePg \<Rightarrow> (case ExecCommand (pg_ops I) sid sql (pgPool h) of (r, p) \<Rightarrow> (r, h\<lparr>pgPool := p\<rparr>))
      | UseMy \<Rightarrow>
          (case mysqlPool h of
             None \<Rightarrow> (Panic PNil, h)
           | Some m \<Rightarrow> (case ExecCommand (my_ops I) sid sql m of (r, p) \<Rightarrow> (r, h\<lparr>mysqlPool := Some p\<rparr>))))"

section \<open>Sessions\<close>

definition poolForProtocol :: "string \<Rightarrow> ('p, 'm) Handler \<Rightarrow> pool_ref option" where
  "poolForProtocol protocol h =
     (if protocol = ''pg'' then Some UsePg
      else if protocol = ''mysql'' then (case mysqlPool h of Some _ \<Rightarrow> Some UseMy | None \<Rightarrow> None)
      else None)"

definition getSessionPool :: "string \<Rightarrow> ('p, 'm) Handler \<Rightarrow> pool_ref" where
  "getSessionPool sid h = (case sessionPools h sid of Some ref \<Rightarrow> ref | None \<Rightarrow> UsePg)"

text \<open>The \<open>sessionID[:8]\<close> of every log line.\<close>

definition log_id :: "string \<Rightarrow> string result" where
  "log_id sid = slice sid 0 8"

text \<open>\<open>CreateSession\<close>; \<open>sid\<close> is the id \<^verbatim>\<open>uuid.New\<close> makes.\<close>

definition CreateSession ::
  "('p, 'm) pools \<Rightarrow> string \<Rightarrow> byte list \<Rightarrow> string \<Rightarrow> ('p, 'm) Handler \<Rightarrow> string result \<times> ('p, 'm) Handler" where
  "CreateSession I sid body protocol h =
     (case wrap_err ''decrypt'' (Decrypt body (encKey h)) of
        Err e \<Rightarrow> (Err e, h)
      | Panic p \<Rightarrow> (Panic p, h)
      | Ok _ \<Rightarrow>
          (case poolForProtocol protocol h of
             None \<Rightarrow> (Err (ErrorS (''unsupported protocol: '' @ protocol)), h)
           | Some ref \<Rightarrow>
               (case pool_acquire I ref sid h of
                  (Err e, h) \<Rightarrow> (Err (Wrap ''acquire connection'' e), h)
                | (Panic p, h) \<Rightarrow> (Panic p, h)
                | (Ok _, h) \<Rightarrow>
                    (let h = h\<lparr>sessionPools := (sessionPools h)(sid \<mapsto> ref)\<rparr>
                     in (rbind (log_id sid) (\<lambda>_. Ok sid), h)))))"

definition CloseSession :: "('p, 'm) pools \<Rightarrow> string \<Rightarrow> ('p, 'm) Handler \<Rightarrow> unit result \<times> ('p, 'm) Handler" where
  "CloseSession I sid h =
     (let h = (case sessionPools h sid of
                 Some ref \<Rightarrow> pool_release I ref sid h
               | None \<Rightarrow> pool_release I UseMy sid (pool_release I UsePg sid h));
          h = h\<lparr>stmts := (stmts h)(sid := None), sessionPools := (sessionPools h)(sid := None)\<rparr>
      in (rbind (log_id sid) (\<lambda>_. Ok ()), h))"

record HealthStatus =
  hs_Status :: string
  hs_PgPool :: PoolStats
  hs_MyPool :: PoolStats

definition no_stats :: PoolStats where
  "no_stats = \<lparr>TotalConns = 0, AcquiredConns = 0, IdleConns = 0, MaxConns = 0\<rparr>"

definition HealthCheck :: "('p, 'm) pools \<Rightarrow> ('p, 'm) Handler \<Rightarrow> HealthStatus" where
  "HealthCheck I h =
     \<lparr>hs_Status = ''healthy'', hs_PgPool = GetStats (pg_ops I) (pgPool h),
      hs_MyPool = (case mysqlPool h of Some m \<Rightarrow> GetStats (my_ops I) m | None \<Rightarrow> no_stats)\<rparr>"

section \<open>Queries\<close>

definition executeQuery ::
  "('p, 'm) pools \<Rightarrow> string \<Rightarrow> string \<Rightarrow> ('p, 'm) Handler \<Rightarrow> QueryResponse result \<times> ('p, 'm) Handler" where
  "executeQuery I sid sql h =
     (case pool_query I (getSessionPool sid h) sid sql h of
        (r, h) \<Rightarrow>
          (rbind r (\<lambda>q. Ok \<lparr>Columns = q_Columns q, Rows = q_Rows q, RowsAffected = q_RowsAffected q, Error = []\<rparr>), h))"

definition executeCommand ::
  "('p, 'm) pools \<Rightarrow> string \<Rightarrow> string \<Rightarrow> ('p, 'm) Handler \<Rightarrow> QueryResponse result \<times> ('p, 'm) Handler" where
  "executeCommand I sid sql h =
     (case pool_command I (getSessionPool sid h) sid sql h of
        (r, h) \<Rightarrow> (rbind r (\<lambda>n. Ok (empty_response\<lparr>RowsAffected := n\<rparr>)), h))"

definition executeSQL ::
  "('p, 'm) pools \<Rightarrow> string \<Rightarrow> string \<Rightarrow> string \<Rightarrow> ('p, 'm) Handler \<Rightarrow> QueryResponse result \<times> ('p, 'm) Handler" where
  "executeSQL I sid sql cmdType h =
     (if cmdType \<in> set [''SELECT'', ''SHOW'', ''EXPLAIN'', ''DESCRIBE'', ''WITH''] then executeQuery I sid sql h
      else if cmdType \<in> set [''INSERT'', ''UPDATE'', ''DELETE'', ''CREATE'', ''ALTER'', ''DROP'', ''TRUNCATE'',
          ''SET'', ''BEGIN'', ''COMMIT'', ''ROLLBACK'', ''GRANT'', ''REVOKE'', ''COPY'', ''VACUUM''] then
        executeCommand I sid sql h
      else executeQuery I sid sql h)"

text \<open>Marshalling and encrypting a response; \<open>prefix\<close> is what the code adds to an error.\<close>

definition reply :: "string \<Rightarrow> QueryResponse \<Rightarrow> ('p, 'm) Handler \<Rightarrow> byte list result \<times> ('p, 'm) Handler" where
  "reply prefix r h =
     (case Encrypt (Marshal (response_json r)) (encKey h) (entropy h) of
        (c, rnd) \<Rightarrow> (wrap_err prefix c, h\<lparr>entropy := rnd\<rparr>))"

text \<open>The \<open>Bind\<close> branch drops the error of \<open>Encrypt\<close> and then returns no bytes.\<close>

definition reply_ignoring :: "QueryResponse \<Rightarrow> ('p, 'm) Handler \<Rightarrow> byte list result \<times> ('p, 'm) Handler" where
  "reply_ignoring r h =
     (case Encrypt (Marshal (response_json r)) (encKey h) (entropy h) of
        (c, rnd) \<Rightarrow> (case c of Ok bs \<Rightarrow> Ok bs | Err _ \<Rightarrow> Ok [] | Panic p \<Rightarrow> Panic p, h\<lparr>entropy := rnd\<rparr>))"

definition no_statement :: string where
  "no_statement = ''no parsed statement found for session''"

text \<open>The cached statement of a session, if there is one and it is not empty.\<close>

definition cachedSQL :: "string \<Rightarrow> ('p, 'm) Handler \<Rightarrow> string option" where
  "cachedSQL sid h = (case stmts h sid of Some sql \<Rightarrow> if sql = [] then None else Some sql | None \<Rightarrow> None)"

definition execute_and_reply ::
  "('p, 'm) pools \<Rightarrow> string \<Rightarrow> string \<Rightarrow> ('p, 'm) Handler \<Rightarrow> byte list result \<times> ('p, 'm) Handler" where
  "execute_and_reply I sid sql h =
     (case executeSQL I sid sql (sqlCommandType sql) h of
        (Ok response, h) \<Rightarrow> reply ''encrypt response'' response h
      | (Err e, h) \<Rightarrow> reply ''encrypt response'' (empty_response\<lparr>Error := error_text e\<rparr>) h
      | (Panic p, h) \<Rightarrow> (Panic p, h))"

definition HandleQuery ::
  "('p, 'm) pools \<Rightarrow> string \<Rightarrow> byte list \<Rightarrow> ('p, 'm) Handler \<Rightarrow> byte list result \<times> ('p, 'm) Handler" where
  "HandleQuery I sid body h =
     (case rbind (wrap_err ''decrypt'' (Decrypt body (encKey h))) (\<lambda>decrypted.
           rbind (wrap_err ''unmarshal request'' (Unmarshal_request decrypted)) (\<lambda>req.
           rbind (log_id sid) (\<lambda>_. Ok req))) of
        Err e \<Rightarrow> (Err e, h)
      | Panic p \<Rightarrow> (Panic p, h)
      | Ok req \<Rightarrow>
          (if Type req = byte_of CHR ''P'' then
             reply ''encrypt parse response'' empty_response (h\<lparr>stmts := (stmts h)(sid \<mapsto> SQL req)\<rparr>)
           else if Type req = byte_of CHR ''B'' then
             (case cachedSQL sid h of
                None \<Rightarrow> reply_ignoring (empty_response\<lparr>Error := no_statement\<rparr>) h
              | Some _ \<Rightarrow> reply ''encrypt bind response'' empty_response h)
           else if Type req = byte_of CHR ''D'' then reply ''encrypt describe response'' empty_response h
           else if Type req = byte_of CHR ''S'' then reply ''encrypt sync response'' empty_response h
           else if Type req = byte_of CHR ''E'' then
             (case cachedSQL sid h of
                None \<Rightarrow> (Err (ErrorS no_statement), h)
              | Some sql \<Rightarrow> execute_and_reply I sid sql h)
           else execute_and_reply I sid (SQL req) h))"

section \<open>What a call leaves as it is\<close>

lemma pool_query_keeps:
  assumes "pool_query I ref sid sql h = (r, h')"
  shows "encKey h' = encKey h" "stmts h' = stmts h" "sessionPools h' = sessionPools h" "entropy h' = entropy h"
  using assms by (auto simp: pool_query_def split: pool_ref.splits option.splits prod.splits)

lemma pool_command_keeps:
  assumes "pool_command I ref sid sql h = (r, h')"
  shows "encKey h' = encKey h" "stmts h' = stmts h" "sessionPools h' = sessionPools h" "entropy h' = entropy h"
  using assms by (auto simp: pool_command_def split: pool_ref.splits option.splits prod.splits)

lemma executeSQL_cases:
  "executeSQL I sid sql cmd h = executeQuery I sid sql h \<or> executeSQL I sid sql cmd h = executeCommand I sid sql h"
  by (simp add: executeSQL_def)

lemma executeSQL_keeps:
  assumes "executeSQL I sid sql cmd h = (r, h')"
  shows "encKey h' = encKey h" "stmts h' = stmts h" "sessionPools h' = sessionPools h" "entropy h' = entropy h"
  using assms executeSQL_cases [of I sid sql cmd h]
  by (auto simp: executeQuery_def executeCommand_def dest: pool_query_keeps pool_command_keeps split: prod.splits)

lemma reply_keeps:
  assumes "reply prefix r h = (c, h')"
  shows "pgPool h' = pgPool h" "mysqlPool h' = mysqlPool h" "encKey h' = encKey h" "stmts h' = stmts h"
    "sessionPools h' = sessionPools h"
  using assms by (auto simp: reply_def split: prod.splits)

lemma reply_ignoring_keeps:
  assumes "reply_ignoring r h = (c, h')"
  shows "pgPool h' = pgPool h" "mysqlPool h' = mysqlPool h" "encKey h' = encKey h" "stmts h' = stmts h"
    "sessionPools h' = sessionPools h"
  using assms by (auto simp: reply_ignoring_def split: prod.splits)

section \<open>The request inside a body\<close>

definition received :: "('p, 'm) Handler \<Rightarrow> byte list \<Rightarrow> QueryRequest result" where
  "received h body = rbind (Decrypt body (encKey h)) Unmarshal_request"

lemma received_OkD:
  assumes "received h body = Ok req"
  obtains p where "Decrypt body (encKey h) = Ok p" "Unmarshal_request p = Ok req"
  using assms by (auto simp: received_def rbind_eq_Ok_iff)

text \<open>What the handler answers to a request, before it marshals and encrypts.\<close>

definition run_statement ::
  "('p, 'm) pools \<Rightarrow> string \<Rightarrow> string \<Rightarrow> ('p, 'm) Handler \<Rightarrow> QueryResponse result \<times> ('p, 'm) Handler" where
  "run_statement I sid sql h =
     (case executeSQL I sid sql (sqlCommandType sql) h of
        (Err e, h) \<Rightarrow> (Ok (empty_response\<lparr>Error := error_text e\<rparr>), h)
      | rh \<Rightarrow> rh)"

definition serve ::
  "('p, 'm) pools \<Rightarrow> string \<Rightarrow> QueryRequest \<Rightarrow> ('p, 'm) Handler \<Rightarrow> QueryResponse result \<times> ('p, 'm) Handler" where
  "serve I sid req h =
     (let t = char_of_byte (Type req) in
      if t = CHR ''P'' then (Ok empty_response, h\<lparr>stmts := (stmts h)(sid \<mapsto> SQL req)\<rparr>)
      else if t = CHR ''B'' \<and> cachedSQL sid h = None then (Ok (empty_response\<lparr>Error := no_statement\<rparr>), h)
      else if t \<in> {CHR ''B'', CHR ''D'', CHR ''S''} then (Ok empty_response, h)
      else if t = CHR ''E'' then
        (case cachedSQL sid h of
           None \<Rightarrow> (Err (ErrorS no_statement), h)
         | Some sql \<Rightarrow> run_statement I sid sql h)
      else run_statement I sid (SQL req) h)"

text \<open>A response marshalled, and encrypted with the handler's key and entropy.\<close>

definition sealed :: "QueryResponse \<Rightarrow> ('p, 'm) Handler \<Rightarrow> byte list result \<times> ('p, 'm) Handler" where
  "sealed r h =
     (case Encrypt (Marshal (response_json r)) (encKey h) (entropy h) of (c, rnd) \<Rightarrow> (c, h\<lparr>entropy := rnd\<rparr>))"

definition can_encrypt :: "('p, 'm) Handler \<Rightarrow> bool" where
  "can_encrypt h \<longleftrightarrow> good_key (encKey h) \<and> 12 \<le> length (pending (entropy h))"

lemma reply_sealed: "can_encrypt h \<Longrightarrow> reply prefix r h = sealed r h"
  by (simp add: can_encrypt_def reply_def sealed_def Encrypt_def ReadFull_def NonceSize_def Seal_def)

lemma reply_ignoring_sealed: "can_encrypt h \<Longrightarrow> reply_ignoring r h = sealed r h"
  by (simp add: can_encrypt_def reply_ignoring_def sealed_def Encrypt_def ReadFull_def NonceSize_def Seal_def)

lemma execute_and_reply_sealed:
  assumes "can_encrypt h"
  shows "execute_and_reply I sid sql h =
    (case run_statement I sid sql h of
       (Ok r, h') \<Rightarrow> sealed r h' | (Err e, h') \<Rightarrow> (Err e, h') | (Panic p, h') \<Rightarrow> (Panic p, h'))"
proof (cases "executeSQL I sid sql (sqlCommandType sql) h")
  case (Pair r h')
  have "can_encrypt h'" using assms executeSQL_keeps [OF Pair] by (simp add: can_encrypt_def)
  then show ?thesis
    by (cases r) (simp_all add: execute_and_reply_def run_statement_def Pair reply_sealed)
qed

lemma byte_of_eq: "b = byte_of c \<longleftrightarrow> char_of_byte b = c"
  by (metis byte_of_char_of_byte char_of_byte_of)

lemma HandleQuery_serve:
  assumes "received h body = Ok req" "can_encrypt h" "8 \<le> length sid"
  shows "HandleQuery I sid body h =
    (case serve I sid req h of
       (Ok r, h') \<Rightarrow> sealed r h' | (Err e, h') \<Rightarrow> (Err e, h') | (Panic p, h') \<Rightarrow> (Panic p, h'))"
proof -
  from assms(1) obtain p where p: "Decrypt body (encKey h) = Ok p" "Unmarshal_request p = Ok req"
    by (rule received_OkD)
  have id: "log_id sid = Ok (take 8 sid)" using assms(3) by (simp add: log_id_def slice_def)
  have ce: "can_encrypt (h\<lparr>stmts := x\<rparr>)" for x using assms(2) by (simp add: can_encrypt_def)
  show ?thesis
    unfolding HandleQuery_def byte_of_eq
    by (auto simp: p id serve_def Let_def reply_sealed [OF ce] reply_sealed [OF assms(2)] reply_ignoring_sealed [OF assms(2)]
        execute_and_reply_sealed [OF assms(2)] split: option.split)
qed

lemma serve_keeps:
  "encKey (snd (serve I sid req h)) = encKey h \<and> entropy (snd (serve I sid req h)) = entropy h"
proof (cases "\<exists>sql. serve I sid req h = run_statement I sid sql h")
  case True
  then obtain sql where s: "serve I sid req h = run_statement I sid sql h" by blast
  obtain r h' where e: "executeSQL I sid sql (sqlCommandType sql) h = (r, h')" by fastforce
  show ?thesis using executeSQL_keeps [OF e] by (cases r) (simp_all add: s run_statement_def e)
next
  case False
  then show ?thesis by (auto simp: serve_def Let_def split: option.splits)
qed

lemma sealed_Ok:
  assumes "can_encrypt h" "length (Marshal (response_json r)) \<le> gcm_limit"
  obtains c where "sealed r h = (Ok c, h\<lparr>entropy := (entropy h)\<lparr>pending := drop 12 (pending (entropy h))\<rparr>\<rparr>)"
    "Encrypt (Marshal (response_json r)) (encKey h) (entropy h) =
      (Ok c, (entropy h)\<lparr>pending := drop 12 (pending (entropy h))\<rparr>)"
  using assms by (simp add: sealed_def can_encrypt_def Encrypt_Ok)

section \<open>The handler implements the statement service\<close>

text \<open>
  C5: On the request a proxy encrypts, the handler does exactly what \<open>serve\<close> does on the plain
  request, the abstract service of parse, bind, describe, sync, execute and simple query, and
  the proxy decrypts from its answer exactly the service's response.
\<close>

theorem HandleQuery_refines:
  assumes "Encrypt (Marshal (request_json req)) (encKey h) rnd = (Ok body, rnd')"
    and "12 \<le> length (pending (entropy h))" "8 \<le> length sid"
    and "serve I sid (req\<lparr>SQL := to_valid (SQL req)\<rparr>) h = (Ok r, h')"
    and "in_int64 (RowsAffected r)" "length (Marshal (response_json r)) \<le> gcm_limit"
  shows "\<exists>c. HandleQuery I sid body h = (Ok c, h'\<lparr>entropy := (entropy h)\<lparr>pending := drop 12 (pending (entropy h))\<rparr>\<rparr>)
    \<and> rbind (Decrypt c (encKey h)) Unmarshal_response =
      Ok (r\<lparr>Columns := map to_valid (Columns r), Rows := map (map to_valid) (Rows r), Error := to_valid (Error r)\<rparr>)"
proof -
  have ce: "can_encrypt h" using Encrypt_OkD(1) [OF assms(1)] assms(2) by (simp add: can_encrypt_def)
  have k: "encKey h' = encKey h" "entropy h' = entropy h"
    using serve_keeps [of I sid "req\<lparr>SQL := to_valid (SQL req)\<rparr>" h] assms(4) by simp_all
  have rec: "received h body = Ok (req\<lparr>SQL := to_valid (SQL req)\<rparr>)"
    using request_codec.exchange [OF assms(1)] by (simp add: received_def valid_request_def)
  have ce': "can_encrypt h'" using ce k by (simp add: can_encrypt_def)
  then obtain c where c: "sealed r h' = (Ok c, h'\<lparr>entropy := (entropy h')\<lparr>pending := drop 12 (pending (entropy h'))\<rparr>\<rparr>)"
    "Encrypt (Marshal (response_json r)) (encKey h') (entropy h') =
      (Ok c, (entropy h')\<lparr>pending := drop 12 (pending (entropy h'))\<rparr>)"
    using sealed_Ok [OF _ assms(6)] by metis
  have "HandleQuery I sid body h = sealed r h'"
    using HandleQuery_serve [OF rec ce assms(3)] assms(4) by simp
  moreover have "rbind (Decrypt c (encKey h)) Unmarshal_response = Ok (valid_response r)"
    using response_codec.exchange [OF c(2) assms(5)] k by simp
  ultimately show ?thesis using c(1) k by (auto simp: valid_response_def)
qed

section \<open>Requests that are not authentic\<close>

text \<open>
  C9: A body that is not a nonce with what GCM seals under the server's key opens no session and
  runs no statement: both calls fail with the decryption error and leave the handler's state,
  its pools included, as it was.
\<close>

theorem unsealed_requests_rejected:
  assumes "good_key (encKey h)"
    and "\<And>nonce p. length nonce = 12 \<Longrightarrow> length p \<le> gcm_limit \<Longrightarrow> body \<noteq> nonce @ gcm_seal (encKey h) nonce p"
  shows "HandleQuery I sid body h = (Err (Wrap ''decrypt'' ErrDecryptFail), h)
    \<and> CreateSession I sid body protocol h = (Err (Wrap ''decrypt'' ErrDecryptFail), h)"
proof -
  have "Decrypt body (encKey h) = Err ErrDecryptFail"
    using Decrypt_fails_iff [of body "encKey h"] assms by blast
  then show ?thesis by (simp add: HandleQuery_def CreateSession_def)
qed

section \<open>The extended query protocol\<close>

definition query_run :: "('p, 'm) pools \<Rightarrow> string \<Rightarrow> byte list list \<Rightarrow> ('p, 'm) Handler \<Rightarrow> ('p, 'm) Handler" where
  "query_run I sid bodies h = foldl (\<lambda>h body. snd (HandleQuery I sid body h)) h bodies"

definition same_core :: "('p, 'm) Handler \<Rightarrow> ('p, 'm) Handler \<Rightarrow> bool" where
  "same_core h h' \<longleftrightarrow> pgPool h' = pgPool h \<and> mysqlPool h' = mysqlPool h \<and> encKey h' = encKey h \<and>
     stmts h' = stmts h \<and> sessionPools h' = sessionPools h"

lemma same_core_refl [simp]: "same_core h h"
  by (simp add: same_core_def)

lemma same_core_trans: "same_core h h' \<Longrightarrow> same_core h' h'' \<Longrightarrow> same_core h h''"
  by (simp add: same_core_def)

lemma same_core_reply: "same_core h (snd (reply prefix r h))" "same_core h (snd (reply_ignoring r h))"
  by (auto simp: same_core_def reply_def reply_ignoring_def split: prod.split)

lemma HandleQuery_received:
  assumes "received h body = Ok req"
  shows "HandleQuery I sid body h =
    (if length sid < 8 then (Panic PSlice, h)
     else if Type req = byte_of CHR ''P'' then
       reply ''encrypt parse response'' empty_response (h\<lparr>stmts := (stmts h)(sid \<mapsto> SQL req)\<rparr>)
     else if Type req = byte_of CHR ''B'' then
       (case cachedSQL sid h of
          None \<Rightarrow> reply_ignoring (empty_response\<lparr>Error := no_statement\<rparr>) h
        | Some _ \<Rightarrow> reply ''encrypt bind response'' empty_response h)
     else if Type req = byte_of CHR ''D'' then reply ''encrypt describe response'' empty_response h
     else if Type req = byte_of CHR ''S'' then reply ''encrypt sync response'' empty_response h
     else if Type req = byte_of CHR ''E'' then
       (case cachedSQL sid h of
          None \<Rightarrow> (Err (ErrorS no_statement), h)
        | Some sql \<Rightarrow> execute_and_reply I sid sql h)
     else execute_and_reply I sid (SQL req) h)"
proof -
  from assms obtain p where "Decrypt body (encKey h) = Ok p" "Unmarshal_request p = Ok req"
    by (rule received_OkD)
  then show ?thesis by (simp add: HandleQuery_def log_id_def slice_def)
qed

text \<open>The messages between \<open>Parse\<close> and \<open>Execute\<close>.\<close>

definition is_middle :: "('p, 'm) Handler \<Rightarrow> byte list \<Rightarrow> bool" where
  "is_middle h body =
     (case received h body of
        Ok req \<Rightarrow> Type req \<in> {byte_of CHR ''B'', byte_of CHR ''D'', byte_of CHR ''S''}
      | _ \<Rightarrow> False)"

lemma same_core_received: "same_core h h' \<Longrightarrow> received h' body = received h body"
  by (simp add: same_core_def received_def)

lemma same_core_middle:
  assumes "is_middle h body" "8 \<le> length sid"
  shows "same_core h (snd (HandleQuery I sid body h))"
proof -
  from assms(1) obtain req where r: "received h body = Ok req"
    and t: "Type req \<in> {byte_of CHR ''B'', byte_of CHR ''D'', byte_of CHR ''S''}"
    by (auto simp: is_middle_def split: result.splits)
  from t assms(2) show ?thesis
    by (auto simp: HandleQuery_received [OF r] same_core_reply split: option.split)
qed

lemma same_core_middles:
  assumes "list_all (is_middle h) bodies" "8 \<le> length sid"
  shows "same_core h (query_run I sid bodies h)"
  using assms(1)
proof (induction bodies rule: rev_induct)
  case (snoc b bs)
  then have s: "same_core h (query_run I sid bs h)" by simp
  then have "is_middle (query_run I sid bs h) b"
    using snoc.prems same_core_received [OF s, of b] by (simp add: is_middle_def)
  from same_core_middle [OF this assms(2)] same_core_trans [OF s] show ?case
    by (simp add: query_run_def)
qed (simp add: query_run_def)

text \<open>
  C14: After a \<open>Parse\<close>, whatever \<open>Bind\<close>, \<open>Describe\<close> and \<open>Sync\<close> messages follow touch neither
  pool and no session, and the \<open>Execute\<close> then runs exactly the statement that was parsed, on the
  session's own pool, once.
\<close>

theorem extended_query_runs_once:
  assumes "received h parse_body = Ok p" "Type p = byte_of CHR ''P''" "SQL p \<noteq> []" "8 \<le> length sid"
    and "list_all (is_middle h) bodies"
    and "h1 = query_run I sid (parse_body # bodies) h"
    and "received h execute_body = Ok e" "Type e = byte_of CHR ''E''"
  shows "pgPool h1 = pgPool h \<and> mysqlPool h1 = mysqlPool h \<and> sessionPools h1 = sessionPools h
    \<and> stmts h1 = (stmts h)(sid \<mapsto> SQL p)
    \<and> HandleQuery I sid execute_body h1 = execute_and_reply I sid (SQL p) h1"
proof -
  let ?g = "h\<lparr>stmts := (stmts h)(sid \<mapsto> SQL p)\<rparr>"
  let ?h0 = "snd (HandleQuery I sid parse_body h)"
  have "HandleQuery I sid parse_body h = reply ''encrypt parse response'' empty_response ?g"
    using assms(2,4) by (simp add: HandleQuery_received [OF assms(1)])
  then have p: "same_core ?g ?h0" using same_core_reply(1) [of ?g] by simp
  have "received ?h0 b = received h b" for b
    using same_core_received [OF p, of b] by (simp add: received_def)
  then have "list_all (is_middle ?h0) bodies"
    using assms(5) by (simp add: is_middle_def list_all_iff)
  then have "same_core ?h0 h1"
    using same_core_middles [OF _ assms(4)] assms(6) by (simp add: query_run_def)
  with p have c: "same_core ?g h1" by (rule same_core_trans)
  then have "received h1 execute_body = Ok e"
    using same_core_received [OF c, of execute_body] assms(7) by (simp add: received_def)
  moreover have "cachedSQL sid h1 = Some (SQL p)"
    using c assms(3) by (simp add: same_core_def cachedSQL_def)
  ultimately have "HandleQuery I sid execute_body h1 = execute_and_reply I sid (SQL p) h1"
    using assms(4,8) by (simp add: HandleQuery_received)
  with c show ?thesis by (simp add: same_core_def)
qed

text \<open>
  Without a parsed statement \<open>Execute\<close> fails and \<open>Bind\<close> answers with an error, and neither
  touches a pool; an empty statement counts as none.
\<close>

theorem unparsed_statement:
  assumes "received h body = Ok req" "8 \<le> length sid" "stmts h sid = None \<or> stmts h sid = Some []"
  shows "(Type req = byte_of CHR ''E'' \<longrightarrow>
       HandleQuery I sid body h = (Err (ErrorS ''no parsed statement found for session''), h))
    \<and> (Type req = byte_of CHR ''B'' \<longrightarrow>
       HandleQuery I sid body h =
         reply_ignoring (empty_response\<lparr>Error := ''no parsed statement found for session''\<rparr>) h)"
proof -
  have "cachedSQL sid h = None" using assms(3) by (auto simp: cachedSQL_def)
  then show ?thesis using assms(2) by (auto simp: HandleQuery_received [OF assms(1)] no_statement_def)
qed

section \<open>Routing\<close>

text \<open>
  A statement goes to the pool's command method, which counts rows but returns none, exactly
  when its first word is one of the fifteen command words in capitals; everything else, the same
  words in lower case included, goes to the query method.
\<close>

theorem executeSQL_routes:
  "executeSQL I sid sql (sqlCommandType sql) h =
     (if takeWhile (\<lambda>c. \<not> ends_word c) (dropWhile is_space sql) \<in>
         {''INSERT'', ''UPDATE'', ''DELETE'', ''CREATE'', ''ALTER'', ''DROP'', ''TRUNCATE'', ''SET'', ''BEGIN'',
          ''COMMIT'', ''ROLLBACK'', ''GRANT'', ''REVOKE'', ''COPY'', ''VACUUM''}
      then executeCommand I sid sql h else executeQuery I sid sql h)
   \<and> executeSQL I sid ''insert into t values (1)'' (sqlCommandType ''insert into t values (1)'') h =
     executeQuery I sid ''insert into t values (1)'' h"
proof
  have word: "sqlCommandType q = takeWhile (\<lambda>c. \<not> ends_word c) (dropWhile is_space q)" for q
    by (simp add: sqlCommandType_first_word first_word_def)
  show "executeSQL I sid sql (sqlCommandType sql) h =
     (if takeWhile (\<lambda>c. \<not> ends_word c) (dropWhile is_space sql) \<in>
         {''INSERT'', ''UPDATE'', ''DELETE'', ''CREATE'', ''ALTER'', ''DROP'', ''TRUNCATE'', ''SET'', ''BEGIN'',
          ''COMMIT'', ''ROLLBACK'', ''GRANT'', ''REVOKE'', ''COPY'', ''VACUUM''}
      then executeCommand I sid sql h else executeQuery I sid sql h)"
    unfolding word executeSQL_def by auto
  show "executeSQL I sid ''insert into t values (1)'' (sqlCommandType ''insert into t values (1)'') h =
     executeQuery I sid ''insert into t values (1)'' h"
    unfolding word executeSQL_def by (simp add: is_space_def ends_word_def)
qed

section \<open>Sessions and their connections\<close>

text \<open>
  The bookkeeping invariant: each pool holds a connection for exactly the sessions that
  \<open>sessionPools\<close> sends to it; so no session holds a connection in both.
\<close>

definition my_held :: "('m \<Rightarrow> string set) \<Rightarrow> 'm option \<Rightarrow> string set" where
  "my_held mh m = (case m of None \<Rightarrow> {} | Some p \<Rightarrow> mh p)"

definition session_inv :: "('p \<Rightarrow> string set) \<Rightarrow> ('m \<Rightarrow> string set) \<Rightarrow> ('p, 'm) Handler \<Rightarrow> bool" where
  "session_inv ph mh h \<longleftrightarrow>
     ph (pgPool h) = {sid. sessionPools h sid = Some UsePg} \<and>
     my_held mh (mysqlPool h) = {sid. sessionPools h sid = Some UseMy}"

text \<open>The calls a server makes on its handler; a creation carries the fresh id.\<close>

datatype call = Create string "byte list" string | Ask string "byte list" | Close string

fun handler_step :: "('p, 'm) pools \<Rightarrow> call \<Rightarrow> ('p, 'm) Handler \<Rightarrow> ('p, 'm) Handler" where
  "handler_step I (Create sid body protocol) h = snd (CreateSession I sid body protocol h)"
| "handler_step I (Ask sid body) h = snd (HandleQuery I sid body h)"
| "handler_step I (Close sid) h = snd (CloseSession I sid h)"

primrec handler_run :: "('p, 'm) pools \<Rightarrow> call list \<Rightarrow> ('p, 'm) Handler \<Rightarrow> ('p, 'm) Handler" where
  "handler_run I [] h = h"
| "handler_run I (c # cs) h = handler_run I cs (handler_step I c h)"

fun created :: "call \<Rightarrow> string list" where
  "created (Create sid _ _) = [sid]"
| "created _ = []"

definition fresh_ids :: "call list \<Rightarrow> bool" where
  "fresh_ids cs = distinct (concat (map created cs))"

lemma HandleQuery_sessionPools: "sessionPools (snd (HandleQuery I sid body h)) = sessionPools h"
proof -
  have e: "sessionPools (snd (execute_and_reply I sid sql h)) = sessionPools h" for sql
    by (auto simp: execute_and_reply_def dest: executeSQL_keeps reply_keeps split: prod.splits result.splits)
      (metis executeSQL_keeps(3) prod.collapse reply_keeps(5))+
  show ?thesis
    by (auto simp: HandleQuery_def e reply_def reply_ignoring_def split: result.split option.split prod.split)
qed

lemma pool_acquire_sessionPools: "pool_acquire I ref sid h = (r, h') \<Longrightarrow> sessionPools h' = sessionPools h"
  by (auto simp: pool_acquire_def split: pool_ref.splits option.splits prod.splits)

lemma CreateSession_sessionPools:
  "s \<noteq> sid \<Longrightarrow> sessionPools (snd (CreateSession I sid body protocol h)) s = sessionPools h s"
  by (auto simp: CreateSession_def Let_def dest: pool_acquire_sessionPools
      split: result.split option.split prod.split)

lemma pool_release_sessionPools [simp]: "sessionPools (pool_release I ref sid h) = sessionPools h"
  by (simp add: pool_release_def split: pool_ref.split)

text \<open>Only a creation adds to \<open>sessionPools\<close>, and only its own id.\<close>

lemma handler_step_ids:
  "sessionPools h s = None \<Longrightarrow> s \<notin> set (created c) \<Longrightarrow> sessionPools (handler_step I c h) s = None"
  by (cases c) (auto simp: CreateSession_sessionPools HandleQuery_sessionPools CloseSession_def Let_def
      split: option.splits)

locale handler_pools =
  pg: session_pool "pg_ops I" ph + my: session_pool "my_ops I" mh
  for I :: "('p, 'm) pools" and ph :: "'p \<Rightarrow> string set" and mh :: "'m \<Rightarrow> string set"
begin

lemma pool_query_held:
  assumes "pool_query I ref sid sql h = (r, h')"
  shows "ph (pgPool h') = ph (pgPool h)" "my_held mh (mysqlPool h') = my_held mh (mysqlPool h)"
  using assms pg.query_holds [of sid sql "pgPool h"] my.query_holds [of sid sql]
  by (auto simp: pool_query_def my_held_def split: pool_ref.splits option.splits prod.splits) (metis snd_conv)+

lemma pool_command_held:
  assumes "pool_command I ref sid sql h = (r, h')"
  shows "ph (pgPool h') = ph (pgPool h)" "my_held mh (mysqlPool h') = my_held mh (mysqlPool h)"
  using assms pg.command_holds [of sid sql "pgPool h"] my.command_holds [of sid sql]
  by (auto simp: pool_command_def my_held_def split: pool_ref.splits option.splits prod.splits) (metis snd_conv)+

lemma executeSQL_inv:
  assumes "executeSQL I sid sql cmd h = (r, h')" "session_inv ph mh h"
  shows "session_inv ph mh h'"
proof -
  have "ph (pgPool h') = ph (pgPool h)" "my_held mh (mysqlPool h') = my_held mh (mysqlPool h)"
    using assms(1) executeSQL_cases [of I sid sql cmd h]
    by (auto simp: executeQuery_def executeCommand_def dest: pool_query_held pool_command_held split: prod.splits)
  with assms(2) executeSQL_keeps(3) [OF assms(1)] show ?thesis by (simp add: session_inv_def)
qed

lemma session_inv_stmts [simp]:
  "session_inv ph mh (h\<lparr>stmts := x\<rparr>) = session_inv ph mh h"
  "session_inv ph mh (h\<lparr>entropy := y\<rparr>) = session_inv ph mh h"
  by (simp_all add: session_inv_def)

lemma reply_inv [simp]:
  "session_inv ph mh (snd (reply prefix r h)) = session_inv ph mh h"
  "session_inv ph mh (snd (reply_ignoring r h)) = session_inv ph mh h"
  by (simp_all add: reply_def reply_ignoring_def split: prod.split)

lemma execute_and_reply_inv:
  "session_inv ph mh h \<Longrightarrow> session_inv ph mh (snd (execute_and_reply I sid sql h))"
  by (auto simp: execute_and_reply_def dest: executeSQL_inv split: prod.splits result.splits)

lemma HandleQuery_inv: "session_inv ph mh h \<Longrightarrow> session_inv ph mh (snd (HandleQuery I sid body h))"
  by (auto simp: HandleQuery_def execute_and_reply_inv split: result.split option.split)

lemma CreateSession_inv:
  assumes "session_inv ph mh h" "sessionPools h sid = None"
  shows "session_inv ph mh (snd (CreateSession I sid body protocol h))"
proof -
  have acq: "session_inv ph mh (h'\<lparr>sessionPools := (sessionPools h')(sid \<mapsto> ref)\<rparr>)"
    if a: "pool_acquire I ref sid h = (Ok u, h')" for ref h' u
  proof (cases ref)
    case UsePg
    obtain r p where p: "AcquireSession (pg_ops I) sid (pgPool h) = (r, p)" by fastforce
    with a UsePg have "r = Ok u" "h' = h\<lparr>pgPool := p\<rparr>" by (auto simp: pool_acquire_def)
    with p UsePg assms show ?thesis
      using pg.acquire_Ok [of sid "pgPool h" u p] by (auto simp: session_inv_def)
  next
    case UseMy
    then obtain m where m: "mysqlPool h = Some m" using a by (auto simp: pool_acquire_def split: option.splits)
    obtain r p where p: "AcquireSession (my_ops I) sid m = (r, p)" by fastforce
    with a UseMy m have "r = Ok u" "h' = h\<lparr>mysqlPool := Some p\<rparr>" by (auto simp: pool_acquire_def)
    with p m UseMy assms show ?thesis
      using my.acquire_Ok [of sid m u p] by (auto simp: session_inv_def my_held_def)
  qed
  have fail: "session_inv ph mh h'" if a: "pool_acquire I ref sid h = (r, h')" "r \<noteq> Ok ()" for ref r h'
  proof (cases ref)
    case UsePg
    obtain r' p where p: "AcquireSession (pg_ops I) sid (pgPool h) = (r', p)" by fastforce
    with a UsePg have "r = r'" "h' = h\<lparr>pgPool := p\<rparr>" by (auto simp: pool_acquire_def)
    with p a assms show ?thesis
      using pg.acquire_fail [of sid "pgPool h" r' p] by (simp add: session_inv_def)
  next
    case UseMy
    show ?thesis
    proof (cases "mysqlPool h")
      case None
      with a UseMy assms show ?thesis by (auto simp: pool_acquire_def)
    next
      case (Some m)
      obtain r' p where p: "AcquireSession (my_ops I) sid m = (r', p)" by fastforce
      with a UseMy Some have "r = r'" "h' = h\<lparr>mysqlPool := Some p\<rparr>" by (auto simp: pool_acquire_def)
      with p a Some assms show ?thesis
        using my.acquire_fail [of sid m r' p] by (simp add: session_inv_def my_held_def)
    qed
  qed
  show ?thesis
    using assms(1) acq fail
    by (auto simp: CreateSession_def Let_def split: result.split option.split prod.split)
qed

lemma CloseSession_inv:
  assumes "session_inv ph mh h"
  shows "session_inv ph mh (snd (CloseSession I sid h))"
proof -
  have my: "my_held mh (map_option (ReleaseSession (my_ops I) sid) m) = my_held mh m - {sid}" for m
    by (cases m) (simp_all add: my_held_def my.release_holds)
  show ?thesis
    using assms
    by (auto simp: CloseSession_def Let_def pool_release_def session_inv_def pg.release_holds my
        split: option.splits pool_ref.splits)
qed

lemma handler_step_inv:
  "session_inv ph mh h \<Longrightarrow> \<forall>s \<in> set (created c). sessionPools h s = None \<Longrightarrow>
   session_inv ph mh (handler_step I c h)"
  by (cases c) (simp_all add: CreateSession_inv HandleQuery_inv CloseSession_inv)

lemma handler_run_inv:
  "session_inv ph mh h \<Longrightarrow> fresh_ids cs \<Longrightarrow> \<forall>c \<in> set cs. \<forall>s \<in> set (created c). sessionPools h s = None \<Longrightarrow>
   session_inv ph mh (handler_run I cs h)"
proof (induction cs arbitrary: h)
  case (Cons c cs)
  have "sessionPools (handler_step I c h) s = None" if "d \<in> set cs" "s \<in> set (created d)" for d s
  proof -
    have "s \<notin> set (created c)" using Cons.prems(2) that by (auto simp: fresh_ids_def)
    moreover have "sessionPools h s = None" using Cons.prems(3) that by simp
    ultimately show ?thesis using handler_step_ids by metis
  qed
  moreover have "session_inv ph mh (handler_step I c h)" using Cons.prems by (simp add: handler_step_inv)
  moreover have "fresh_ids cs" using Cons.prems(2) by (simp add: fresh_ids_def)
  ultimately show ?case using Cons.IH by simp
qed simp

text \<open>What a client sees of a session that was closed, and of one that never was.\<close>

lemma closed_session_query:
  assumes "session_inv ph mh h"
  shows "executeSQL I sid sql cmd (snd (CloseSession I sid h)) =
    (Err (session_not_found sid), snd (CloseSession I sid h))"
proof -
  let ?h = "snd (CloseSession I sid h)"
  have n: "sessionPools ?h sid = None" by (simp add: CloseSession_def Let_def)
  then have "sid \<notin> ph (pgPool ?h)" using CloseSession_inv [OF assms, of sid] by (simp add: session_inv_def)
  with n show ?thesis
    by (simp add: executeSQL_def executeQuery_def executeCommand_def getSessionPool_def pool_query_def
        pool_command_def pg.query_absent pg.command_absent)
qed

end

section \<open>The handler uses its pools only through their methods\<close>

definition via :: "('p, 'm) pools \<Rightarrow> ('p, 'm) Handler \<Rightarrow> ('p, 'm) Handler \<Rightarrow> bool" where
  "via I h h' \<longleftrightarrow>
     (\<exists>xs. pgPool h' = pool_run (pg_ops I) xs (pgPool h)) \<and>
     (\<exists>ys. mysqlPool h' = map_option (pool_run (my_ops I) ys) (mysqlPool h))"

lemma pool_run_append: "pool_run J (xs @ ys) p = pool_run J ys (pool_run J xs p)"
  by (induction xs arbitrary: p) auto

lemma pool_run_simps: "pool_run J [] = (\<lambda>p. p)" "pool_run J [x] = pool_step J x"
  by (rule ext, simp)+

lemma via_same: "pgPool h' = pgPool h \<Longrightarrow> mysqlPool h' = mysqlPool h \<Longrightarrow> via I h h'"
  unfolding via_def
  by (rule conjI; rule exI [of _ "[]"]) (simp_all only: pool_run_simps option.map_ident)

lemma via_trans: "via I h h' \<Longrightarrow> via I h' h'' \<Longrightarrow> via I h h''"
proof -
  assume "via I h h'" "via I h' h''"
  then obtain xs ys xs' ys' where
    "pgPool h' = pool_run (pg_ops I) xs (pgPool h)" "pgPool h'' = pool_run (pg_ops I) xs' (pgPool h')"
    "mysqlPool h' = map_option (pool_run (my_ops I) ys) (mysqlPool h)"
    "mysqlPool h'' = map_option (pool_run (my_ops I) ys') (mysqlPool h')"
    by (auto simp: via_def)
  then have "pgPool h'' = pool_run (pg_ops I) (xs @ xs') (pgPool h)"
    "mysqlPool h'' = map_option (pool_run (my_ops I) (ys @ ys')) (mysqlPool h)"
    by (simp_all add: pool_run_append) (cases "mysqlPool h"; simp add: pool_run_append)
  then show ?thesis unfolding via_def by blast
qed

lemma via_pg:
  "pgPool h' = pool_step (pg_ops I) x (pgPool h) \<Longrightarrow> mysqlPool h' = mysqlPool h \<Longrightarrow> via I h h'"
  unfolding via_def
  by (rule conjI, rule exI [of _ "[x]"], simp, rule exI [of _ "[]"])
    (simp only: pool_run_simps option.map_ident)

lemma via_my:
  "pgPool h' = pgPool h \<Longrightarrow> mysqlPool h' = map_option (pool_step (my_ops I) x) (mysqlPool h) \<Longrightarrow> via I h h'"
  unfolding via_def
  by (rule conjI, rule exI [of _ "[]"], simp, rule exI [of _ "[x]"]) (simp only: pool_run_simps)

lemma via_acquire: "pool_acquire I ref sid h = (r, h') \<Longrightarrow> via I h h'"
proof (cases ref)
  case UsePg
  assume "pool_acquire I ref sid h = (r, h')"
  with UsePg show ?thesis by (intro via_pg [where x = "Acquire sid"]) (auto simp: pool_acquire_def split: prod.splits)
next
  case UseMy
  assume "pool_acquire I ref sid h = (r, h')"
  with UseMy show ?thesis by (intro via_my [where x = "Acquire sid"]) (auto simp: pool_acquire_def split: option.splits prod.splits)
qed

lemma via_release: "via I h (pool_release I ref sid h)"
proof (cases ref)
  case UsePg
  then show ?thesis by (intro via_pg [where x = "Release sid"]) (simp_all add: pool_release_def)
next
  case UseMy
  have "ReleaseSession (my_ops I) sid = pool_step (my_ops I) (Release sid)" by (rule ext) simp
  with UseMy show ?thesis by (intro via_my [where x = "Release sid"]) (simp_all add: pool_release_def)
qed

lemma via_query: "pool_query I ref sid sql h = (r, h') \<Longrightarrow> via I h h'"
proof (cases ref)
  case UsePg
  assume "pool_query I ref sid sql h = (r, h')"
  with UsePg show ?thesis by (intro via_pg [where x = "Query sid sql"]) (auto simp: pool_query_def split: prod.splits)
next
  case UseMy
  assume "pool_query I ref sid sql h = (r, h')"
  with UseMy show ?thesis by (intro via_my [where x = "Query sid sql"]) (auto simp: pool_query_def split: option.splits prod.splits)
qed

lemma via_command: "pool_command I ref sid sql h = (r, h') \<Longrightarrow> via I h h'"
proof (cases ref)
  case UsePg
  assume "pool_command I ref sid sql h = (r, h')"
  with UsePg show ?thesis by (intro via_pg [where x = "Command sid sql"]) (auto simp: pool_command_def split: prod.splits)
next
  case UseMy
  assume "pool_command I ref sid sql h = (r, h')"
  with UseMy show ?thesis by (intro via_my [where x = "Command sid sql"]) (auto simp: pool_command_def split: option.splits prod.splits)
qed

lemma via_executeSQL: "executeSQL I sid sql cmd h = (r, h') \<Longrightarrow> via I h h'"
  using executeSQL_cases [of I sid sql cmd h]
  by (auto simp: executeQuery_def executeCommand_def dest: via_query via_command split: prod.splits)

lemma via_reply: "via I h (snd (reply prefix r h))" "via I h (snd (reply_ignoring r h))"
  using same_core_reply [of h] by (simp_all add: via_same same_core_def)

lemma via_execute_and_reply: "via I h (snd (execute_and_reply I sid sql h))"
proof (cases "executeSQL I sid sql (sqlCommandType sql) h")
  case (Pair r h')
  from via_executeSQL [OF this] have "via I h (snd (reply prefix q h'))" for prefix q
    by (rule via_trans) (rule via_reply)
  with via_executeSQL [OF Pair] show ?thesis by (cases r) (simp_all add: execute_and_reply_def Pair)
qed

lemma via_HandleQuery: "via I h (snd (HandleQuery I sid body h))"
proof -
  have "via I h (snd (reply prefix r (h\<lparr>stmts := x\<rparr>)))" for prefix r x
    by (rule via_trans [OF via_same via_reply(1)]) simp_all
  then show ?thesis
    by (simp add: HandleQuery_def via_reply via_execute_and_reply via_same split: result.split option.split)
qed

lemma via_CreateSession: "via I h (snd (CreateSession I sid body protocol h))"
proof -
  have "via I h (h'\<lparr>sessionPools := x\<rparr>)" if "pool_acquire I ref sid h = (r, h')" for ref r h' x
    by (rule via_trans [OF via_acquire [OF that] via_same]) simp_all
  then show ?thesis
    by (auto simp: CreateSession_def Let_def via_same dest: via_acquire split: result.split option.split prod.split)
qed

lemma via_CloseSession: "via I h (snd (CloseSession I sid h))"
proof -
  have "via I h (g\<lparr>stmts := x, sessionPools := y\<rparr>)" if "via I h g" for g x y
    by (rule via_trans [OF that via_same]) simp_all
  moreover have "via I h (case sessionPools h sid of
      Some ref \<Rightarrow> pool_release I ref sid h | None \<Rightarrow> pool_release I UseMy sid (pool_release I UsePg sid h))"
    using via_release [of I h] via_trans [OF via_release via_release] by (auto split: option.split)
  ultimately show ?thesis by (simp add: CloseSession_def Let_def)
qed

lemma via_handler_run: "via I h (handler_run I cs h)"
proof (induction cs arbitrary: h)
  case (Cons c cs)
  have "via I h (handler_step I c h)"
    by (cases c) (simp_all add: via_HandleQuery via_CreateSession via_CloseSession)
  then show ?case using Cons.IH via_trans by fastforce
qed (simp add: via_same)

lemma NewHandler_OkD:
  "NewHandler pg my key rnd = Ok h \<Longrightarrow>
   pgPool h = pg \<and> mysqlPool h = my \<and> good_key (encKey h) \<and> stmts h = Map.empty \<and>
   sessionPools h = Map.empty \<and> entropy h = rnd"
  by (auto simp: NewHandler_def rbind_eq_Ok_iff dest: DeriveKey_good)

section \<open>Witnesses\<close>

text \<open>A pool that answers every query with one row, and a handler over it.\<close>

definition echo_pool :: "unit Pool" where
  "echo_pool =
     \<lparr>AcquireSession = (\<lambda>s p. (Ok (), p)), ReleaseSession = (\<lambda>s p. p), GetStats = (\<lambda>p. no_stats),
      ExecSQL = (\<lambda>s q p. (Ok \<lparr>q_Columns = [''a''], q_Rows = [[''1'']], q_RowsAffected = 0\<rparr>, p)),
      ExecCommand = (\<lambda>s q p. (Ok 1, p))\<rparr>"

definition echo_pools :: "(unit, unit) pools" where
  "echo_pools = \<lparr>pg_ops = echo_pool, my_ops = echo_pool\<rparr>"

definition echo_handler :: "(unit, unit) Handler" where
  "echo_handler =
     \<lparr>pgPool = (), mysqlPool = None, encKey = example_key, stmts = Map.empty, sessionPools = Map.empty,
      entropy = example_entropy\<rparr>"

definition select_request :: "char \<Rightarrow> QueryRequest" where
  "select_request t = \<lparr>Type = byte_of t, SQL = ''SELECT 1'', Raw = []\<rparr>"

definition select_body :: "char \<Rightarrow> byte list" where
  "select_body t = message example_key (replicate 12 1) (Marshal (request_json (select_request t)))"

lemma length_show_nat_3: "n < 1000 \<Longrightarrow> length (show_nat n) \<le> 3"
proof -
  assume n: "n < 1000"
  consider "n < 10" | "10 \<le> n" "n div 10 < 10" | "10 \<le> n" "10 \<le> n div 10" "n div 10 div 10 < 10"
    using n by linarith
  then show ?thesis
    by cases (simp_all add: show_nat.simps [of n] show_nat.simps [of "n div 10"] show_nat.simps [of "n div 10 div 10"])
qed

lemma length_select_request: "length (Marshal (request_json (select_request t))) \<le> gcm_limit"
proof -
  have "length (fmt_d (uint (byte_of t))) \<le> 3"
    using length_show_nat_3 [of "unat (byte_of t)"] unat_byte_less [of "byte_of t"] by (simp add: fmt_d_def)
  then show ?thesis
    by (simp add: Marshal_def request_json_def select_request_def omitempty_def json_int_def render_string_def
        escape_string.simps(2) escape_char_def gcm_limit_def)
qed

lemma received_select: "encKey h = example_key \<Longrightarrow> received h (select_body t) = Ok (select_request t)"
  using request_codec.received [of "select_body t" example_key "select_request t"]
  by (simp add: received_def select_body_def Decrypt_message length_select_request valid_request_def)
    (simp add: select_request_def ascii_to_valid)

theorem HandleQuery_refines_witness:
  "\<exists>c h. HandleQuery echo_pools ''session-1'' (select_body CHR ''Q'') echo_handler = (Ok c, h) \<and>
     rbind (Decrypt c example_key) Unmarshal_response =
       Ok \<lparr>Columns = [''a''], Rows = [[''1'']], RowsAffected = 0, Error = []\<rparr>"
proof -
  let ?r = "\<lparr>Columns = [''a''], Rows = [[''1'']], RowsAffected = 0, Error = []\<rparr>"
  have e: "Encrypt (Marshal (request_json (select_request CHR ''Q''))) (encKey echo_handler) example_entropy =
    (Ok (select_body CHR ''Q''), example_entropy\<lparr>pending := replicate 20 1\<rparr>)"
    by (simp add: Encrypt_Ok example_entropy_def echo_handler_def select_body_def length_select_request)
  have v: "(select_request CHR ''Q'')\<lparr>SQL := to_valid (SQL (select_request CHR ''Q''))\<rparr> = select_request CHR ''Q''"
    by (simp add: select_request_def ascii_to_valid)
  have s: "serve echo_pools ''session-1'' (select_request CHR ''Q'') echo_handler = (Ok ?r, echo_handler)"
    by (simp add: serve_def select_request_def run_statement_def executeSQL_def sqlCommandType_first_word first_word_def
        is_space_def ends_word_def executeQuery_def pool_query_def getSessionPool_def echo_pools_def echo_pool_def
        echo_handler_def)
  have l: "length (Marshal (response_json ?r)) \<le> gcm_limit"
    by (simp add: Marshal_def response_json_def omitempty_def json_int_def json_strings_def
      render_string_def escape_string.simps(2) escape_char_def fmt_d_def show_nat.simps gcm_limit_def)
  from HandleQuery_refines [where I = echo_pools and sid = "''session-1''" and r = ?r, OF e] s v l
  show ?thesis by (auto simp: echo_handler_def example_entropy_def ascii_to_valid)
qed

theorem unsealed_requests_rejected_witness:
  "HandleQuery echo_pools ''session-1'' [1, 2, 3] echo_handler = (Err (Wrap ''decrypt'' ErrDecryptFail), echo_handler)"
proof -
  have "[1, 2, 3] \<noteq> nonce @ gcm_seal (encKey echo_handler) nonce p" if "length nonce = 12" for nonce p
  proof
    assume "[1, 2, 3] = nonce @ gcm_seal (encKey echo_handler) nonce p"
    then have "length [1, 2, 3 :: byte] = length (nonce @ gcm_seal (encKey echo_handler) nonce p)" by (rule arg_cong)
    with that show False by simp
  qed
  then show ?thesis
    using unsealed_requests_rejected [of echo_handler "[1, 2, 3]" echo_pools "''session-1''" "''pg''"]
    by (auto simp: echo_handler_def)
qed

theorem extended_query_runs_once_witness:
  "HandleQuery echo_pools ''session-1'' (select_body CHR ''E'')
     (query_run echo_pools ''session-1'' [select_body CHR ''P'', select_body CHR ''B'', select_body CHR ''D''] echo_handler) =
   execute_and_reply echo_pools ''session-1'' ''SELECT 1''
     (query_run echo_pools ''session-1'' [select_body CHR ''P'', select_body CHR ''B'', select_body CHR ''D''] echo_handler)"
proof -
  have k: "encKey echo_handler = example_key" by (simp add: echo_handler_def)
  note r = received_select [OF k]
  have "list_all (is_middle echo_handler) [select_body CHR ''B'', select_body CHR ''D'']"
    by (simp add: is_middle_def r select_request_def)
  from extended_query_runs_once [OF r [of "CHR ''P''"] _ _ _ this refl r [of "CHR ''E''"],
      where sid = "''session-1''" and I = echo_pools]
  show ?thesis by (simp add: select_request_def)
qed

theorem unparsed_statement_witness:
  "HandleQuery echo_pools ''session-1'' (select_body CHR ''E'') echo_handler =
   (Err (ErrorS ''no parsed statement found for session''), echo_handler)"
proof -
  have k: "encKey echo_handler = example_key" by (simp add: echo_handler_def)
  from unparsed_statement [OF received_select [OF k, of "CHR ''E''"], of "''session-1''" echo_pools]
  show ?thesis by (simp add: echo_handler_def select_request_def)
qed

end
