(* ===== verification/Adapter.thy ===== *)
theory Adapter
  imports Handler
begin

text \<open>
  The model of \<^verbatim>\<open>pkg/handler/adapter\<close> (\<^verbatim>\<open>gin.go\<close> and \<^verbatim>\<open>fiber.go\<close>) and of the two files of
  \<^verbatim>\<open>cmd/server\<close> that put a framework around it. The frameworks are not modelled: a \<open>Request\<close>
  is what their context gives a handler function (header values, path parameters, body), a
  \<open>Response\<close> what the function makes them write, and which route a path takes is the parameter
  \<open>matcher\<close>.
\<close>

section \<open>Requests and responses\<close>

datatype media = Json | Text | Octets

record Request =
  Header :: "string \<Rightarrow> string"
  Param :: "string \<Rightarrow> string"
  Body :: "byte list result"

record Response =
  StatusCode :: nat
  Content :: media
  RespBody :: "byte list"

definition respond_json :: "nat \<Rightarrow> json \<Rightarrow> Response" where
  "respond_json status v = \<lparr>StatusCode = status, Content = Json, RespBody = Marshal v\<rparr>"

definition error_json :: "string \<Rightarrow> json" where
  "error_json text = JObj [(''error'', JStr text)]"

definition stats_json :: "PoolStats \<Rightarrow> json" where
  "stats_json s =
     JObj [(''total_conns'', json_int (sint (TotalConns s))), (''acquired_conns'', json_int (sint (AcquiredConns s))),
           (''idle_conns'', json_int (sint (IdleConns s))), (''max_conns'', json_int (sint (MaxConns s)))]"

text \<open>\<open>omitempty\<close> never leaves out a struct.\<close>

definition health_json :: "HealthStatus \<Rightarrow> json" where
  "health_json hs =
     JObj [(''status'', JStr (hs_Status hs)), (''pg_pool'', stats_json (hs_PgPool hs)),
           (''my_pool'', stats_json (hs_MyPool hs))]"

section \<open>Gin\<close>

text \<open>A handler function's outcome is a response or a panic; \<open>sid\<close> is the id \<^verbatim>\<open>uuid.New\<close> makes.\<close>

definition ginCreateSession ::
  "('p, 'm) pools \<Rightarrow> string \<Rightarrow> Request \<Rightarrow> ('p, 'm) Handler \<Rightarrow> Response result \<times> ('p, 'm) Handler" where
  "ginCreateSession I sid c h =
     (case Body c of
        Err e \<Rightarrow> (Ok (respond_json 400 (error_json (''read body: '' @ error_text e))), h)
      | Panic p \<Rightarrow> (Panic p, h)
      | Ok body \<Rightarrow>
          (let protocol = Header c ''X-Protocol'';
               protocol = (if protocol = [] then ''pg'' else protocol)
           in (case CreateSession I sid body protocol h of
                 (Err e, h) \<Rightarrow> (Ok (respond_json 500 (error_json (error_text e))), h)
               | (Panic p, h) \<Rightarrow> (Panic p, h)
               | (Ok sessionID, h) \<Rightarrow>
                   (Ok \<lparr>StatusCode = 200, Content = Text, RespBody = bytes_of sessionID\<rparr>, h))))"

definition ginHandleQuery ::
  "('p, 'm) pools \<Rightarrow> Request \<Rightarrow> ('p, 'm) Handler \<Rightarrow> Response result \<times> ('p, 'm) Handler" where
  "ginHandleQuery I c h =
     (let sessionID = Header c ''X-Session-ID'' in
      if sessionID = [] then (Ok (respond_json 400 (error_json ''missing X-Session-ID header'')), h)
      else
        (case Body c of
           Err e \<Rightarrow> (Ok (respond_json 400 (error_json (''read body: '' @ error_text e))), h)
         | Panic p \<Rightarrow> (Panic p, h)
         | Ok body \<Rightarrow>
             (case HandleQuery I sessionID body h of
                (Err e, h) \<Rightarrow> (Ok (respond_json 500 (error_json (error_text e))), h)
              | (Panic p, h) \<Rightarrow> (Panic p, h)
              | (Ok encrypted, h) \<Rightarrow> (Ok \<lparr>StatusCode = 200, Content = Octets, RespBody = encrypted\<rparr>, h))))"

definition ginCloseSession ::
  "('p, 'm) pools \<Rightarrow> Request \<Rightarrow> ('p, 'm) Handler \<Rightarrow> Response result \<times> ('p, 'm) Handler" where
  "ginCloseSession I c h =
     (let sessionID = Param c ''session_id'' in
      if sessionID = [] then (Ok (respond_json 400 (error_json ''missing session_id'')), h)
      else
        (case CloseSession I sessionID h of
           (Ok _, h) \<Rightarrow> (Ok (respond_json 200 (JObj [(''status'', JStr ''closed'')])), h)
         | (Err e, h) \<Rightarrow> (Err e, h)
         | (Panic p, h) \<Rightarrow> (Panic p, h)))"

definition ginHealthCheck ::
  "('p, 'm) pools \<Rightarrow> Request \<Rightarrow> ('p, 'm) Handler \<Rightarrow> Response result \<times> ('p, 'm) Handler" where
  "ginHealthCheck I c h = (Ok (respond_json 200 (health_json (HealthCheck I h))), h)"

section \<open>Fiber\<close>

text \<open>
  \<^verbatim>\<open>c.Body\<close> has no error: Fiber calls a handler with the whole body read. The strings Fiber gives
  out are only valid inside the handler function; this model copies them.
\<close>

definition fiberCreateSession ::
  "('p, 'm) pools \<Rightarrow> string \<Rightarrow> Request \<Rightarrow> byte list \<Rightarrow> ('p, 'm) Handler \<Rightarrow> Response result \<times> ('p, 'm) Handler" where
  "fiberCreateSession I sid c body h =
     (let protocol = Header c ''X-Protocol'';
          protocol = (if protocol = [] then ''pg'' else protocol)
      in (case CreateSession I sid body protocol h of
            (Err e, h) \<Rightarrow> (Ok (respond_json 500 (error_json (error_text e))), h)
          | (Panic p, h) \<Rightarrow> (Panic p, h)
          | (Ok sessionID, h) \<Rightarrow>
              (Ok \<lparr>StatusCode = 200, Content = Text, RespBody = bytes_of sessionID\<rparr>, h)))"

definition fiberHandleQuery ::
  "('p, 'm) pools \<Rightarrow> Request \<Rightarrow> byte list \<Rightarrow> ('p, 'm) Handler \<Rightarrow> Response result \<times> ('p, 'm) Handler" where
  "fiberHandleQuery I c body h =
     (let sessionID = Header c ''X-Session-ID'' in
      if sessionID = [] then (Ok (respond_json 400 (error_json ''missing X-Session-ID header'')), h)
      else
        (case HandleQuery I sessionID body h of
           (Err e, h) \<Rightarrow> (Ok (respond_json 500 (error_json (error_text e))), h)
         | (Panic p, h) \<Rightarrow> (Panic p, h)
         | (Ok encrypted, h) \<Rightarrow> (Ok \<lparr>StatusCode = 200, Content = Octets, RespBody = encrypted\<rparr>, h)))"

definition fiberCloseSession ::
  "('p, 'm) pools \<Rightarrow> Request \<Rightarrow> ('p, 'm) Handler \<Rightarrow> Response result \<times> ('p, 'm) Handler" where
  "fiberCloseSession I c h =
     (let sessionID = Param c ''session_id'' in
      if sessionID = [] then (Ok (respond_json 400 (error_json ''missing session_id'')), h)
      else
        (case CloseSession I sessionID h of
           (Ok _, h) \<Rightarrow> (Ok (respond_json 200 (JObj [(''status'', JStr ''closed'')])), h)
         | (Err e, h) \<Rightarrow> (Err e, h)
         | (Panic p, h) \<Rightarrow> (Panic p, h)))"

definition fiberHealthCheck ::
  "('p, 'm) pools \<Rightarrow> Request \<Rightarrow> ('p, 'm) Handler \<Rightarrow> Response result \<times> ('p, 'm) Handler" where
  "fiberHealthCheck I c h = (Ok (respond_json 200 (health_json (HealthCheck I h))), h)"

section \<open>Routes\<close>

datatype route = Health | SessionCreate | QueryRun | SessionClose

text \<open>
  The tables the two \<open>Register\<close> functions fill, below the group's prefix: Gin's group is made
  by \<^verbatim>\<open>cmd/server/serve_gin.go\<close>, Fiber's by \<open>RegisterFiberRoutes\<close> itself.
\<close>

definition RegisterGinRoutes :: "string \<Rightarrow> (string \<times> string \<times> route) list" where
  "RegisterGinRoutes base =
     [(''GET'', base @ ''/health'', Health), (''POST'', base @ ''/session'', SessionCreate),
      (''POST'', base @ ''/query'', QueryRun), (''DELETE'', base @ ''/session/:session_id'', SessionClose)]"

definition gin_routes :: "(string \<times> string \<times> route) list" where
  "gin_routes = RegisterGinRoutes ''/api/v1''"

definition RegisterFiberRoutes :: "(string \<times> string \<times> route) list" where
  "RegisterFiberRoutes =
     (let api = ''/api/v1'' in
      [(''GET'', api @ ''/health'', Health), (''POST'', api @ ''/session'', SessionCreate),
       (''POST'', api @ ''/query'', QueryRun), (''DELETE'', api @ ''/session/:session_id'', SessionClose)])"

text \<open>
  A framework's matcher: the parameters a path gives for a pattern, or \<open>None\<close>. The server runs
  the first route that matches; \<^verbatim>\<open>gin.Recovery\<close> turns a panic into status 500, and a path
  without a route is status 404. Gin answers some of those, a route's path with a slash more, with a
  redirect instead; it runs no handler function for them either.
\<close>

type_synonym matcher = "string \<Rightarrow> string \<Rightarrow> (string \<Rightarrow> string) option"

fun find_route :: "matcher \<Rightarrow> (string \<times> string \<times> route) list \<Rightarrow> string \<Rightarrow> string \<Rightarrow> (route \<times> (string \<Rightarrow> string)) option" where
  "find_route m [] meth path = None"
| "find_route m ((meth', pattern, r) # rs) meth path =
     (case m pattern path of
        Some ps \<Rightarrow> if meth = meth' then Some (r, ps) else find_route m rs meth path
      | None \<Rightarrow> find_route m rs meth path)"

definition run_route ::
  "('p, 'm) pools \<Rightarrow> string \<Rightarrow> route \<Rightarrow> Request \<Rightarrow> ('p, 'm) Handler \<Rightarrow> Response result \<times> ('p, 'm) Handler" where
  "run_route I sid r c h =
     (case r of
        Health \<Rightarrow> ginHealthCheck I c h
      | SessionCreate \<Rightarrow> ginCreateSession I sid c h
      | QueryRun \<Rightarrow> ginHandleQuery I c h
      | SessionClose \<Rightarrow> ginCloseSession I c h)"

definition empty_status :: "nat \<Rightarrow> Response" where
  "empty_status s = \<lparr>StatusCode = s, Content = Text, RespBody = []\<rparr>"

definition serve_gin ::
  "('p, 'm) pools \<Rightarrow> matcher \<Rightarrow> string \<Rightarrow> string \<Rightarrow> string \<Rightarrow> (string \<Rightarrow> string) \<Rightarrow> byte list result
    \<Rightarrow> ('p, 'm) Handler \<Rightarrow> Response \<times> ('p, 'm) Handler" where
  "serve_gin I m sid meth path header body h =
     (case find_route m gin_routes meth path of
        None \<Rightarrow> (\<lparr>StatusCode = 404, Content = Text, RespBody = bytes_of ''404 page not found''\<rparr>, h)
      | Some (r, ps) \<Rightarrow>
          (case run_route I sid r \<lparr>Header = header, Param = ps, Body = body\<rparr> h of
             (Ok resp, h) \<Rightarrow> (resp, h)
           | (_, h) \<Rightarrow> (empty_status 500, h)))"

section \<open>The two frameworks' functions agree\<close>

text \<open>
  The Gin and the Fiber build answer every request whose body could be read the same way,
  with the same effect on the handler, on the same routes.
\<close>

theorem gin_fiber_agree:
  "ginCreateSession I sid (c\<lparr>Body := Ok body\<rparr>) h = fiberCreateSession I sid c body h
   \<and> ginHandleQuery I (c\<lparr>Body := Ok body\<rparr>) h = fiberHandleQuery I c body h
   \<and> ginCloseSession I c h = fiberCloseSession I c h
   \<and> ginHealthCheck I c h = fiberHealthCheck I c h
   \<and> gin_routes = RegisterFiberRoutes"
  by (simp add: ginCreateSession_def fiberCreateSession_def ginHandleQuery_def fiberHandleQuery_def
      ginCloseSession_def fiberCloseSession_def ginHealthCheck_def fiberHealthCheck_def gin_routes_def
      RegisterGinRoutes_def RegisterFiberRoutes_def Let_def)

section \<open>Which function answers a request\<close>

text \<open>
  What the routers document of the patterns of the four routes: a pattern without parameters is
  matched by the path it is, and a final \<open>:session_id\<close> by one non-empty segment. Which other paths
  a framework takes for a route (another case, a trailing slash) is left open where it may be.
\<close>

definition plain_patterns :: "string list" where
  "plain_patterns = [''/api/v1/health'', ''/api/v1/session'', ''/api/v1/query'']"

definition matcher_ok :: "matcher \<Rightarrow> bool" where
  "matcher_ok m \<longleftrightarrow>
     (\<forall>p \<in> set plain_patterns. \<forall>path \<in> set plain_patterns. m p path = (if path = p then Some (\<lambda>_. []) else None)) \<and>
     (\<forall>v. v \<noteq> [] \<longrightarrow> (\<forall>p \<in> set plain_patterns. m p (''/api/v1/session/'' @ v) = None) \<and>
        (CHR ''/'' \<notin> set v \<longrightarrow>
           m ''/api/v1/session/:session_id'' (''/api/v1/session/'' @ v) = Some ((\<lambda>_. [])(''session_id'' := v))))"

lemma matcher_plain:
  "matcher_ok m \<Longrightarrow> p \<in> set plain_patterns \<Longrightarrow> path \<in> set plain_patterns \<Longrightarrow>
   m p path = (if path = p then Some (\<lambda>_. []) else None)"
  unfolding matcher_ok_def by (elim conjE) (drule (1) bspec, drule (1) bspec)

lemma matcher_close:
  assumes "matcher_ok m" "v \<noteq> []"
  shows "p \<in> set plain_patterns \<Longrightarrow> m p (''/api/v1/session/'' @ v) = None"
    and "CHR ''/'' \<notin> set v \<Longrightarrow>
      m ''/api/v1/session/:session_id'' (''/api/v1/session/'' @ v) = Some ((\<lambda>_. [])(''session_id'' := v))"
  using spec [OF conjunct2 [OF assms(1) [unfolded matcher_ok_def]], of v] assms(2) by simp_all

lemma gin_routes_patterns:
  "gin_routes = [(''GET'', ''/api/v1/health'', Health), (''POST'', ''/api/v1/session'', SessionCreate),
     (''POST'', ''/api/v1/query'', QueryRun), (''DELETE'', ''/api/v1/session/:session_id'', SessionClose)]"
  by (simp add: gin_routes_def RegisterGinRoutes_def)

lemma plain_patterns [simp]:
  "''/api/v1/health'' \<in> set plain_patterns" "''/api/v1/session'' \<in> set plain_patterns"
  "''/api/v1/query'' \<in> set plain_patterns"
  by (simp_all add: plain_patterns_def)

lemma find_create:
  "matcher_ok m \<Longrightarrow> find_route m gin_routes ''POST'' ''/api/v1/session'' = Some (SessionCreate, \<lambda>_. [])"
  by (simp add: gin_routes_patterns matcher_plain)

lemma find_query:
  "matcher_ok m \<Longrightarrow> find_route m gin_routes ''POST'' ''/api/v1/query'' = Some (QueryRun, \<lambda>_. [])"
  by (simp add: gin_routes_patterns matcher_plain)

lemma find_close:
  assumes "matcher_ok m" "v \<noteq> []" "CHR ''/'' \<notin> set v"
  shows "find_route m gin_routes ''DELETE'' (''/api/v1/session/'' @ v) =
    Some (SessionClose, (\<lambda>_. [])(''session_id'' := v))"
proof -
  note c = matcher_close [OF assms(1,2)]
  show ?thesis
    unfolding gin_routes_patterns find_route.simps c(1) [OF plain_patterns(1)] c(1) [OF plain_patterns(2)]
      c(1) [OF plain_patterns(3)] c(2) [OF assms(3)] by simp
qed

lemma serve_query_lemma:
  assumes "matcher_ok m"
  shows "serve_gin I m sid ''POST'' ''/api/v1/query'' header (Ok body) h =
    (if header ''X-Session-ID'' = [] then
       (respond_json 400 (error_json ''missing X-Session-ID header''), h)
     else
       (case HandleQuery I (header ''X-Session-ID'') body h of
          (Ok bs, h') \<Rightarrow> (\<lparr>StatusCode = 200, Content = Octets, RespBody = bs\<rparr>, h')
        | (Err e, h') \<Rightarrow> (respond_json 500 (error_json (error_text e)), h')
        | (Panic p, h') \<Rightarrow> (empty_status 500, h')))"
  using find_query [OF assms]
  by (simp add: serve_gin_def run_route_def ginHandleQuery_def Let_def split: prod.split result.split)

text \<open>
  What the server answers to a query: 400 without a session id, 500 when the handler fails or
  panics, with the handler's error as JSON in the first case, and otherwise 200 with the
  handler's bytes.
\<close>

theorem serve_query:
  assumes "matcher_ok m"
  shows "serve_gin I m sid ''POST'' ''/api/v1/query'' header (Ok body) h =
    (if header ''X-Session-ID'' = [] then
       (respond_json 400 (error_json ''missing X-Session-ID header''), h)
     else
       (case HandleQuery I (header ''X-Session-ID'') body h of
          (Ok bs, h') \<Rightarrow> (\<lparr>StatusCode = 200, Content = Octets, RespBody = bs\<rparr>, h')
        | (Err e, h') \<Rightarrow> (respond_json 500 (error_json (error_text e)), h')
        | (Panic p, h') \<Rightarrow> (empty_status 500, h')))"
  by (rule serve_query_lemma [OF assms])

text \<open>
  C40: Closing a session needs no key: any request for the path of a session id, whoever sends it,
  has the session's pool (or, when the id is not recorded, both) release it, and its recorded pool
  and its cached statement deleted; nothing else changes. The answer is 200, and for an id of fewer
  than eight characters 500, the handler having panicked after all of this.
\<close>

theorem serve_close_unauthenticated:
  assumes "matcher_ok m" "v \<noteq> []" "CHR ''/'' \<notin> set v"
  shows "snd (serve_gin I m sid ''DELETE'' (''/api/v1/session/'' @ v) header body h) =
      h\<lparr>pgPool := (if sessionPools h v = Some UseMy then pgPool h else ReleaseSession (pg_ops I) v (pgPool h)),
        mysqlPool := (if sessionPools h v = Some UsePg then mysqlPool h
                      else map_option (ReleaseSession (my_ops I) v) (mysqlPool h)),
        stmts := (stmts h)(v := None), sessionPools := (sessionPools h)(v := None)\<rparr>
    \<and> StatusCode (fst (serve_gin I m sid ''DELETE'' (''/api/v1/session/'' @ v) header body h)) =
        (if length v < 8 then 500 else 200)"
  using find_close [OF assms] assms(2)
  by (auto simp: serve_gin_def run_route_def ginCloseSession_def CloseSession_def pool_release_def Let_def log_id_def
      slice_def respond_json_def empty_status_def split: option.split pool_ref.split)

section \<open>Witnesses\<close>

text \<open>A matcher on exact paths and one final parameter.\<close>

definition last_segment :: "string \<Rightarrow> string" where
  "last_segment path = rev (takeWhile (\<lambda>c. c \<noteq> CHR ''/'') (rev path))"

definition example_matcher :: matcher where
  "example_matcher pattern path =
     (if CHR '':'' \<notin> set pattern then (if path = pattern then Some (\<lambda>_. []) else None)
      else
        (let pre = takeWhile (\<lambda>c. c \<noteq> CHR '':'') pattern;
             name = tl (dropWhile (\<lambda>c. c \<noteq> CHR '':'') pattern);
             v = drop (length pre) path
         in if take (length pre) path = pre \<and> v \<noteq> [] \<and> CHR ''/'' \<notin> set v
            then Some ((\<lambda>_. [])(name := v)) else None))"

lemma example_matcher_ok: "matcher_ok example_matcher"
  by (simp add: matcher_ok_def plain_patterns_def example_matcher_def)

theorem serve_query_witness:
  "serve_gin echo_pools example_matcher ''id'' ''POST'' ''/api/v1/query'' (\<lambda>_. []) (Ok []) echo_handler =
   (respond_json 400 (error_json ''missing X-Session-ID header''), echo_handler)"
  using serve_query [OF example_matcher_ok, of echo_pools "''id''" "\<lambda>_. []" "[]" echo_handler] by simp

theorem serve_close_unauthenticated_witness:
  "serve_gin echo_pools example_matcher ''id'' ''DELETE'' (''/api/v1/session/'' @ ''abc'') (\<lambda>_. []) (Ok [])
     (echo_handler\<lparr>stmts := [''abc'' \<mapsto> ''SELECT 1''], sessionPools := [''abc'' \<mapsto> UsePg]\<rparr>) =
   (empty_status 500, echo_handler)"
proof -
  let ?h = "echo_handler\<lparr>stmts := [''abc'' \<mapsto> ''SELECT 1''], sessionPools := [''abc'' \<mapsto> UsePg]\<rparr>"
  have v: "''abc'' \<noteq> ([] :: string)" "CHR ''/'' \<notin> set ''abc''" by simp_all
  note s = serve_close_unauthenticated [OF example_matcher_ok v, of echo_pools "''id''" "\<lambda>_. []" "Ok []" ?h]
  from s have "snd (serve_gin echo_pools example_matcher ''id'' ''DELETE'' (''/api/v1/session/'' @ ''abc'') (\<lambda>_. []) (Ok []) ?h) = echo_handler"
    by (simp add: echo_handler_def echo_pools_def echo_pool_def)
  moreover have "fst (serve_gin echo_pools example_matcher ''id'' ''DELETE'' (''/api/v1/session/'' @ ''abc'') (\<lambda>_. []) (Ok []) ?h) =
      empty_status 500"
    using find_close [OF example_matcher_ok v]
    by (simp add: serve_gin_def run_route_def ginCloseSession_def CloseSession_def log_id_def slice_def Let_def)
  ultimately show ?thesis by (simp add: prod_eq_iff)
qed

end
