(* ===== verification/HttpClient.thy ===== *)
theory HttpClient
  imports Crypto Messages
begin

text \<open>
  The model of \<^verbatim>\<open>pkg/httpclient/client.go\<close>, the proxies' side of the encrypted API. The network
  and the server behind it are the parameter \<open>transport\<close>: \<open>parse_url\<close> is the outcome of
  \<^verbatim>\<open>http.NewRequest\<close> on a URL, \<open>roundtrip\<close> what \<^verbatim>\<open>httpClient.Do\<close> returns for a request and
  does to the network's state, a reply's body being what \<^verbatim>\<open>io.ReadAll\<close> makes of it. The random
  source is threaded beside that state.
\<close>

section \<open>Requests and the network\<close>

record HttpRequest =
  hMethod :: string
  hURL :: string
  hHeader :: "(string \<times> string) list"
  hBody :: "byte list"

record HttpReply =
  hStatus :: nat
  hRead :: "byte list result"

record 'n transport =
  parse_url :: "string \<Rightarrow> unit result"
  roundtrip :: "HttpRequest \<Rightarrow> 'n \<Rightarrow> HttpReply result \<times> 'n"

record 'n net =
  remote :: 'n
  random :: reader

section \<open>The client\<close>

record ClientConfig =
  BaseURL :: string
  Timeout :: int
  RetryAttempts :: int

definition second :: int where
  "second = 1000000000"

definition DefaultClientConfig :: ClientConfig where
  "DefaultClientConfig = \<lparr>BaseURL = [], Timeout = 30 * second, RetryAttempts = 0\<rparr>"

record Client =
  serverURL :: string
  httpTimeout :: int
  clientKey :: "byte list"
  retryAttempts :: int

definition NewClientWithConfig :: "ClientConfig \<Rightarrow> string \<Rightarrow> Client result" where
  "NewClientWithConfig cfg key =
     rbind (wrap_err ''derive key'' (DeriveKey key)) (\<lambda>k.
       let cfg = (if Timeout cfg \<le> 0 then cfg\<lparr>Timeout := 30 * second\<rparr> else cfg)
       in Ok \<lparr>serverURL = BaseURL cfg, httpTimeout = Timeout cfg, clientKey = k, retryAttempts = RetryAttempts cfg\<rparr>)"

definition NewClient :: "string \<Rightarrow> string \<Rightarrow> Client result" where
  "NewClient url key = NewClientWithConfig (DefaultClientConfig\<lparr>BaseURL := url\<rparr>) key"

section \<open>The calls\<close>

text \<open>The bytes of a reply that has status 200; \<open>fail\<close> makes the error of another status.\<close>

definition read_reply :: "string \<Rightarrow> (nat \<Rightarrow> string \<Rightarrow> string) \<Rightarrow> HttpReply \<Rightarrow> byte list result" where
  "read_reply prefix fail resp =
     rbind (wrap_err prefix (hRead resp)) (\<lambda>body.
       if hStatus resp \<noteq> 200 then Err (ErrorS (fail (hStatus resp) (string_of body))) else Ok body)"

definition SessionRequest ::
  "'n transport \<Rightarrow> Client \<Rightarrow> byte list \<Rightarrow> string \<Rightarrow> 'n net \<Rightarrow> string result \<times> 'n net" where
  "SessionRequest T c params protocol w =
     (case Encrypt params (clientKey c) (random w) of (encrypted, rnd) \<Rightarrow>
        let w = w\<lparr>random := rnd\<rparr>; url = serverURL c @ ''/api/v1/session'' in
        (case rbind (wrap_err ''encrypt startup params'' encrypted) (\<lambda>body.
                rbind (wrap_err ''create session request'' (parse_url T url)) (\<lambda>_. Ok body)) of
           Err e \<Rightarrow> (Err e, w)
         | Panic p \<Rightarrow> (Panic p, w)
         | Ok body \<Rightarrow>
             (case roundtrip T \<lparr>hMethod = ''POST'', hURL = url,
                 hHeader = [(''Content-Type'', ''application/octet-stream''), (''X-Protocol'', protocol)],
                 hBody = body\<rparr> (remote w) of
                (resp, n) \<Rightarrow>
                  (rbind (wrap_err ''http post session'' resp) (\<lambda>resp.
                   rbind (read_reply ''read session response''
                      (\<lambda>s b. ''session creation failed: status='' @ show_nat s @ '' body='' @ b) resp) (\<lambda>body.
                   Ok (string_of body))),
                   w\<lparr>remote := n\<rparr>))))"

definition QueryRequest_send ::
  "'n transport \<Rightarrow> Client \<Rightarrow> string \<Rightarrow> byte list \<Rightarrow> 'n net \<Rightarrow> byte list result \<times> 'n net" where
  "QueryRequest_send T c sessionID msgBytes w =
     (case Encrypt msgBytes (clientKey c) (random w) of (encrypted, rnd) \<Rightarrow>
        let w = w\<lparr>random := rnd\<rparr>; url = serverURL c @ ''/api/v1/query'' in
        (case rbind (wrap_err ''encrypt message'' encrypted) (\<lambda>body.
                rbind (wrap_err ''create request'' (parse_url T url)) (\<lambda>_. Ok body)) of
           Err e \<Rightarrow> (Err e, w)
         | Panic p \<Rightarrow> (Panic p, w)
         | Ok body \<Rightarrow>
             (case roundtrip T \<lparr>hMethod = ''POST'', hURL = url,
                 hHeader = [(''Content-Type'', ''application/octet-stream''), (''X-Session-ID'', sessionID)],
                 hBody = body\<rparr> (remote w) of
                (resp, n) \<Rightarrow>
                  (rbind (wrap_err ''http post query'' resp) (\<lambda>resp.
                   rbind (read_reply ''read query response''
                      (\<lambda>s b. ''query failed: status='' @ show_nat s @ '' body='' @ b) resp) (\<lambda>body.
                   wrap_err ''decrypt response'' (Decrypt body (clientKey c)))),
                   w\<lparr>remote := n\<rparr>))))"

definition CloseSession_send :: "'n transport \<Rightarrow> Client \<Rightarrow> string \<Rightarrow> 'n net \<Rightarrow> unit result \<times> 'n net" where
  "CloseSession_send T c sessionID w =
     (let url = serverURL c @ ''/api/v1/session/'' @ sessionID in
      case wrap_err ''create close request'' (parse_url T url) of
        Err e \<Rightarrow> (Err e, w)
      | Panic p \<Rightarrow> (Panic p, w)
      | Ok _ \<Rightarrow>
          (case roundtrip T \<lparr>hMethod = ''DELETE'', hURL = url, hHeader = [], hBody = []\<rparr> (remote w) of
             (resp, n) \<Rightarrow>
               (rbind (wrap_err ''http delete session'' resp) (\<lambda>resp.
                  if hStatus resp \<noteq> 200
                  then Err (ErrorS (''close session failed: status='' @ show_nat (hStatus resp))) else Ok ()),
                w\<lparr>remote := n\<rparr>)))"

section \<open>The client as an interface\<close>

text \<open>What a proxy uses of its client, over the state of the world behind it.\<close>

record 'w api =
  open_session :: "byte list \<Rightarrow> string \<Rightarrow> 'w \<Rightarrow> string result \<times> 'w"
  send_query :: "string \<Rightarrow> byte list \<Rightarrow> 'w \<Rightarrow> byte list result \<times> 'w"
  close_session :: "string \<Rightarrow> 'w \<Rightarrow> unit result \<times> 'w"

definition client_api :: "'n transport \<Rightarrow> Client \<Rightarrow> 'n net api" where
  "client_api T c =
     \<lparr>open_session = SessionRequest T c, send_query = QueryRequest_send T c, close_session = CloseSession_send T c\<rparr>"

section \<open>Creating a client\<close>

lemma client_calls_cong:
  assumes "serverURL c = serverURL d" "clientKey c = clientKey d"
  shows "SessionRequest T c = SessionRequest T d" "QueryRequest_send T c = QueryRequest_send T d"
    "CloseSession_send T c = CloseSession_send T d"
proof -
  show "SessionRequest T c = SessionRequest T d"
    by (intro ext) (unfold SessionRequest_def assms, rule refl)
  show "QueryRequest_send T c = QueryRequest_send T d"
    by (intro ext) (unfold QueryRequest_send_def assms, rule refl)
  show "CloseSession_send T c = CloseSession_send T d"
    by (intro ext) (unfold CloseSession_send_def assms, rule refl)
qed

text \<open>
  A client is created for every non-empty key, with a positive timeout; whatever timeout
  and number of retries the configuration asks for, the created client makes the same calls: the
  retries are stored and never used.
\<close>

theorem NewClientWithConfig_total:
  "case NewClientWithConfig cfg key of
     Ok c \<Rightarrow> key \<noteq> [] \<and> good_key (clientKey c) \<and> httpTimeout c > 0 \<and> serverURL c = BaseURL cfg
       \<and> SessionRequest T (c\<lparr>retryAttempts := n, httpTimeout := t\<rparr>) = SessionRequest T c
       \<and> QueryRequest_send T (c\<lparr>retryAttempts := n, httpTimeout := t\<rparr>) = QueryRequest_send T c
       \<and> CloseSession_send T (c\<lparr>retryAttempts := n, httpTimeout := t\<rparr>) = CloseSession_send T c
   | Err e \<Rightarrow> key = [] \<and> error_text e = ''derive key: encryption key must be at least 32 characters''
   | Panic p \<Rightarrow> False"
proof (cases "key = []")
  case True
  then show ?thesis by (simp add: NewClientWithConfig_def DeriveKey_def ErrKeyTooShort_def)
next
  case False
  have same: "SessionRequest T (c\<lparr>retryAttempts := n, httpTimeout := t\<rparr>) = SessionRequest T c"
    "QueryRequest_send T (c\<lparr>retryAttempts := n, httpTimeout := t\<rparr>) = QueryRequest_send T c"
    "CloseSession_send T (c\<lparr>retryAttempts := n, httpTimeout := t\<rparr>) = CloseSession_send T c" for c
    by (intro client_calls_cong; simp)+
  obtain c where "NewClientWithConfig cfg key = Ok c" "good_key (clientKey c)" "httpTimeout c > 0" "serverURL c = BaseURL cfg"
    using False by (auto simp: NewClientWithConfig_def DeriveKey_def good_key_def Let_def second_def)
  with False same show ?thesis by simp
qed

end
