(* ===== verification/SessionApi.thy ===== *)
theory SessionApi
  imports HttpClient
begin

text \<open>
  What the proxies have in common: how a conversation with a client uses the session API. An API
  can be made to record the calls on it, and \<open>balanced\<close> says of such a record that every session
  that was opened was used under its own id and closed at the end.
\<close>

text \<open>How a turn of a proxy's loop ends.\<close>

datatype control = Next | Leave

text \<open>Recording the calls.\<close>

datatype api_call = Opened "string result" | Queried string | Closed string

definition traced :: "'w api \<Rightarrow> ('w \<times> api_call list) api" where
  "traced A =
     \<lparr>open_session = (\<lambda>params protocol (w, t).
        case open_session A params protocol w of (r, w') \<Rightarrow> (r, (w', t @ [Opened r]))),
      send_query = (\<lambda>sid msg (w, t). case send_query A sid msg w of (r, w') \<Rightarrow> (r, (w', t @ [Queried sid]))),
      close_session = (\<lambda>sid (w, t). case close_session A sid w of (r, w') \<Rightarrow> (r, (w', t @ [Closed sid])))\<rparr>"

definition balanced :: "api_call list \<Rightarrow> bool" where
  "balanced t =
     (case t of
        [] \<Rightarrow> True
      | Opened (Ok sid) # t' \<Rightarrow> t' \<noteq> [] \<and> last t' = Closed sid \<and> list_all (\<lambda>c. c = Queried sid) (butlast t')
      | Opened _ # t' \<Rightarrow> t' = []
      | _ \<Rightarrow> False)"

lemma traced_open:
  "open_session (traced A) p q (w, t) = (r, wt) \<longleftrightarrow>
   (\<exists>w'. open_session A p q w = (r, w') \<and> wt = (w', t @ [Opened r]))"
  by (auto simp: traced_def split: prod.splits)

lemma traced_query:
  "send_query (traced A) sid msg (w, t) = (r, wt) \<longleftrightarrow>
   (\<exists>w'. send_query A sid msg w = (r, w') \<and> wt = (w', t @ [Queried sid]))"
  by (auto simp: traced_def split: prod.splits)

lemma traced_close:
  "close_session (traced A) sid (w, t) = (r, wt) \<longleftrightarrow>
   (\<exists>w'. close_session A sid w = (r, w') \<and> wt = (w', t @ [Closed sid]))"
  by (auto simp: traced_def split: prod.splits)

lemma balanced_Opened_Ok [simp]:
  "balanced (Opened (Ok sid) # t) \<longleftrightarrow>
   t \<noteq> [] \<and> last t = Closed sid \<and> list_all (\<lambda>c. c = Queried sid) (butlast t)"
  by (simp add: balanced_def)

lemma balanced_simps [simp]:
  "balanced []" "balanced [Opened (Err e)]" "balanced [Opened (Panic p)]"
  by (simp_all add: balanced_def)

text \<open>The queries a loop adds to a record, all on one session.\<close>

definition only_queries :: "string \<Rightarrow> api_call list \<Rightarrow> api_call list \<Rightarrow> bool" where
  "only_queries sid t t' \<longleftrightarrow> (\<exists>qs. t' = t @ qs \<and> list_all (\<lambda>c. c = Queried sid) qs)"

lemma only_queries_refl [simp]: "only_queries sid t t"
  by (simp add: only_queries_def)

lemma only_queries_one [simp]: "only_queries sid t (t @ [Queried sid])"
  by (simp add: only_queries_def)

lemma only_queries_trans: "only_queries sid t t' \<Longrightarrow> only_queries sid t' t'' \<Longrightarrow> only_queries sid t t''"
  by (auto simp: only_queries_def)

lemma balanced_closed:
  "only_queries sid [Opened (Ok sid)] t \<Longrightarrow> balanced (t @ [Closed sid])"
  by (auto simp: only_queries_def)

section \<open>The API as an interface\<close>

text \<open>What the proxies need of a transport: the library reports failures as errors.\<close>

locale transport_laws =
  fixes T :: "'n transport"
  assumes url_errors: "\<not> is_panic (parse_url T url)"
    and roundtrip_errors: "\<not> is_panic (fst (roundtrip T rq n))"
    and read_errors: "fst (roundtrip T rq n) = Ok resp \<Longrightarrow> \<not> is_panic (hRead resp)"

text \<open>
  And of the API: no panic, for messages up to the limit of the cipher. Closing a session is not
  constrained: its error is ignored.
\<close>

locale session_api =
  fixes A :: "'w api"
  assumes open_errors: "length params \<le> gcm_limit \<Longrightarrow> \<not> is_panic (fst (open_session A params protocol w))"
    and query_errors: "length msg \<le> gcm_limit \<Longrightarrow> \<not> is_panic (fst (send_query A sid msg w))"

lemma Encrypt_errors: "length p \<le> gcm_limit \<Longrightarrow> \<not> is_panic (fst (Encrypt p key rnd))"
  by (simp add: Encrypt_outcome gcm_limit_def)

context transport_laws
begin

lemma reply_errors: "fst (roundtrip T rq n) = Ok resp \<Longrightarrow> \<not> is_panic (read_reply prefix fail resp)"
  using read_errors by (auto simp: read_reply_def is_panic_rbind_iff)

lemma prepare_errors:
  "\<not> is_panic enc \<Longrightarrow>
   \<not> is_panic (rbind (wrap_err s enc) (\<lambda>body. rbind (wrap_err t (parse_url T url)) (\<lambda>_. Ok body)))"
  using url_errors by (auto simp: is_panic_rbind_iff)

lemma session_request_errors:
  assumes "length params \<le> gcm_limit"
  shows "\<not> is_panic (fst (SessionRequest T c params protocol w))"
proof -
  obtain enc rnd where e: "Encrypt params (clientKey c) (random w) = (enc, rnd)" by fastforce
  then have "\<not> is_panic enc" using Encrypt_errors [OF assms, of "clientKey c" "random w"] by simp
  note u = prepare_errors [OF this, of "''encrypt startup params''" "''create session request''"]
  show ?thesis
  proof (cases "rbind (wrap_err ''encrypt startup params'' enc)
      (\<lambda>body. rbind (wrap_err ''create session request'' (parse_url T (serverURL c @ ''/api/v1/session''))) (\<lambda>_. Ok body))")
    case (Ok body)
    then show ?thesis
      using roundtrip_errors reply_errors by (simp add: SessionRequest_def e Let_def is_panic_rbind_iff split_beta)
  next
    case (Panic p)
    with u show ?thesis by (metis is_panic_simps(1))
  qed (simp add: SessionRequest_def e)
qed

lemma query_request_errors:
  assumes "length msg \<le> gcm_limit"
  shows "\<not> is_panic (fst (QueryRequest_send T c sid msg w))"
proof -
  obtain enc rnd where e: "Encrypt msg (clientKey c) (random w) = (enc, rnd)" by fastforce
  then have "\<not> is_panic enc" using Encrypt_errors [OF assms, of "clientKey c" "random w"] by simp
  note u = prepare_errors [OF this, of "''encrypt message''" "''create request''"]
  have d: "\<not> is_panic (Decrypt x k)" for x k by (simp add: is_panic_def Decrypt_no_panic)
  show ?thesis
  proof (cases "rbind (wrap_err ''encrypt message'' enc)
      (\<lambda>body. rbind (wrap_err ''create request'' (parse_url T (serverURL c @ ''/api/v1/query''))) (\<lambda>_. Ok body))")
    case (Ok body)
    then show ?thesis
      using roundtrip_errors reply_errors by (simp add: QueryRequest_send_def e Let_def is_panic_rbind_iff split_beta d)
  next
    case (Panic p)
    with u show ?thesis by (metis is_panic_simps(1))
  qed (simp add: QueryRequest_send_def e)
qed

end

text \<open>The client over any such transport is such an API.\<close>

sublocale transport_laws \<subseteq> client: session_api "client_api T c" for c
  by unfold_locales (simp_all add: client_api_def session_request_errors query_request_errors)

section \<open>An example\<close>

text \<open>A server that opens sessions and loses every query.\<close>

definition example_api :: "unit api" where
  "example_api =
     \<lparr>open_session = (\<lambda>params protocol w. (Ok ''session-1'', w)),
      send_query = (\<lambda>sid msg w. (Err (ErrorS ''connection refused''), w)),
      close_session = (\<lambda>sid w. (Ok (), w))\<rparr>"

lemma example_api_laws: "session_api example_api" "session_api (traced example_api)"
  by unfold_locales (simp_all add: example_api_def traced_def split: prod.split)

end
