(* ===== verification/Tunnel.thy ===== *)
theory Tunnel
  imports Adapter SessionApi
begin

text \<open>
  The two ends of the encrypted API put together: the client of \<^verbatim>\<open>pkg/httpclient\<close> over a network
  that delivers its requests to the Gin server of \<^verbatim>\<open>cmd/server\<close> and the replies back. What a
  proxy asks for at one end is what the handler's core does at the other.
\<close>

section \<open>A network that delivers\<close>

definition header_of :: "(string \<times> string) list \<Rightarrow> string \<Rightarrow> string" where
  "header_of hs name = (case map_of hs name of Some v \<Rightarrow> v | None \<Rightarrow> [])"

text \<open>The state is the server's handler and the number of ids \<^verbatim>\<open>uuid.New\<close> has made.\<close>

definition deliver ::
  "('p, 'm) pools \<Rightarrow> matcher \<Rightarrow> string \<Rightarrow> (nat \<Rightarrow> string) \<Rightarrow> HttpRequest \<Rightarrow> ('p, 'm) Handler \<times> nat
    \<Rightarrow> HttpReply result \<times> (('p, 'm) Handler \<times> nat)" where
  "deliver I m base ids rq s =
     (case s of (h, k) \<Rightarrow>
        (case serve_gin I m (ids k) (hMethod rq) (drop (length base) (hURL rq)) (header_of (hHeader rq))
            (Ok (hBody rq)) h of
           (resp, h') \<Rightarrow> (Ok \<lparr>hStatus = StatusCode resp, hRead = Ok (RespBody resp)\<rparr>, (h', Suc k))))"

definition direct ::
  "('p, 'm) pools \<Rightarrow> matcher \<Rightarrow> string \<Rightarrow> (nat \<Rightarrow> string) \<Rightarrow> (('p, 'm) Handler \<times> nat) transport" where
  "direct I m base ids = \<lparr>parse_url = (\<lambda>_. Ok ()), roundtrip = deliver I m base ids\<rparr>"

text \<open>Client and server share the key, and both have entropy for a nonce.\<close>

definition linked :: "Client \<Rightarrow> (('p, 'm) Handler \<times> nat) net \<Rightarrow> bool" where
  "linked c w \<longleftrightarrow>
     clientKey c = encKey (fst (remote w)) \<and> good_key (encKey (fst (remote w))) \<and>
     12 \<le> length (pending (random w)) \<and> 12 \<le> length (pending (entropy (fst (remote w))))"

definition spend :: "reader \<Rightarrow> reader" where
  "spend r = r\<lparr>pending := drop 12 (pending r)\<rparr>"

lemma linked_can_encrypt: "linked c w \<Longrightarrow> can_encrypt (fst (remote w))"
  by (simp add: linked_def can_encrypt_def)

lemma Encrypt_linked:
  "linked c w \<Longrightarrow> length p \<le> gcm_limit \<Longrightarrow>
   Encrypt p (clientKey c) (random w) = (Ok (message (clientKey c) (take 12 (pending (random w))) p), spend (random w))"
  by (simp add: linked_def Encrypt_Ok spend_def)

lemma sealed_linked:
  "can_encrypt h \<Longrightarrow> length (Marshal (response_json r)) \<le> gcm_limit \<Longrightarrow>
   sealed r h = (Ok (message (encKey h) (take 12 (pending (entropy h))) (Marshal (response_json r))),
     h\<lparr>entropy := spend (entropy h)\<rparr>)"
  by (simp add: sealed_def can_encrypt_def Encrypt_Ok spend_def)

lemma header_session [simp]:
  "header_of [(''Content-Type'', x), (''X-Session-ID'', sid)] ''X-Session-ID'' = sid"
  "header_of [(''Content-Type'', x), (''X-Protocol'', p)] ''X-Protocol'' = p"
  by (simp_all add: header_of_def)

section \<open>Queries\<close>

lemma tunnel_send:
  assumes "matcher_ok m" "linked c w" "serverURL c = base" "remote w = (h, k)" "sid \<noteq> []" "length p \<le> gcm_limit"
    and "HandleQuery I sid (message (clientKey c) (take 12 (pending (random w))) p) h = (r, h')"
  shows "QueryRequest_send (direct I m base ids) c sid p w =
    (case r of
       Ok bs \<Rightarrow> wrap_err ''decrypt response'' (Decrypt bs (clientKey c))
     | Err e \<Rightarrow> Err (ErrorS (''query failed: status=500 body='' @ render (error_json (error_text e))))
     | Panic q \<Rightarrow> Err (ErrorS ''query failed: status=500 body=''),
     w\<lparr>random := spend (random w), remote := (h', Suc k)\<rparr>)"
proof -
  let ?rq = "\<lparr>hMethod = ''POST'', hURL = base @ ''/api/v1/query'',
    hHeader = [(''Content-Type'', ''application/octet-stream''), (''X-Session-ID'', sid)],
    hBody = message (clientKey c) (take 12 (pending (random w))) p\<rparr>"
  have s500: "show_nat 500 = ''500''" by (simp add: show_nat.simps)
  have "roundtrip (direct I m base ids) ?rq (h, k) =
    (Ok (case r of
       Ok bs \<Rightarrow> \<lparr>hStatus = 200, hRead = Ok bs\<rparr>
     | Err e \<Rightarrow> \<lparr>hStatus = 500, hRead = Ok (Marshal (error_json (error_text e)))\<rparr>
     | Panic q \<Rightarrow> \<lparr>hStatus = 500, hRead = Ok []\<rparr>), (h', Suc k))"
    using assms(5,7) serve_query_lemma [OF assms(1), of I "ids k" _ "hBody ?rq" h]
    by (simp add: direct_def deliver_def respond_json_def empty_status_def split: result.split)
  with assms(3,4) Encrypt_linked [OF assms(2,6)] show ?thesis
    by (cases r)
      (simp_all add: QueryRequest_send_def read_reply_def Let_def direct_def s500 Marshal_def)
qed

lemma query_delivered:
  assumes "matcher_ok m" "linked c w" "serverURL c = base" "remote w = (h, k)" "8 \<le> length sid"
    and "length (Marshal (request_json req)) \<le> gcm_limit"
    and "serve I sid (req\<lparr>SQL := to_valid (SQL req)\<rparr>) h = (Ok r, h')"
    and "in_int64 (RowsAffected r)" "length (Marshal (response_json r)) \<le> gcm_limit"
  shows "\<exists>bs. QueryRequest_send (direct I m base ids) c sid (Marshal (request_json req)) w =
        (Ok bs, w\<lparr>random := spend (random w), remote := (h'\<lparr>entropy := spend (entropy h)\<rparr>, Suc k)\<rparr>)
    \<and> Unmarshal_response bs =
        Ok (r\<lparr>Columns := map to_valid (Columns r), Rows := map (map to_valid) (Rows r), Error := to_valid (Error r)\<rparr>)"
proof -
  let ?body = "message (clientKey c) (take 12 (pending (random w))) (Marshal (request_json req))"
  let ?p = "Marshal (response_json r)"
  have ce: "can_encrypt h" using linked_can_encrypt [OF assms(2)] assms(4) by simp
  have key: "clientKey c = encKey h" "good_key (clientKey c)" "12 \<le> length (pending (random w))"
    using assms(2,4) by (simp_all add: linked_def)
  have k': "encKey h' = encKey h" "entropy h' = entropy h"
    using serve_keeps [of I sid "req\<lparr>SQL := to_valid (SQL req)\<rparr>" h] assms(7) by simp_all
  have "received h ?body = Ok (req\<lparr>SQL := to_valid (SQL req)\<rparr>)"
    using key assms(6) by (simp add: received_def Decrypt_message Unmarshal_request_Marshal valid_request_def)
  from HandleQuery_serve [OF this ce assms(5), of I] assms(7)
  have "HandleQuery I sid ?body h = sealed r h'" by simp
  also have "\<dots> = (Ok (message (encKey h) (take 12 (pending (entropy h))) ?p), h'\<lparr>entropy := spend (entropy h)\<rparr>)"
    using sealed_linked [of h' r] ce k' assms(9) by (simp add: can_encrypt_def)
  finally have hq: "HandleQuery I sid ?body h = \<dots>" .
  have "Decrypt (message (encKey h) (take 12 (pending (entropy h))) ?p) (clientKey c) = Ok ?p"
    using key ce assms(9) by (simp add: Decrypt_message can_encrypt_def)
  moreover have "sid \<noteq> []" using assms(5) by auto
  ultimately show ?thesis
    using tunnel_send [OF assms(1-4) _ assms(6) hq, of ids] Unmarshal_response_Marshal [OF assms(8)]
    by (simp add: valid_response_def)
qed

text \<open>
  C4: A query a proxy sends through the tunnel runs at the server exactly as \<open>serve\<close> runs the
  plain request, and the bytes the proxy gets back are the server's response, column for column
  and row for row; when the service fails, the proxy gets an error with the service's text.
\<close>

theorem tunnel_query:
  assumes "matcher_ok m" "linked c w" "serverURL c = base" "remote w = (h, k)" "8 \<le> length sid"
    and "length (Marshal (request_json req)) \<le> gcm_limit"
    and "serve I sid (req\<lparr>SQL := to_valid (SQL req)\<rparr>) h = (Ok r, h')"
    and "in_int64 (RowsAffected r)" "length (Marshal (response_json r)) \<le> gcm_limit"
  shows "\<exists>bs. QueryRequest_send (direct I m base ids) c sid (Marshal (request_json req)) w =
        (Ok bs, w\<lparr>random := spend (random w), remote := (h'\<lparr>entropy := spend (entropy h)\<rparr>, Suc k)\<rparr>)
    \<and> Unmarshal_response bs =
        Ok (r\<lparr>Columns := map to_valid (Columns r), Rows := map (map to_valid) (Rows r), Error := to_valid (Error r)\<rparr>)"
  using query_delivered [OF assms] .

section \<open>Sessions\<close>

lemma serve_create:
  assumes "matcher_ok m" "header ''X-Protocol'' \<noteq> []"
  shows "serve_gin I m sid ''POST'' ''/api/v1/session'' header (Ok body) h =
    (case CreateSession I sid body (header ''X-Protocol'') h of
       (Ok s, h') \<Rightarrow> (\<lparr>StatusCode = 200, Content = Text, RespBody = bytes_of s\<rparr>, h')
     | (Err e, h') \<Rightarrow> (respond_json 500 (error_json (error_text e)), h')
     | (Panic p, h') \<Rightarrow> (empty_status 500, h'))"
  using find_create [OF assms(1)] assms(2)
  by (simp add: serve_gin_def run_route_def ginCreateSession_def Let_def split: prod.split result.split)

lemma serve_close:
  assumes "matcher_ok m" "8 \<le> length v" "CHR ''/'' \<notin> set v"
  shows "serve_gin I m sid ''DELETE'' (''/api/v1/session/'' @ v) header body h =
    (respond_json 200 (JObj [(''status'', JStr ''closed'')]), snd (CloseSession I v h))"
proof -
  have "v \<noteq> []" using assms(2) by auto
  with find_close [OF assms(1) this assms(3)] assms(2) show ?thesis
    by (simp add: serve_gin_def run_route_def ginCloseSession_def CloseSession_def Let_def log_id_def slice_def
        split: option.split)
qed

lemma session_opened:
  assumes "matcher_ok m" "linked c w" "serverURL c = base" "remote w = (h, k)"
    and "length params \<le> gcm_limit" "protocol \<noteq> []" "poolForProtocol protocol h = Some ref"
    and "8 \<le> length (ids k)" "pool_acquire I ref (ids k) h = (Ok (), h1)"
  shows "SessionRequest (direct I m base ids) c params protocol w =
    (Ok (ids k), w\<lparr>random := spend (random w), remote := (h1\<lparr>sessionPools := (sessionPools h1)(ids k \<mapsto> ref)\<rparr>, Suc k)\<rparr>)"
proof -
  let ?body = "message (clientKey c) (take 12 (pending (random w))) params"
  have dec: "Decrypt ?body (encKey h) = Ok params"
    using assms(2,4,5) by (simp add: linked_def Decrypt_message)
  have cs: "CreateSession I (ids k) ?body protocol h = (Ok (ids k), h1\<lparr>sessionPools := (sessionPools h1)(ids k \<mapsto> ref)\<rparr>)"
    using assms(7-9) by (simp add: CreateSession_def dec Let_def log_id_def slice_def)
  let ?hs = "[(''Content-Type'', ''application/octet-stream''), (''X-Protocol'', protocol)]"
  have "deliver I m base ids \<lparr>hMethod = ''POST'', hURL = base @ ''/api/v1/session'', hHeader = ?hs, hBody = ?body\<rparr> (h, k) =
    (Ok \<lparr>hStatus = 200, hRead = Ok (bytes_of (ids k))\<rparr>, (h1\<lparr>sessionPools := (sessionPools h1)(ids k \<mapsto> ref)\<rparr>, Suc k))"
    using serve_create [OF assms(1), of "header_of ?hs" I "ids k" ?body h] assms(6) cs by (simp add: deliver_def)
  then show ?thesis
    using assms(3,4) Encrypt_linked [OF assms(2,5)]
    by (simp add: SessionRequest_def read_reply_def Let_def direct_def)
qed

text \<open>A session the server does not open: there is no pool for the protocol, or no connection.\<close>

definition refuses :: "('p, 'm) pools \<Rightarrow> string \<Rightarrow> string \<Rightarrow> ('p, 'm) Handler \<Rightarrow> ('p, 'm) Handler \<Rightarrow> bool" where
  "refuses I sid protocol h h' \<longleftrightarrow>
     (case poolForProtocol protocol h of
        None \<Rightarrow> h' = h
      | Some ref \<Rightarrow> (\<exists>e. pool_acquire I ref sid h = (Err e, h')))"

lemma session_refused:
  assumes "matcher_ok m" "linked c w" "serverURL c = base" "remote w = (h, k)"
    and "length params \<le> gcm_limit" "protocol \<noteq> []" "refuses I (ids k) protocol h h'"
  obtains e where "SessionRequest (direct I m base ids) c params protocol w =
    (Err e, w\<lparr>random := spend (random w), remote := (h', Suc k)\<rparr>)"
proof -
  let ?body = "message (clientKey c) (take 12 (pending (random w))) params"
  have dec: "Decrypt ?body (encKey h) = Ok params"
    using assms(2,4,5) by (simp add: linked_def Decrypt_message)
  obtain e where cs: "CreateSession I (ids k) ?body protocol h = (Err e, h')"
    using assms(7) that by (auto simp: CreateSession_def dec refuses_def split: option.splits)
  let ?hs = "[(''Content-Type'', ''application/octet-stream''), (''X-Protocol'', protocol)]"
  have "deliver I m base ids \<lparr>hMethod = ''POST'', hURL = base @ ''/api/v1/session'', hHeader = ?hs, hBody = ?body\<rparr> (h, k) =
    (Ok \<lparr>hStatus = 500, hRead = Ok (Marshal (error_json (error_text e)))\<rparr>, (h', Suc k))"
    using serve_create [OF assms(1), of "header_of ?hs" I "ids k" ?body h] assms(6) cs
    by (simp add: deliver_def respond_json_def)
  then show ?thesis
    using that assms(3,4) Encrypt_linked [OF assms(2,5)]
    by (simp add: SessionRequest_def read_reply_def Let_def direct_def)
qed

lemma refuses_keeps:
  "refuses I sid protocol h h' \<Longrightarrow> sessionPools h' = sessionPools h \<and> stmts h' = stmts h"
  by (auto simp: refuses_def pool_acquire_def split: option.splits pool_ref.splits prod.splits)

lemma session_closed:
  assumes "matcher_ok m" "serverURL c = base" "remote w = (h, k)" "8 \<le> length sid" "CHR ''/'' \<notin> set sid"
  shows "CloseSession_send (direct I m base ids) c sid w =
    (Ok (), w\<lparr>remote := (snd (CloseSession I sid h), Suc k)\<rparr>)"
proof -
  have "deliver I m base ids \<lparr>hMethod = ''DELETE'', hURL = base @ ''/api/v1/session/'' @ sid, hHeader = [], hBody = []\<rparr> (h, k) =
    (Ok \<lparr>hStatus = 200, hRead = Ok (Marshal (JObj [(''status'', JStr ''closed'')]))\<rparr>, (snd (CloseSession I sid h), Suc k))"
    using serve_close [OF assms(1,4,5), of I "ids k" "header_of []" "Ok []" h]
    by (simp add: deliver_def respond_json_def)
  then show ?thesis
    using assms(2,3) by (simp add: CloseSession_send_def Let_def direct_def)
qed

text \<open>
  Opening a session through the tunnel gives the proxy the server's new id, and the server
  has then recorded the session and acquired a connection for it in the pool of the protocol
  asked for; closing it through the tunnel releases that connection and forgets the session.
\<close>

theorem tunnel_session:
  assumes "matcher_ok m" "linked c w" "serverURL c = base" "remote w = (h, k)"
    and "length params \<le> gcm_limit" "protocol \<noteq> []" "poolForProtocol protocol h = Some ref"
    and "8 \<le> length (ids k)" "CHR ''/'' \<notin> set (ids k)"
    and "pool_acquire I ref (ids k) h = (Ok (), h1)"
    and "w1 = w\<lparr>random := spend (random w), remote := (h1\<lparr>sessionPools := (sessionPools h1)(ids k \<mapsto> ref)\<rparr>, Suc k)\<rparr>"
  shows "SessionRequest (direct I m base ids) c params protocol w = (Ok (ids k), w1)
    \<and> CloseSession_send (direct I m base ids) c (ids k) w1 =
       (Ok (), w1\<lparr>remote := ((pool_release I ref (ids k) h1)\<lparr>
            stmts := (stmts h1)(ids k := None), sessionPools := (sessionPools h1)(ids k := None)\<rparr>, Suc (Suc k))\<rparr>)"
proof
  show "SessionRequest (direct I m base ids) c params protocol w = (Ok (ids k), w1)"
    using session_opened [where ids = ids, OF assms(1-8,10)] assms(11) by simp
next
  let ?h = "h1\<lparr>sessionPools := (sessionPools h1)(ids k \<mapsto> ref)\<rparr>"
  have "snd (CloseSession I (ids k) ?h) = (pool_release I ref (ids k) h1)\<lparr>
      stmts := (stmts h1)(ids k := None), sessionPools := (sessionPools h1)(ids k := None)\<rparr>"
    by (cases ref) (simp_all add: CloseSession_def Let_def pool_release_def)
  then show "CloseSession_send (direct I m base ids) c (ids k) w1 =
       (Ok (), w1\<lparr>remote := ((pool_release I ref (ids k) h1)\<lparr>
            stmts := (stmts h1)(ids k := None), sessionPools := (sessionPools h1)(ids k := None)\<rparr>, Suc (Suc k))\<rparr>)"
    using session_closed [OF assms(1,3) _ assms(8,9), of w1 ?h "Suc k" I ids] assms(11) by simp
qed

lemma pool_acquire_keeps:
  "pool_acquire I ref sid h = (r, h1) \<Longrightarrow> encKey h1 = encKey h \<and> entropy h1 = entropy h"
  by (auto simp: pool_acquire_def split: pool_ref.splits prod.splits option.splits)

section \<open>Links for several messages\<close>

text \<open>What the API carries.\<close>

definition fits :: "QueryResponse \<Rightarrow> bool" where
  "fits r \<longleftrightarrow> in_int64 (RowsAffected r) \<and> length (Marshal (response_json r)) \<le> gcm_limit"

text \<open>Client and server share the key and have entropy for \<open>n\<close> messages each.\<close>

definition linked_for :: "nat \<Rightarrow> Client \<Rightarrow> (('p, 'm) Handler \<times> nat) net \<Rightarrow> bool" where
  "linked_for n c w \<longleftrightarrow>
     clientKey c = encKey (fst (remote w)) \<and> good_key (encKey (fst (remote w))) \<and>
     12 * n \<le> length (pending (random w)) \<and> 12 * n \<le> length (pending (entropy (fst (remote w))))"

lemma linked_for_linked: "linked_for (Suc n) c w \<Longrightarrow> linked c w"
  by (simp add: linked_for_def linked_def)

lemma linked_for_less: "linked_for (Suc n) c w \<Longrightarrow> linked_for n c w"
  by (simp add: linked_for_def)

lemma linked_for_next:
  assumes "linked_for (Suc n) c w" "remote w = (h, k)" "encKey h' = encKey h" "entropy h' = entropy h"
  shows "linked_for n c (w\<lparr>random := spend (random w), remote := (h'\<lparr>entropy := spend (entropy h)\<rparr>, k')\<rparr>)"
    and "linked_for n c (w\<lparr>random := spend (random w), remote := (h', k')\<rparr>)"
  using assms by (auto simp: linked_for_def spend_def)

section \<open>The link as a transport\<close>

text \<open>The network that delivers keeps the laws of a transport, so the client over it those of the API.\<close>

interpretation direct: transport_laws "direct I m base ids" for I m base ids
proof
  show "\<not> is_panic (parse_url (direct I m base ids) url)" for url by (simp add: direct_def)
  show "\<not> is_panic (fst (roundtrip (direct I m base ids) rq n))" for rq n
    by (simp add: direct_def deliver_def split: prod.split)
  show "fst (roundtrip (direct I m base ids) rq n) = Ok resp \<Longrightarrow> \<not> is_panic (hRead resp)" for rq n resp
    by (auto simp: direct_def deliver_def split: prod.splits)
qed

lemma direct_session_api: "session_api (client_api (direct I m base ids) c)"
  by (rule direct.client.session_api_axioms)

section \<open>Witnesses\<close>

definition example_client :: Client where
  "example_client = \<lparr>serverURL = ''http://s'', httpTimeout = 1, clientKey = example_key, retryAttempts = 0\<rparr>"

definition example_net :: "((unit, unit) Handler \<times> nat) net" where
  "example_net = \<lparr>remote = (echo_handler, 0), random = example_entropy\<rparr>"

lemma example_linked: "linked example_client example_net"
  by (simp add: linked_def example_client_def example_net_def echo_handler_def example_entropy_def)

theorem tunnel_query_witness:
  "\<exists>bs w. QueryRequest_send (direct echo_pools example_matcher ''http://s'' (\<lambda>_. ''session-1'')) example_client ''session-1''
       (Marshal (request_json (select_request CHR ''Q''))) example_net = (Ok bs, w)
     \<and> Unmarshal_response bs = Ok \<lparr>Columns = [''a''], Rows = [[''1'']], RowsAffected = 0, Error = []\<rparr>"
proof -
  let ?r = "\<lparr>Columns = [''a''], Rows = [[''1'']], RowsAffected = 0, Error = []\<rparr>"
  have v: "(select_request CHR ''Q'')\<lparr>SQL := to_valid (SQL (select_request CHR ''Q''))\<rparr> = select_request CHR ''Q''"
    by (simp add: select_request_def ascii_to_valid)
  have s: "serve echo_pools ''session-1''
      ((select_request CHR ''Q'')\<lparr>SQL := to_valid (SQL (select_request CHR ''Q''))\<rparr>) echo_handler = (Ok ?r, echo_handler)"
    unfolding v
    by (simp add: serve_def select_request_def run_statement_def executeSQL_def sqlCommandType_first_word first_word_def
        is_space_def ends_word_def executeQuery_def pool_query_def getSessionPool_def echo_pools_def echo_pool_def
        echo_handler_def)
  have l: "length (Marshal (response_json ?r)) \<le> gcm_limit"
    by (simp add: Marshal_def response_json_def omitempty_def json_int_def json_strings_def
      render_string_def escape_string.simps(2) escape_char_def fmt_d_def show_nat.simps gcm_limit_def)
  have r: "remote example_net = (echo_handler, 0)" "serverURL example_client = ''http://s''"
    by (simp_all add: example_net_def example_client_def)
  have v: "to_valid ''a'' = ''a''" "to_valid ''1'' = ''1''" by (simp_all add: ascii_to_valid)
  from tunnel_query [where I = echo_pools and ids = "\<lambda>_. ''session-1''",
      OF example_matcher_ok example_linked r(2) r(1) _ length_select_request s _ l]
  obtain bs w where "QueryRequest_send (direct echo_pools example_matcher ''http://s'' (\<lambda>_. ''session-1''))
      example_client ''session-1'' (Marshal (request_json (select_request CHR ''Q''))) example_net = (Ok bs, w)"
    "Unmarshal_response bs = Ok ?r"
    by (auto simp: v)
  then show ?thesis by blast
qed

theorem tunnel_session_witness:
  "fst (SessionRequest (direct echo_pools example_matcher ''http://s'' (\<lambda>_. ''session-1'')) example_client [0] ''pg'' example_net)
   = Ok ''session-1''"
proof -
  have r: "remote example_net = (echo_handler, 0)" "serverURL example_client = ''http://s''"
    "pool_acquire echo_pools UsePg ''session-1'' echo_handler = (Ok (), echo_handler)"
    "poolForProtocol ''pg'' echo_handler = Some UsePg"
    by (simp_all add: example_net_def example_client_def pool_acquire_def echo_pools_def echo_pool_def poolForProtocol_def
        echo_handler_def)
  from tunnel_session [where ids = "\<lambda>_. ''session-1''" and params = "[0]" and protocol = "''pg''", OF example_matcher_ok example_linked r(2) r(1) _ _ r(4) _ _ r(3) refl]
  show ?thesis by (simp add: gcm_limit_def)
qed

end
