(* ===== verification/MyProxy.thy ===== *)
theory MyProxy
  imports SessionApi MyProtocol SqlCommand
begin

text \<open>
  The model of the connection handling of \<^verbatim>\<open>pkg/mysqlproxy/proxy.go\<close>: \<open>handleConnection\<close> with its
  command loop, and \<open>buildResultSet\<close>. A connection is what the client still sends, what was
  written to it, and the world behind the session API. The proxy has no use for the sequence
  number of one command in the next: every packet it reads sets it again.
\<close>

record 'w conn =
  inbox :: reader
  outbox :: writer
  world :: 'w

definition buildResultSet :: "QueryResponse \<Rightarrow> string \<Rightarrow> byte list list" where
  "buildResultSet result sql =
     (if Columns result = [] then
        [BuildOKPacket (word_of_int (RowsAffected result)) 0 ServerStatusAutocommit 0
           (my_commandTag sql (RowsAffected result))]
      else
        [PutLenEncInt (word_of_nat (length (Columns result)))]
        @ map (\<lambda>col. encode_column (BuildColumnDef col)) (Columns result)
        @ [BuildEOFPacket 0 ServerStatusAutocommit]
        @ map BuildResultSetRow (Rows result)
        @ [BuildEOFPacket 0 ServerStatusAutocommit])"

text \<open>One packet to the client; \<open>put\<close> is such a write whose error is only logged.\<close>

definition write_packet :: "byte list \<Rightarrow> byte \<Rightarrow> 'w conn \<Rightarrow> unit result \<times> 'w conn" where
  "write_packet payload seq c = (case WritePacket payload seq (outbox c) of (r, out) \<Rightarrow> (r, c\<lparr>outbox := out\<rparr>))"

definition put :: "byte list \<Rightarrow> byte \<Rightarrow> 'w conn \<Rightarrow> 'w conn" where
  "put payload seq c = snd (write_packet payload seq c)"

text \<open>The packets of a result set; the first that cannot be written ends them.\<close>

fun write_packets :: "byte list list \<Rightarrow> byte \<Rightarrow> 'w conn \<Rightarrow> 'w conn" where
  "write_packets [] seq c = c"
| "write_packets (p # ps) seq c =
     (case write_packet p seq c of
        (Ok _, c) \<Rightarrow> write_packets ps (seq + 1) c
      | (_, c) \<Rightarrow> c)"

definition OK_packet :: "byte list" where
  "OK_packet = BuildOKPacket 0 0 ServerStatusAutocommit 0 []"

section \<open>Commands\<close>

text \<open>
  \<open>COM_QUERY\<close>. The \<open>break\<close>s of this case leave the \<open>switch\<close> and not the loop: a lost server or an
  unreadable response is followed by the next command.
\<close>

definition my_query :: "'w api \<Rightarrow> string \<Rightarrow> string \<Rightarrow> byte \<Rightarrow> 'w conn \<Rightarrow> control result \<times> 'w conn" where
  "my_query A sid sql seq c =
     (case send_query A sid (Marshal (my_request_json ComQuery sql)) (world c) of
        (r, w) \<Rightarrow>
          (let c = c\<lparr>world := w\<rparr> in
           case r of
             Err e \<Rightarrow> (Ok Next, put (BuildERRPacket 2006 ''HY000'' ''MySQL server has gone away'') seq c)
           | Panic p \<Rightarrow> (Panic p, c)
           | Ok respBytes \<Rightarrow>
               (case Unmarshal_response respBytes of
                  Err e \<Rightarrow> (Ok Next, c)
                | Panic p \<Rightarrow> (Panic p, c)
                | Ok result \<Rightarrow>
                    if Error result \<noteq> [] then (Ok Next, put (BuildERRPacket 1064 ''42000'' (Error result)) seq c)
                    else (Ok Next, write_packets (buildResultSet result sql) seq c))))"

definition my_command :: "'w api \<Rightarrow> string \<Rightarrow> byte list \<Rightarrow> byte \<Rightarrow> 'w conn \<Rightarrow> control result \<times> 'w conn" where
  "my_command A sid payload seq c =
     (case payload of
        [] \<Rightarrow> (Ok Next, c)
      | cmd # data \<Rightarrow>
          if cmd = ComQuery then my_query A sid (string_of data) seq c
          else if cmd = ComPing then (Ok Next, put OK_packet seq c)
          else if cmd = ComQuit then (Ok Leave, c)
          else if cmd = ComInitDB then (Ok Next, put OK_packet seq c)
          else if cmd = ComStmtPrepare \<or> cmd = ComStmtExecute \<or> cmd = ComStmtClose \<or> cmd = ComStmtReset
            \<or> cmd = ComStmtFetch then
            (Ok Next, put (BuildERRPacket 1295 ''HY000''
               ''This command is not supported in the prepared statement protocol'') seq c)
          else (Ok Next, put (BuildERRPacket 1047 ''08S01'' (''Unknown command: 0x'' @ fmt_02x cmd)) seq c))"

lemma inbox_put [simp]: "inbox (put p seq c) = inbox c" "world (put p seq c) = world c"
  by (simp_all add: put_def write_packet_def split: prod.split)

lemma inbox_write_packet [simp]:
  "write_packet p seq c = (r, c') \<Longrightarrow> inbox c' = inbox c \<and> world c' = world c"
  by (auto simp: write_packet_def split: prod.splits)

lemma inbox_write_packets [simp]:
  "inbox (write_packets ps seq c) = inbox c \<and> world (write_packets ps seq c) = world c"
proof (induction ps arbitrary: seq c)
  case (Cons p ps)
  show ?case
  proof (cases "write_packet p seq c")
    case (Pair r c1)
    with Cons.IH [of "seq + 1" c1] inbox_write_packet [OF Pair] show ?thesis by (auto split: result.split)
  qed
qed simp

lemma inbox_my_query: "inbox (snd (my_query A sid sql seq c)) = inbox c"
proof (cases "send_query A sid (Marshal (my_request_json ComQuery sql)) (world c)")
  case (Pair r w)
  then show ?thesis
    by (cases r) (simp_all add: my_query_def Let_def split: result.split)
qed

lemma inbox_my_command: "inbox (snd (my_command A sid payload seq c)) = inbox c"
proof (cases payload)
  case (Cons cmd data)
  have eq: "P (if b then x else y)" if "b \<Longrightarrow> P x" "\<not> b \<Longrightarrow> P y" for P b and x y :: "control result \<times> 'a conn"
    using that by simp
  show ?thesis
    unfolding my_command_def Cons list.case
    by (rule eq [where P = "\<lambda>x. inbox (snd x) = inbox c"] | simp only: inbox_my_query snd_conv inbox_put)+
qed (simp add: my_command_def)

text \<open>
  The command loop: every turn reads a packet, so it ends with the client's bytes. Any error of
  \<open>ReadPacket\<close> ends it in the same way.
\<close>

lemma ReadPacket_shorter:
  "ReadPacket r = (Ok x, r') \<Longrightarrow> length (pending r') < length (pending r)"
  by (auto simp: ReadPacket_def Let_def ReadFull_Ok_iff split: prod.splits result.splits if_splits)

function my_loop :: "'w api \<Rightarrow> string \<Rightarrow> 'w conn \<Rightarrow> unit result \<times> 'w conn" where
  "my_loop A sid c =
     (case ReadPacket (inbox c) of
        (Ok (payload, s), r) \<Rightarrow>
          (case my_command A sid payload (s + 1) (c\<lparr>inbox := r\<rparr>) of
             (Ok Next, c') \<Rightarrow> my_loop A sid c'
           | (Ok Leave, c') \<Rightarrow> (Ok (), c')
           | (Err e, c') \<Rightarrow> (Err e, c')
           | (Panic p, c') \<Rightarrow> (Panic p, c'))
      | (Err e, r) \<Rightarrow> (Ok (), c\<lparr>inbox := r\<rparr>)
      | (Panic p, r) \<Rightarrow> (Panic p, c\<lparr>inbox := r\<rparr>))"
  by pat_completeness auto
termination
proof (relation "measure (\<lambda>(A, sid, c). length (pending (inbox c)))", goal_cases)
  case (2 A sid c res r x payload s cres c' y)
  have "ReadPacket (inbox c) = (Ok (payload, s), r)" using 2 by simp
  moreover have "my_command A sid payload (s + 1) (c\<lparr>inbox := r\<rparr>) = (Ok Next, c')" using 2 by simp
  then have "inbox c' = r"
    using inbox_my_command [of A sid payload "s + 1" "c\<lparr>inbox := r\<rparr>"] by simp
  ultimately show ?case using ReadPacket_shorter [of "inbox c" _ r] by simp
qed simp

declare my_loop.simps [simp del]

section \<open>The connection\<close>

text \<open>
  \<open>handleConnection\<close>. It runs in a goroutine without \<open>recover\<close>: a panic here ends the whole
  program. The session id is cut to eight characters for the log once at the start; later log
  lines cut the same id again.
\<close>

definition my_handleConnection :: "'w api \<Rightarrow> 'w conn \<Rightarrow> unit result \<times> 'w conn" where
  "my_handleConnection A c =
     (case write_packet (encode_handshake BuildHandshakeV10) 0 c of
        (Err e, c) \<Rightarrow> (Ok (), c)
      | (Panic p, c) \<Rightarrow> (Panic p, c)
      | (Ok _, c) \<Rightarrow>
     (case ReadPacket (inbox c) of
        (Err e, r) \<Rightarrow> (Ok (), c\<lparr>inbox := r\<rparr>)
      | (Panic p, r) \<Rightarrow> (Panic p, c\<lparr>inbox := r\<rparr>)
      | (Ok (payload, s), r) \<Rightarrow>
     (let seq = s + 1; c = c\<lparr>inbox := r\<rparr> in
      case ParseHandshakeResponse payload of
        Err e \<Rightarrow> (Ok (), put (BuildERRPacket 1045 ''28000'' ''Access denied'') seq c)
      | Panic p \<Rightarrow> (Panic p, c)
      | Ok resp \<Rightarrow>
     (case open_session A payload ''mysql'' (world c) of (opened, w) \<Rightarrow>
      let c = c\<lparr>world := w\<rparr> in
      case opened of
        Err e \<Rightarrow> (Ok (), put (BuildERRPacket 1040 ''08004'' ''Too many connections'') seq c)
      | Panic p \<Rightarrow> (Panic p, c)
      | Ok sessionID \<Rightarrow>
     (case slice sessionID 0 8 of
        Err e \<Rightarrow> (Err e, c)
      | Panic p \<Rightarrow> (Panic p, c)
      | Ok _ \<Rightarrow>
     (case write_packet OK_packet seq c of
        (Err e, c) \<Rightarrow> (Ok (), c)
      | (Panic p, c) \<Rightarrow> (Panic p, c)
      | (Ok _, c) \<Rightarrow>
     (case my_loop A sessionID c of
        (Err e, c) \<Rightarrow> (Err e, c)
      | (Panic p, c) \<Rightarrow> (Panic p, c)
      | (Ok _, c) \<Rightarrow> (Ok (), c\<lparr>world := snd (close_session A sessionID (world c))\<rparr>))))))))"

section \<open>Sessions are closed\<close>

lemma my_query_traced:
  "only_queries sid (snd (world c)) (snd (world (snd (my_query (traced A) sid sql seq c))))"
proof -
  obtain r w where Pair: "send_query (traced A) sid (Marshal (my_request_json ComQuery sql)) (world c) = (r, w)"
    by (rule prod.exhaust)
  then have "snd w = snd (world c) @ [Queried sid]" by (cases "world c") (auto simp: traced_query)
  with Pair show ?thesis
    by (cases r) (simp_all add: my_query_def Let_def split: result.split)
qed

lemma my_command_traced:
  "only_queries sid (snd (world c)) (snd (world (snd (my_command (traced A) sid payload seq c))))"
proof (cases payload)
  case (Cons cmd data)
  have eq: "P (if b then x else y)" if "b \<Longrightarrow> P x" "\<not> b \<Longrightarrow> P y" for P b and x y :: "control result \<times> ('a \<times> api_call list) conn"
    using that by simp
  show ?thesis
    unfolding my_command_def Cons list.case
    by (rule eq [where P = "\<lambda>x. only_queries sid (snd (world c)) (snd (world (snd x)))"]
      | simp only: my_query_traced snd_conv inbox_put only_queries_refl)+
qed (simp add: my_command_def)

lemma my_loop_traced:
  "only_queries sid (snd (world c)) (snd (world (snd (my_loop (traced A) sid c))))"
proof (induction "traced A" sid c rule: my_loop.induct)
  case (1 sid c)
  show ?case
  proof (cases "ReadPacket (inbox c)")
    case (Pair x r)
    show ?thesis
    proof (cases x)
      case (Ok ps)
      obtain payload s where ps: "ps = (payload, s)" by fastforce
      obtain res c' where c': "my_command (traced A) sid payload (s + 1) (c\<lparr>inbox := r\<rparr>) = (res, c')" by fastforce
      have step: "only_queries sid (snd (world c)) (snd (world c'))"
        using my_command_traced [of sid "c\<lparr>inbox := r\<rparr>" A payload "s + 1"] c' by simp
      have "only_queries sid (snd (world c')) (snd (world (snd (my_loop (traced A) sid c'))))" if "res = Ok Next"
        using 1 [OF Pair [symmetric] Ok ps [symmetric] c' [symmetric] that refl] .
      with step have "only_queries sid (snd (world c)) (snd (world (snd (my_loop (traced A) sid c'))))" if "res = Ok Next"
        using that only_queries_trans by blast
      with step Pair Ok ps c' show ?thesis
        by (subst my_loop.simps) (auto split: result.split control.split)
    qed (simp_all add: Pair my_loop.simps [of _ sid c])
  qed
qed

lemma write_packet_unbroken:
  "budget (outbox c) = None \<Longrightarrow> length p \<le> MaxPayloadLen \<Longrightarrow>
   write_packet p seq c = (Ok (), c\<lparr>outbox := (outbox c)\<lparr>sent := sent (outbox c) @ packet p seq\<rparr>\<rparr>)"
  by (simp add: write_packet_def WritePacket_def packet_def Let_def)

lemma length_OK_packet: "length OK_packet \<le> MaxPayloadLen"
  by (simp add: OK_packet_def BuildOKPacket_def PutLenEncInt_def MaxPayloadLen_def)

lemma length_greeting: "length (encode_handshake BuildHandshakeV10) \<le> MaxPayloadLen"
  by (simp add: encode_handshake_def BuildHandshakeV10_def AuthPluginName_def MaxPayloadLen_def Let_def)

lemma unbroken_writes:
  assumes "budget (outbox c) = None"
  shows "\<exists>out. write_packet (encode_handshake BuildHandshakeV10) seq c = (Ok (), c\<lparr>outbox := out\<rparr>) \<and> budget out = None"
    and "\<exists>out. write_packet OK_packet seq c = (Ok (), c\<lparr>outbox := out\<rparr>) \<and> budget out = None"
  using assms by (auto simp: write_packet_unbroken length_OK_packet length_greeting)

text \<open>How a connection can end without a panic.\<close>

lemma my_handleConnection_cases:
  assumes "my_handleConnection A c = (Ok u, c')"
  obtains (no_session) "world c' = world c"
  | (refused) payload e where "open_session A payload ''mysql'' (world c) = (Err e, world c')"
  | (lost) payload sid where "open_session A payload ''mysql'' (world c) = (Ok sid, world c')" "budget (outbox c) \<noteq> None"
  | (served) payload sid c1 c2 where "open_session A payload ''mysql'' (world c) = (Ok sid, world c1)"
      "my_loop A sid c1 = (Ok (), c2)" "world c' = snd (close_session A sid (world c2))"
proof -
  obtain r0 c1 where w0: "write_packet (encode_handshake BuildHandshakeV10) 0 c = (r0, c1)" by fastforce
  note c1 = inbox_write_packet [OF w0]
  obtain x r where rp: "ReadPacket (inbox c) = (x, r)" by fastforce
  show thesis
  proof (cases "r0 = Ok () \<and> (\<exists>ps. x = Ok ps \<and> (\<exists>resp. ParseHandshakeResponse (fst ps) = Ok resp))")
    case False
    then have "world c' = world c"
      using assms w0 c1 rp
      by (auto simp: my_handleConnection_def Let_def split: result.splits prod.splits)
    then show thesis by (rule no_session)
  next
    case True
    then obtain payload s resp where x: "r0 = Ok ()" "x = Ok (payload, s)" "ParseHandshakeResponse payload = Ok resp"
      by auto
    obtain opened w' where op: "open_session A payload ''mysql'' (world c) = (opened, w')" by fastforce
    let ?c2 = "c1\<lparr>inbox := r, world := w'\<rparr>"
    obtain r2 c2 where w2: "write_packet OK_packet (s + 1) ?c2 = (r2, c2)" by fastforce
    have r2: "r2 = Ok () \<or> budget (outbox c) \<noteq> None"
      using w0 w2 unbroken_writes [of c 0] unbroken_writes(2) [of ?c2 "s + 1"] by fastforce
    have c2: "world c2 = w'" using inbox_write_packet [OF w2] by simp
    consider (e) e where "opened = Err e" | (l) sid where "opened = Ok sid" "r2 \<noteq> Ok ()"
      | (s) sid where "opened = Ok sid" "r2 = Ok ()" | (p) p where "opened = Panic p"
      by (cases opened) auto
    then show thesis
    proof cases
      case e
      with assms w0 c1 rp x op have "world c' = w'" by (auto simp: my_handleConnection_def Let_def)
      with op e show thesis using refused by simp
    next
      case l
      with assms w0 c1 rp x op w2 have "world c' = w'"
        by (auto simp: my_handleConnection_def Let_def c2 split: result.splits prod.splits)
      with op l r2 show thesis using lost by simp
    next
      case s
      with assms w0 c1 rp x op w2 show thesis
        by (auto simp: my_handleConnection_def Let_def c2 split: result.splits prod.splits intro!: served)
    next
      case p
      with assms w0 c1 rp x op show thesis by (simp add: my_handleConnection_def Let_def)
    qed
  qed
qed

text \<open>
  When the handler returns normally, the session it opened, if it opened one, was used under its
  own id only and closed exactly once, unless the client's connection broke before the
  authentication OK could be written.
\<close>

lemma closed_on_return:
  assumes "my_handleConnection (traced A) \<lparr>inbox = i, outbox = out, world = (w, [])\<rparr> = (Ok (), c)"
  shows "balanced (snd (world c)) \<or> (\<exists>sid. snd (world c) = [Opened (Ok sid)] \<and> budget out \<noteq> None)"
  using assms
proof (cases rule: my_handleConnection_cases)
  case (served payload sid c1 c2)
  then have "snd (world c1) = [Opened (Ok sid)]" by (cases "world c1") (simp add: traced_open)
  with served(2) have "only_queries sid [Opened (Ok sid)] (snd (world c2))"
    using my_loop_traced [of sid c1 A] by simp
  then have "balanced (snd (world c2) @ [Closed sid])" by (rule balanced_closed)
  moreover have "snd (world c) = snd (world c2) @ [Closed sid]"
    unfolding served(3) by (cases "world c2") (simp add: traced_def split: prod.split)
  ultimately show ?thesis by simp
next
  case (refused payload e)
  then show ?thesis by (cases "world c") (simp add: traced_open)
next
  case (lost payload sid)
  then show ?thesis by (cases "world c") (simp add: traced_open)
qed simp

section \<open>What a client gets for its commands\<close>

text \<open>
  The commands of a client and the packets each is answered with; \<open>frames\<close> puts a packet header
  in front of each, the numbers counting on from the command's. A packet that is too large ends an
  answer: the rest of it is not sent.
\<close>

datatype command = Query string | Ping | InitDB string | Statement byte "byte list" | Other byte "byte list"

fun command_payload :: "command \<Rightarrow> byte list" where
  "command_payload (Query sql) = ComQuery # bytes_of sql"
| "command_payload Ping = [ComPing]"
| "command_payload (InitDB db) = ComInitDB # bytes_of db"
| "command_payload (Statement c data) = c # data"
| "command_payload (Other c data) = c # data"

fun wf_command :: "command \<Rightarrow> bool" where
  "wf_command (Statement c data) \<longleftrightarrow> c \<in> {ComStmtPrepare, ComStmtExecute, ComStmtClose, ComStmtReset, ComStmtFetch}"
| "wf_command (Other c data) \<longleftrightarrow>
     c \<notin> {ComQuery, ComPing, ComQuit, ComInitDB, ComStmtPrepare, ComStmtExecute, ComStmtClose, ComStmtReset, ComStmtFetch}"
| "wf_command _ \<longleftrightarrow> True"

definition query_answer :: "string \<Rightarrow> byte list result \<Rightarrow> byte list list" where
  "query_answer sql r =
     (case r of
        Ok bs \<Rightarrow>
          (case Unmarshal_response bs of
             Ok result \<Rightarrow>
               if Error result \<noteq> [] then [BuildERRPacket 1064 ''42000'' (Error result)] else buildResultSet result sql
           | _ \<Rightarrow> [])
      | _ \<Rightarrow> [BuildERRPacket 2006 ''HY000'' ''MySQL server has gone away''])"

fun answer :: "'w api \<Rightarrow> string \<Rightarrow> command \<Rightarrow> 'w \<Rightarrow> byte list list \<times> 'w" where
  "answer A sid (Query sql) w =
     (case send_query A sid (Marshal (my_request_json ComQuery sql)) w of (r, w') \<Rightarrow> (query_answer sql r, w'))"
| "answer A sid Ping w = ([OK_packet], w)"
| "answer A sid (InitDB db) w = ([OK_packet], w)"
| "answer A sid (Statement c data) w =
     ([BuildERRPacket 1295 ''HY000'' ''This command is not supported in the prepared statement protocol''], w)"
| "answer A sid (Other c data) w = ([BuildERRPacket 1047 ''08S01'' (''Unknown command: 0x'' @ fmt_02x c)], w)"

fun frames :: "byte \<Rightarrow> byte list list \<Rightarrow> byte list" where
  "frames seq [] = []"
| "frames seq (p # ps) = (if length p \<le> MaxPayloadLen then packet p seq @ frames (seq + 1) ps else [])"

fun conversation :: "'w api \<Rightarrow> string \<Rightarrow> command list \<Rightarrow> 'w \<Rightarrow> byte list \<times> 'w" where
  "conversation A sid [] w = ([], w)"
| "conversation A sid (cmd # cmds) w =
     (case answer A sid cmd w of (ps, w1) \<Rightarrow>
        case conversation A sid cmds w1 of (rest, w2) \<Rightarrow> (frames 1 ps @ rest, w2))"

text \<open>A connection that has delivered \<open>bs\<close> more.\<close>

definition deliver_to :: "byte list \<Rightarrow> 'w conn \<Rightarrow> 'w conn" where
  "deliver_to bs c = c\<lparr>outbox := (outbox c)\<lparr>sent := sent (outbox c) @ bs\<rparr>\<rparr>"

lemma deliver_to_simps [simp]:
  "inbox (deliver_to bs c) = inbox c" "world (deliver_to bs c) = world c"
  "budget (outbox (deliver_to bs c)) = budget (outbox c)"
  "deliver_to [] c = c" "deliver_to b (deliver_to a c) = deliver_to (a @ b) c"
  "(deliver_to bs c)\<lparr>inbox := i\<rparr> = deliver_to bs (c\<lparr>inbox := i\<rparr>)"
  "(deliver_to bs c)\<lparr>world := w\<rparr> = deliver_to bs (c\<lparr>world := w\<rparr>)"
  by (simp_all add: deliver_to_def)

lemma write_packet_deliver:
  "budget (outbox c) = None \<Longrightarrow> length p \<le> MaxPayloadLen \<Longrightarrow> write_packet p seq c = (Ok (), deliver_to (packet p seq) c)"
  by (simp add: write_packet_unbroken deliver_to_def)

lemma write_packet_too_large:
  "length p > MaxPayloadLen \<Longrightarrow> \<exists>e. write_packet p seq c = (Err e, c)"
  by (simp add: write_packet_def WritePacket_def Let_def)

lemma write_packets_frames:
  "budget (outbox c) = None \<Longrightarrow> write_packets ps seq c = deliver_to (frames seq ps) c"
proof (induction ps arbitrary: seq c)
  case (Cons p ps)
  show ?case
  proof (cases "length p \<le> MaxPayloadLen")
    case True
    with Cons show ?thesis by (simp add: write_packet_deliver)
  next
    case False
    then obtain e where "write_packet p seq c = (Err e, c)" using write_packet_too_large [of p seq c] by auto
    with False show ?thesis by simp
  qed
qed simp

lemma put_frames: "budget (outbox c) = None \<Longrightarrow> put p seq c = deliver_to (frames seq [p]) c"
  using write_packets_frames [of c "[p]" seq] by (simp add: put_def split: prod.splits result.splits)

lemma command_codes [simp]:
  "ComPing \<noteq> ComQuery" "ComInitDB \<noteq> ComQuery" "ComInitDB \<noteq> ComPing" "ComInitDB \<noteq> ComQuit"
  "ComQuit \<noteq> ComQuery" "ComQuit \<noteq> ComPing"
  "ComStmtPrepare \<notin> {ComQuery, ComPing, ComQuit, ComInitDB}" "ComStmtExecute \<notin> {ComQuery, ComPing, ComQuit, ComInitDB}"
  "ComStmtClose \<notin> {ComQuery, ComPing, ComQuit, ComInitDB}" "ComStmtReset \<notin> {ComQuery, ComPing, ComQuit, ComInitDB}"
  "ComStmtFetch \<notin> {ComQuery, ComPing, ComQuit, ComInitDB}"
  by (simp_all add: command_defs)

lemma length_request:
  assumes "length sql \<le> MaxPayloadLen"
  shows "length (Marshal (my_request_json ComQuery sql)) \<le> gcm_limit"
proof -
  have "length (render_string sql) \<le> 6 * 2 ^ 24" using length_render_string [of sql] assms by (simp add: MaxPayloadLen_def)
  moreover have "fmt_d (uint ComQuery) = ''3''" by (simp add: ComQuery_def fmt_d_def show_nat.simps)
  moreover have "render_string ''type'' = quote # ''type'' @ [quote]" "render_string ''sql'' = quote # ''sql'' @ [quote]"
    by (simp_all add: render_string_def escape_string.simps(2) escape_char_def)
  ultimately show ?thesis
    by (simp add: Marshal_def my_request_json_def json_int_def gcm_limit_def)
qed

lemma my_query_answer:
  assumes "budget (outbox c) = None" "send_query A sid (Marshal (my_request_json ComQuery sql)) (world c) = (r, w)"
    and "\<not> is_panic r"
  shows "my_query A sid sql seq c = (Ok Next, deliver_to (frames seq (query_answer sql r)) (c\<lparr>world := w\<rparr>))"
  using assms
  by (cases r) (simp_all add: my_query_def query_answer_def Let_def put_frames write_packets_frames
      Unmarshal_response_def split: result.split)

context session_api
begin

lemma my_command_answer:
  assumes "budget (outbox c) = None" "wf_command cmd" "length (command_payload cmd) \<le> MaxPayloadLen"
    and "answer A sid cmd (world c) = (ps, w)"
  shows "my_command A sid (command_payload cmd) seq c = (Ok Next, deliver_to (frames seq ps) (c\<lparr>world := w\<rparr>))"
proof (cases cmd)
  case (Query sql)
  obtain r w' where s: "send_query A sid (Marshal (my_request_json ComQuery sql)) (world c) = (r, w')" by fastforce
  have "length sql \<le> MaxPayloadLen" using assms(3) Query by simp
  from query_errors [OF length_request [OF this], of sid "world c"] s have "\<not> is_panic r" by simp
  from my_query_answer [OF assms(1) s this] Query s assms(4) show ?thesis
    by (simp add: my_command_def)
next
  case (Statement n data)
  then show ?thesis using assms by (auto simp: my_command_def put_frames command_defs)
next
  case (Other n data)
  then show ?thesis using assms by (auto simp: my_command_def put_frames)
qed (use assms in \<open>auto simp: my_command_def put_frames\<close>)


lemma my_loop_conversation:
  assumes "budget (outbox c) = None" "list_all wf_command cmds"
    and "list_all (\<lambda>cmd. length (command_payload cmd) \<le> MaxPayloadLen) cmds"
    and "inbox c = \<lparr>pending = concat (map (\<lambda>cmd. packet (command_payload cmd) 0) cmds) @ rest, closing = e\<rparr>"
    and "conversation A sid cmds (world c) = (out, w)"
  shows "my_loop A sid c = my_loop A sid (deliver_to out (c\<lparr>inbox := \<lparr>pending = rest, closing = e\<rparr>, world := w\<rparr>))"
  using assms
proof (induction cmds arbitrary: c out)
  case Nil
  then have "c\<lparr>inbox := \<lparr>pending = rest, closing = e\<rparr>, world := w\<rparr> = c" by (cases c) simp
  moreover have "out = []" using Nil by simp
  ultimately show ?case by (simp only: deliver_to_simps)
next
  case (Cons cmd cmds)
  let ?i = "\<lparr>pending = concat (map (\<lambda>cmd. packet (command_payload cmd) 0) cmds) @ rest, closing = e\<rparr>"
  obtain ps w1 where a: "answer A sid cmd (world c) = (ps, w1)" by fastforce
  obtain out1 where v: "conversation A sid cmds w1 = (out1, w)" and out: "out = frames 1 ps @ out1"
    using Cons.prems(5) a by (auto split: prod.splits)
  have "ReadPacket (inbox c) = (Ok (command_payload cmd, 0), ?i)"
    using Cons.prems ReadPacket_packet [of "command_payload cmd" 0] by simp
  moreover have "my_command A sid (command_payload cmd) (0 + 1) (c\<lparr>inbox := ?i\<rparr>) =
      (Ok Next, deliver_to (frames 1 ps) (c\<lparr>inbox := ?i, world := w1\<rparr>))"
    using my_command_answer [of "c\<lparr>inbox := ?i\<rparr>" cmd sid ps w1 1] Cons.prems a by simp
  ultimately have "my_loop A sid c = my_loop A sid (deliver_to (frames 1 ps) (c\<lparr>inbox := ?i, world := w1\<rparr>))"
    by (subst my_loop.simps) simp
  also have "\<dots> = my_loop A sid (deliver_to out1 ((deliver_to (frames 1 ps) (c\<lparr>inbox := ?i, world := w1\<rparr>))
      \<lparr>inbox := \<lparr>pending = rest, closing = e\<rparr>, world := w\<rparr>))"
    by (rule Cons.IH) (use Cons.prems v in simp_all)
  finally show ?case by (simp add: out)
qed

end

lemma my_loop_end:
  "hangup = [] \<or> hangup = packet [ComQuit] 0 \<Longrightarrow>
   my_loop A sid (c\<lparr>inbox := \<lparr>pending = hangup, closing = e\<rparr>\<rparr>) = (Ok (), c\<lparr>inbox := \<lparr>pending = [], closing = e\<rparr>\<rparr>)"
  using ReadPacket_packet [of "[ComQuit]" 0 "[]" e]
  by (subst my_loop.simps) (auto simp: ReadPacket_def [of "\<lparr>pending = [], closing = e\<rparr>"] ReadFull_def my_command_def MaxPayloadLen_def)

lemma my_login:
  assumes "budget (outbox c) = None" "ParseHandshakeResponse login = Ok resp" "length login \<le> MaxPayloadLen"
    and "open_session A login ''mysql'' (world c) = (Ok sid, w)" "8 \<le> length sid"
    and "inbox c = \<lparr>pending = packet login 1 @ rest, closing = e\<rparr>"
  shows "my_handleConnection A c =
    (case my_loop A sid (deliver_to (packet (encode_handshake BuildHandshakeV10) 0 @ packet OK_packet 2)
        (c\<lparr>inbox := \<lparr>pending = rest, closing = e\<rparr>, world := w\<rparr>)) of
       (Err e, c) \<Rightarrow> (Err e, c)
     | (Panic p, c) \<Rightarrow> (Panic p, c)
     | (Ok _, c) \<Rightarrow> (Ok (), c\<lparr>world := snd (close_session A sid (world c))\<rparr>))"
  using assms length_greeting length_OK_packet ReadPacket_packet [OF assms(3), of 1 rest e]
  by (simp add: my_handleConnection_def write_packet_deliver Let_def slice_def)

lemma my_conversation_lemma:
  assumes "session_api A" "ParseHandshakeResponse login = Ok resp" "length login \<le> MaxPayloadLen"
    and "open_session A login ''mysql'' w = (Ok sid, w1)" "8 \<le> length sid"
    and "list_all wf_command cmds" "list_all (\<lambda>cmd. length (command_payload cmd) \<le> MaxPayloadLen) cmds"
    and "hangup = [] \<or> hangup = packet [ComQuit] 0" "conversation A sid cmds w1 = (answers, w2)"
  shows "my_handleConnection A
      \<lparr>inbox = \<lparr>pending = packet login 1 @ concat (map (\<lambda>cmd. packet (command_payload cmd) 0) cmds) @ hangup, closing = e\<rparr>,
       outbox = \<lparr>sent = [], budget = None\<rparr>, world = w\<rparr> =
    (Ok (), \<lparr>inbox = \<lparr>pending = [], closing = e\<rparr>,
       outbox = \<lparr>sent = packet (encode_handshake BuildHandshakeV10) 0 @ packet OK_packet 2 @ answers, budget = None\<rparr>,
       world = snd (close_session A sid w2)\<rparr>)"
proof -
  let ?rest = "concat (map (\<lambda>cmd. packet (command_payload cmd) 0) cmds) @ hangup"
  let ?c = "\<lparr>inbox = \<lparr>pending = packet login 1 @ ?rest, closing = e\<rparr>, outbox = \<lparr>sent = [], budget = None\<rparr>, world = w\<rparr>"
  let ?c1 = "deliver_to (packet (encode_handshake BuildHandshakeV10) 0 @ packet OK_packet 2)
    (?c\<lparr>inbox := \<lparr>pending = ?rest, closing = e\<rparr>, world := w1\<rparr>)"
  let ?c2 = "deliver_to answers (?c1\<lparr>inbox := \<lparr>pending = hangup, closing = e\<rparr>, world := w2\<rparr>)"
  have "my_loop A sid ?c1 = my_loop A sid ?c2"
    using session_api.my_loop_conversation [OF assms(1), of ?c1 cmds hangup e sid answers w2] assms(6,7,9) by simp
  also have "?c2 = ?c2\<lparr>inbox := \<lparr>pending = hangup, closing = e\<rparr>\<rparr>" by (simp add: deliver_to_def)
  also have "my_loop A sid \<dots> = (Ok (), ?c2\<lparr>inbox := \<lparr>pending = [], closing = e\<rparr>\<rparr>)"
    by (rule my_loop_end [OF assms(8)])
  finally show ?thesis
    using my_login [of ?c login resp A sid w1 ?rest e] assms(2-5) by (simp add: deliver_to_def)
qed

text \<open>
  C27: A client that logs in, sends any commands and then quits or closes its connection gets the
  greeting, the authentication OK and, for each command in order, the packets that answer it,
  numbered from 1; the queries among them reach the server in order and on the client's session,
  which is then closed.
\<close>

theorem my_conversation:
  assumes "session_api A" "ParseHandshakeResponse login = Ok resp" "length login \<le> MaxPayloadLen"
    and "open_session A login ''mysql'' w = (Ok sid, w1)" "8 \<le> length sid"
    and "list_all wf_command cmds" "list_all (\<lambda>cmd. length (command_payload cmd) \<le> MaxPayloadLen) cmds"
    and "hangup = [] \<or> hangup = packet [ComQuit] 0" "conversation A sid cmds w1 = (answers, w2)"
  shows "my_handleConnection A
      \<lparr>inbox = \<lparr>pending = packet login 1 @ concat (map (\<lambda>cmd. packet (command_payload cmd) 0) cmds) @ hangup, closing = e\<rparr>,
       outbox = \<lparr>sent = [], budget = None\<rparr>, world = w\<rparr> =
    (Ok (), \<lparr>inbox = \<lparr>pending = [], closing = e\<rparr>,
       outbox = \<lparr>sent = packet (encode_handshake BuildHandshakeV10) 0 @ packet OK_packet 2 @ answers, budget = None\<rparr>,
       world = snd (close_session A sid w2)\<rparr>)"
  using my_conversation_lemma [OF assms] .

end
