(* ===== verification/MyClient.thy ===== *)
theory MyClient
  imports MyProxy
begin

text \<open>
  What a MySQL client makes of the packets the proxy answers with: it reads them off the
  connection one by one, checks their numbers, and decodes a result set. And when a client can make
  the proxy panic.
\<close>

section \<open>Reading an answer\<close>

fun read_packets :: "nat \<Rightarrow> reader \<Rightarrow> (byte list \<times> byte) list result \<times> reader" where
  "read_packets 0 r = (Ok [], r)"
| "read_packets (Suc n) r =
     (case ReadPacket r of
        (Ok p, r) \<Rightarrow> (case read_packets n r of (ps, r) \<Rightarrow> (rbind ps (\<lambda>ps. Ok (p # ps)), r))
      | (Err e, r) \<Rightarrow> (Err e, r)
      | (Panic q, r) \<Rightarrow> (Panic q, r))"

fun numbered :: "byte \<Rightarrow> byte list list \<Rightarrow> (byte list \<times> byte) list" where
  "numbered seq [] = []"
| "numbered seq (p # ps) = (p, seq) # numbered (seq + 1) ps"

lemma numbered_nth:
  "i < length ps \<Longrightarrow> numbered seq ps ! i = (ps ! i, word_of_nat ((unat seq + i) mod 256))"
proof (induction ps arbitrary: seq i)
  case (Cons p ps)
  have wrap: "word_of_nat (n mod 256) = (word_of_nat n :: byte)" for n
    by (simp add: word_of_nat_eq_iff take_bit_eq_mod)
  show ?case
  proof (cases i)
    case (Suc j)
    with Cons have "numbered seq (p # ps) ! i = (ps ! j, word_of_nat ((unat (seq + 1) + j) mod 256))" by simp
    then show ?thesis by (simp add: Suc wrap)
  qed (simp add: wrap)
qed simp

lemma length_numbered [simp]: "length (numbered seq ps) = length ps"
  by (induction seq ps rule: numbered.induct) simp_all

lemma read_frames:
  "list_all (\<lambda>p. length p \<le> MaxPayloadLen) ps \<Longrightarrow>
   read_packets (length ps) \<lparr>pending = frames seq ps @ rest, closing = e\<rparr> =
     (Ok (numbered seq ps), \<lparr>pending = rest, closing = e\<rparr>)"
  by (induction ps arbitrary: seq) (simp_all add: ReadPacket_packet)

lemma frames_sendable: "frames seq ps = frames seq (takeWhile (\<lambda>p. length p \<le> MaxPayloadLen) ps)"
  by (induction ps arbitrary: seq) simp_all

lemma fst_numbered: "map fst (numbered seq ps) = ps"
  by (induction seq ps rule: numbered.induct) simp_all

text \<open>
  C30: What \<open>write_packets\<close> puts on an unbroken connection is read back by a client packet by packet:
  exactly the packets before the first that is above the limit, which ends the answer, none of them
  changed, and no byte of what follows; their numbers count on from the first modulo 256, so they
  repeat in a result set of more than 256 packets.
\<close>

theorem answer_on_the_wire:
  assumes "budget (outbox c) = None"
  shows "\<exists>bs qs. write_packets ps seq c = c\<lparr>outbox := (outbox c)\<lparr>sent := sent (outbox c) @ bs\<rparr>\<rparr>
    \<and> map fst qs = takeWhile (\<lambda>p. length p \<le> MaxPayloadLen) ps
    \<and> (\<forall>rest e. read_packets (length qs) \<lparr>pending = bs @ rest, closing = e\<rparr> = (Ok qs, \<lparr>pending = rest, closing = e\<rparr>))
    \<and> (\<forall>i < length qs. snd (qs ! i) = word_of_nat ((unat seq + i) mod 256))"
proof (intro exI conjI allI impI)
  let ?ps = "takeWhile (\<lambda>p. length p \<le> MaxPayloadLen) ps"
  show "write_packets ps seq c = c\<lparr>outbox := (outbox c)\<lparr>sent := sent (outbox c) @ frames seq ps\<rparr>\<rparr>"
    using write_packets_frames [OF assms] by (simp add: deliver_to_def)
  show "map fst (numbered seq ?ps) = ?ps" by (rule fst_numbered)
  show "read_packets (length (numbered seq ?ps)) \<lparr>pending = frames seq ps @ rest, closing = e\<rparr> =
      (Ok (numbered seq ?ps), \<lparr>pending = rest, closing = e\<rparr>)" for rest e
    using read_frames [of ?ps seq rest e] frames_sendable [of seq ps]
    by (simp add: list_all_iff) (meson set_takeWhileD)
  show "snd (numbered seq ?ps ! i) = word_of_nat ((unat seq + i) mod 256)" if "i < length (numbered seq ?ps)" for i
    using numbered_nth [of i ?ps seq] that by simp
qed

section \<open>Result sets\<close>

text \<open>
  The text protocol as a client reads it: the number of columns, as many definitions, an EOF, rows
  until another EOF. Of a definition it keeps the name.
\<close>

fun take_columns :: "nat \<Rightarrow> byte list list \<Rightarrow> (string list \<times> byte list list) option" where
  "take_columns 0 ps = Some ([], ps)"
| "take_columns (Suc n) [] = None"
| "take_columns (Suc n) (p # ps) =
     do { c \<leftarrow> decode_column p; (cs, rest) \<leftarrow> take_columns n ps; Some (cd_Name c # cs, rest) }"

fun take_rows :: "nat \<Rightarrow> byte list list \<Rightarrow> string option list list option" where
  "take_rows n [] = None"
| "take_rows n (p # ps) =
     (if is_eof p then (if ps = [] then Some [] else None)
      else if is_err p then None
      else do { r \<leftarrow> decode_row n p; rs \<leftarrow> take_rows n ps; Some (r # rs) })"

definition decode_result_set :: "byte list list \<Rightarrow> (string list \<times> string option list list) option" where
  "decode_result_set ps =
     (case ps of
        [] \<Rightarrow> None
      | p # ps \<Rightarrow>
          do {
            (n, r) \<leftarrow> lenenc_int p;
            (cs, ps) \<leftarrow> (if r = [] then take_columns n ps else None);
            rows \<leftarrow> (case ps of [] \<Rightarrow> None | q # ps \<Rightarrow> if is_eof q then take_rows n ps else None);
            Some (cs, rows)
          })"

lemma length_my_commandTag:
  assumes "0 \<le> n" "n < 2 ^ 63"
  shows "length (my_commandTag sql n) < 2 ^ 64"
proof -
  have "length (fmt_d n) \<le> 19" using length_show_nat [of "nat n" 18] assms by (simp add: fmt_d_def)
  then show ?thesis by (simp add: my_commandTag_def Let_def)
qed

lemma take_columns_built:
  "list_all (\<lambda>c. length c < 2 ^ 64) cs \<Longrightarrow>
   take_columns (length cs) (map (\<lambda>col. encode_column (BuildColumnDef col)) cs @ rest) = Some (cs, rest)"
  by (induction cs) (simp_all add: column_roundtrip BuildColumnDef_def)

lemma decode_BuildResultSetRow:
  "list_all (\<lambda>v. length v < 2 ^ 64) vs \<Longrightarrow> decode_row (length vs) (BuildResultSetRow vs) = Some (map sql_value vs)"
  by (rule decode_row_Build) (simp add: list_all_iff)

lemma take_rows_built:
  "list_all (\<lambda>row. length row = n \<and> list_all (\<lambda>v. length v < 2 ^ 64) row) rows \<Longrightarrow>
   take_rows n (map BuildResultSetRow rows @ [BuildEOFPacket w s]) = Some (map (map sql_value) rows)"
  by (induction rows) (auto simp: row_not_terminator decode_BuildResultSetRow)

text \<open>
  C29: From the packets of a result set a client decodes the column names and, row by row, the
  values the server sent, the text \<open>NULL\<close> as SQL NULL; a statement without columns is a single OK
  packet that carries the number of affected rows.
\<close>

theorem result_set_roundtrip:
  assumes "list_all (\<lambda>c. length c < 2 ^ 64) (Columns r)" "length (Columns r) < 2 ^ 64"
    and "list_all (\<lambda>row. length row = length (Columns r) \<and> list_all (\<lambda>v. length v < 2 ^ 64) row) (Rows r)"
    and "0 \<le> RowsAffected r" "RowsAffected r < 2 ^ 63"
  shows "if Columns r = []
    then \<exists>p info. buildResultSet r sql = [p] \<and> decode_ok p = Some (nat (RowsAffected r), 0, ServerStatusAutocommit, 0, info)
    else decode_result_set (buildResultSet r sql) = Some (Columns r, map (map sql_value) (Rows r))"
proof (cases "Columns r = []")
  case True
  have "unat (word_of_int (RowsAffected r) :: 64 word) = nat (RowsAffected r)"
    using assms(4,5) by (simp add: unat_eq_nat_uint uint_word_of_int take_bit_int_eq_self)
  with decode_ok_Build [OF length_my_commandTag [OF assms(4,5)], of "word_of_int (RowsAffected r)" 0 ServerStatusAutocommit 0] assms(4,5) True
  show ?thesis by (simp add: buildResultSet_def)
next
  case False
  have "lenenc_int (PutLenEncInt (word_of_nat (length (Columns r)))) = Some (length (Columns r), [])"
    using lenenc_int_Put [of "word_of_nat (length (Columns r))" "[]"] assms(2) by (simp add: unat_of_nat)
  with False assms take_columns_built [OF assms(1)] take_rows_built [OF assms(3)] show ?thesis
    by (simp add: buildResultSet_def decode_result_set_def)
qed

section \<open>When the proxy panics\<close>

lemma ReadPacket_no_panic: "fst (ReadPacket r) \<noteq> Panic p"
  by (simp add: ReadPacket_def ReadFull_def Let_def)

context session_api
begin

lemma my_query_errors:
  assumes "length sql \<le> MaxPayloadLen"
  shows "fst (my_query A sid sql seq c) = Ok Next"
proof -
  obtain r w where s: "send_query A sid (Marshal (my_request_json ComQuery sql)) (world c) = (r, w)" by fastforce
  from query_errors [OF length_request [OF assms], of sid "world c"] s have "\<not> is_panic r" by simp
  with s show ?thesis
    by (cases r) (simp_all add: my_query_def Let_def Unmarshal_response_def split: result.split)
qed

lemma my_command_errors:
  assumes "length payload \<le> MaxPayloadLen"
  shows "fst (my_command A sid payload seq c) = Ok Next \<or> fst (my_command A sid payload seq c) = Ok Leave"
proof (cases payload)
  case (Cons cmd data)
  with assms my_query_errors [of "string_of data" sid seq c] show ?thesis by (simp add: my_command_def)
qed (simp add: my_command_def)

lemma my_loop_errors: "fst (my_loop A sid c) = Ok ()"
proof (induction c rule: measure_induct_rule [where f = "\<lambda>c. length (pending (inbox c))"])
  case (less c)
  obtain x r where rp: "ReadPacket (inbox c) = (x, r)" by fastforce
  show ?case
  proof (cases x)
    case (Ok ps)
    obtain payload s where ps: "ps = (payload, s)" by fastforce
    obtain res c' where c': "my_command A sid payload (s + 1) (c\<lparr>inbox := r\<rparr>) = (res, c')" by fastforce
    have "length payload \<le> MaxPayloadLen" using rp Ok ps by (simp add: ReadPacket_Ok)
    from my_command_errors [OF this, of sid "s + 1" "c\<lparr>inbox := r\<rparr>"] c'
    have res: "res = Ok Next \<or> res = Ok Leave" by simp
    have "inbox c' = r" using inbox_my_command [of A sid payload "s + 1" "c\<lparr>inbox := r\<rparr>"] c' by simp
    then have "fst (my_loop A sid c') = Ok ()"
      using ReadPacket_shorter [of "inbox c" ps r] rp Ok by (intro less.IH) simp
    with res rp Ok ps c' show ?thesis by (subst my_loop.simps) auto
  next
    case (Err e)
    with rp show ?thesis by (subst my_loop.simps) simp
  next
    case (Panic p)
    with rp ReadPacket_no_panic show ?thesis by (metis fst_conv)
  qed
qed

end

text \<open>
  C13: Over an API that reports its failures as errors, the connection handler never fails on a
  connected client, whatever its commands: it panics exactly when the client's first packet makes
  \<open>ParseHandshakeResponse\<close> panic or the server makes an id of fewer than eight bytes. A panic is not
  recovered and ends the proxy with all its connections.
\<close>

theorem my_connection_panics:
  assumes "session_api A" "budget (outbox c) = None"
  shows "(is_panic (fst (my_handleConnection A c)) \<longleftrightarrow>
      (\<exists>payload s r. ReadPacket (inbox c) = (Ok (payload, s), r) \<and>
        (is_panic (ParseHandshakeResponse payload) \<or>
         (\<exists>resp sid w. ParseHandshakeResponse payload = Ok resp \<and>
            open_session A payload ''mysql'' (world c) = (Ok sid, w) \<and> length sid < 8))))
    \<and> \<not> (\<exists>e. fst (my_handleConnection A c) = Err e)"
proof -
  obtain out where w0: "write_packet (encode_handshake BuildHandshakeV10) 0 c = (Ok (), c\<lparr>outbox := out\<rparr>)"
    and out: "budget out = None" using unbroken_writes(1) [OF assms(2)] by blast
  obtain x r where rp: "ReadPacket (inbox c) = (x, r)" by fastforce
  consider (login) payload s resp where "x = Ok (payload, s)" "ParseHandshakeResponse payload = Ok resp"
    | (no_login) "\<not> (\<exists>payload s resp. x = Ok (payload, s) \<and> ParseHandshakeResponse payload = Ok resp)" by blast
  then show ?thesis
  proof cases
    case login
    have "length payload \<le> MaxPayloadLen" using rp login by (simp add: ReadPacket_Ok)
    then have "length payload \<le> gcm_limit" by (simp add: MaxPayloadLen_def gcm_limit_def)
    from session_api.open_errors [OF assms(1) this, of "''mysql''" "world c"]
    obtain opened w where op: "open_session A payload ''mysql'' (world c) = (opened, w)" and np: "\<not> is_panic opened"
      by (cases "open_session A payload ''mysql'' (world c)") simp
    let ?c = "c\<lparr>outbox := out, inbox := r, world := w\<rparr>"
    obtain out2 where w2: "write_packet OK_packet (s + 1) ?c = (Ok (), ?c\<lparr>outbox := out2\<rparr>)"
      using unbroken_writes(2) [of ?c "s + 1"] out by auto
    show ?thesis
    proof (cases opened)
      case (Ok sid)
      have l: "fst (my_loop A sid (?c\<lparr>outbox := out2\<rparr>)) = Ok ()" by (rule session_api.my_loop_errors [OF assms(1)])
      show ?thesis
      proof (cases "length sid < 8")
        case True
        with w0 rp login op Ok show ?thesis by (simp add: my_handleConnection_def Let_def slice_def)
      next
        case False
        with w0 rp login op Ok w2 l show ?thesis
          by (auto simp: my_handleConnection_def Let_def slice_def split: prod.split)
      qed
    qed (use w0 rp login op np in \<open>auto simp: my_handleConnection_def Let_def\<close>)
  next
    case no_login
    then show ?thesis
      using w0 rp ReadPacket_no_panic [of "inbox c"]
      by (auto simp: my_handleConnection_def Let_def is_panic_def split: result.splits)
  qed
qed

text \<open>How a connection ends in a panic: before a session is opened, or right after one with a short id.\<close>

lemma write_packet_no_panic: "write_packet p seq c \<noteq> (Panic q, c')"
  using WritePacket_no_panic [of p seq "outbox c" q]
  by (cases "WritePacket p seq (outbox c)") (simp add: write_packet_def)

lemma my_handleConnection_fails:
  assumes "session_api A" "my_handleConnection A c = (r, c')" "r \<noteq> Ok ()"
  obtains (unparsed) payload s rest where "ReadPacket (inbox c) = (Ok (payload, s), rest)"
      "is_panic (ParseHandshakeResponse payload)" "is_panic r" "world c' = world c"
  | (short) payload sid where "open_session A payload ''mysql'' (world c) = (Ok sid, world c')" "length sid < 8" "is_panic r"
proof -
  obtain r0 c1 where w0: "write_packet (encode_handshake BuildHandshakeV10) 0 c = (r0, c1)" by fastforce
  have c1: "inbox c1 = inbox c" "world c1 = world c" using inbox_write_packet [OF w0] by simp_all
  obtain x rest where rp: "ReadPacket (inbox c) = (x, rest)" by fastforce
  have r0: "r0 = Ok ()"
    using assms(2,3) w0 by (cases r0) (auto simp: my_handleConnection_def write_packet_no_panic)
  obtain payload s where x: "x = Ok (payload, s)"
    using assms(2,3) w0 r0 c1 rp ReadPacket_no_panic [of "inbox c"]
    by (cases x) (auto simp: my_handleConnection_def)
  show thesis
  proof (cases "ParseHandshakeResponse payload")
    case (Err e)
    with assms(2,3) w0 r0 c1 rp x show thesis by (simp add: my_handleConnection_def Let_def)
  next
    case (Panic p)
    with assms(2) w0 r0 c1 rp x have "world c' = world c" "is_panic r" by (auto simp: my_handleConnection_def Let_def)
    with Panic rp x show thesis by (intro unparsed [OF rp [unfolded x]]) simp_all
  next
    case (Ok resp)
    have "length payload \<le> MaxPayloadLen" using rp x by (simp add: ReadPacket_Ok)
    then have "length payload \<le> gcm_limit" by (simp add: MaxPayloadLen_def gcm_limit_def)
    from session_api.open_errors [OF assms(1) this, of "''mysql''" "world c"]
    obtain opened w where op: "open_session A payload ''mysql'' (world c) = (opened, w)" and np: "\<not> is_panic opened"
      by (cases "open_session A payload ''mysql'' (world c)") simp
    obtain sid where sid: "opened = Ok sid"
      using assms(2,3) w0 r0 c1 rp x Ok op np by (cases opened) (auto simp: my_handleConnection_def Let_def)
    obtain r2 c2 where w2: "write_packet OK_packet (s + 1) (c1\<lparr>inbox := rest, world := w\<rparr>) = (r2, c2)" by fastforce
    have "r2 \<noteq> Panic p" for p using w2 write_packet_no_panic by metis
    moreover have "fst (my_loop A sid c2) = Ok ()" by (rule session_api.my_loop_errors [OF assms(1)])
    ultimately have less: "length sid < 8"
      using assms(2,3) w0 r0 c1 rp x Ok op sid w2
      by (auto simp: my_handleConnection_def Let_def slice_def split: result.splits prod.splits if_splits)
    with assms(2) w0 r0 c1 rp x Ok op sid have "world c' = w" "is_panic r"
      by (auto simp: my_handleConnection_def Let_def slice_def)
    with op sid less show thesis using "short" [of payload sid] by simp
  qed
qed

lemma traced_laws: "session_api A \<Longrightarrow> session_api (traced A)"
  by unfold_locales (simp_all add: traced_def split_beta session_api.open_errors session_api.query_errors)

text \<open>
  C10: Whatever a client sends and however its connection breaks, the handler ends, and what it did
  at the session API is known. Normally the session it opened, if it opened one, was used under its
  own id only and closed exactly once; only when the connection broke before the authentication OK
  was written it stays open. A panic opened no session, the client's first packet being what
  \<open>ParseHandshakeResponse\<close> panics on, or left the one it opened open, the server having made an id
  of fewer than eight characters.
\<close>

theorem my_session_closed:
  assumes "session_api A"
  shows "case my_handleConnection (traced A) \<lparr>inbox = i, outbox = out, world = (w, [])\<rparr> of
      (Ok _, c) \<Rightarrow> balanced (snd (world c)) \<or> (\<exists>sid. snd (world c) = [Opened (Ok sid)] \<and> budget out \<noteq> None)
    | (Panic _, c) \<Rightarrow>
        snd (world c) = [] \<and> (\<exists>payload s rest. ReadPacket i = (Ok (payload, s), rest) \<and> is_panic (ParseHandshakeResponse payload))
        \<or> (\<exists>sid. snd (world c) = [Opened (Ok sid)] \<and> length sid < 8)
    | (Err _, c) \<Rightarrow> False"
proof (cases "my_handleConnection (traced A) \<lparr>inbox = i, outbox = out, world = (w, [])\<rparr>")
  case (Pair r c)
  show ?thesis
  proof (cases "r = Ok ()")
    case True
    with closed_on_return [of A i out w c] Pair show ?thesis by simp
  next
    case False
    from traced_laws [OF assms] Pair False show ?thesis
    proof (cases rule: my_handleConnection_fails)
      case unparsed
      with Pair show ?thesis by (cases r) auto
    next
      case (short payload sid)
      then have "snd (world c) = [Opened (Ok sid)]" by (cases "world c") (simp add: traced_open)
      with short Pair show ?thesis by (cases r) auto
    qed
  qed
qed

section \<open>Witnesses\<close>

definition example_login :: "byte list" where
  "example_login = client_response 0x288008 0 45 ''root'' [1, 2] ''testdb'' ''p''"

lemma example_login_ok:
  "\<exists>resp. ParseHandshakeResponse example_login = Ok resp" "length example_login \<le> MaxPayloadLen"
proof -
  have n: "no_null ''root''" "no_null ''testdb''" "no_null ''p''"
    by (simp_all add: no_null_def byte_of_def)
  have f: "has_flag 0x288008 ClientPluginAuthLenencClientData
      \<or> has_flag 0x288008 ClientSecureConnection \<and> length [1, 2 :: byte] < 256"
    by (simp add: has_flag_def capability_defs)
  show l: "length example_login \<le> MaxPayloadLen"
    by (simp add: example_login_def client_response_def auth_bytes_def flagged_string_def PutLenEncInt_def MaxPayloadLen_def)
  show "\<exists>resp. ParseHandshakeResponse example_login = Ok resp"
    using ParseHandshakeResponse_client [OF n f l [unfolded example_login_def]] by (simp add: example_login_def)
qed

abbreviation example_query_conn :: "'w \<Rightarrow> 'w conn" where
  "example_query_conn w \<equiv>
     \<lparr>inbox = \<lparr>pending = packet example_login 1 @ packet (ComQuery # bytes_of ''SELECT 1'') 0 @ packet [ComQuit] 0, closing = EOF\<rparr>,
      outbox = \<lparr>sent = [], budget = None\<rparr>, world = w\<rparr>"

lemma example_conversation:
  assumes "session_api A" "\<And>p q. open_session A p q w = (Ok ''session-1'', w1)"
    and "conversation A ''session-1'' [Query ''SELECT 1''] w1 = (answers, w2)"
  shows "\<exists>c. my_handleConnection A (example_query_conn w) = (Ok (), c)
    \<and> world c = snd (close_session A ''session-1'' w2)"
proof -
  obtain resp where "ParseHandshakeResponse example_login = Ok resp" using example_login_ok(1) by blast
  from my_conversation_lemma [where cmds = "[Query ''SELECT 1'']" and hangup = "packet [ComQuit] 0" and e = EOF,
      OF assms(1) this example_login_ok(2) assms(2) _ _ _ _ assms(3)]
  show ?thesis by (simp add: MaxPayloadLen_def)
qed

theorem my_session_closed_witness:
  "\<exists>t. snd (world (snd (my_handleConnection (traced example_api) (example_query_conn ((), []))))) = t
     \<and> t = [Opened (Ok ''session-1''), Queried ''session-1'', Closed ''session-1''] \<and> balanced t"
proof -
  obtain ps where "conversation (traced example_api) ''session-1'' [Query ''SELECT 1''] ((), [Opened (Ok ''session-1'')]) =
      (ps, ((), [Opened (Ok ''session-1''), Queried ''session-1'']))"
    by (simp add: traced_def example_api_def)
  from example_conversation [where w = "((), [])", OF example_api_laws(2) _ this]
  obtain c where c: "my_handleConnection (traced example_api) (example_query_conn ((), [])) = (Ok (), c)"
    "snd (world c) = [Opened (Ok ''session-1''), Queried ''session-1'', Closed ''session-1'']"
    by (auto simp: traced_def example_api_def)
  from my_session_closed [OF example_api_laws(1), of "outbox (example_query_conn ((), []))"
      "inbox (example_query_conn ((), []))" "()"] c
  show ?thesis by simp
qed

theorem my_conversation_witness:
  "sent (outbox (snd (my_handleConnection example_api (example_query_conn ())))) =
     packet (encode_handshake BuildHandshakeV10) 0 @ packet OK_packet 2
     @ packet (BuildERRPacket 2006 ''HY000'' ''MySQL server has gone away'') 1"
proof -
  let ?p = "BuildERRPacket 2006 ''HY000'' ''MySQL server has gone away''"
  have p: "length ?p \<le> MaxPayloadLen" by (simp add: BuildERRPacket_def MaxPayloadLen_def)
  obtain resp where r: "ParseHandshakeResponse example_login = Ok resp" using example_login_ok(1) by blast
  have v: "conversation example_api ''session-1'' [Query ''SELECT 1''] () = (packet ?p 1, ())"
    using p by (simp add: example_api_def query_answer_def)
  have o: "open_session example_api example_login ''mysql'' () = (Ok ''session-1'', ())" by (simp add: example_api_def)
  from my_conversation [where hangup = "packet [ComQuit] 0" and e = EOF,
      OF example_api_laws(1) r example_login_ok(2) o _ _ _ _ v]
  show ?thesis by (simp add: MaxPayloadLen_def)
qed

theorem answer_on_the_wire_witness:
  "\<exists>bs qs r. write_packets [[1], [2]] 255 \<lparr>inbox = \<lparr>pending = [], closing = EOF\<rparr>, outbox = \<lparr>sent = [], budget = None\<rparr>, world = ()\<rparr> =
       \<lparr>inbox = \<lparr>pending = [], closing = EOF\<rparr>, outbox = \<lparr>sent = bs, budget = None\<rparr>, world = ()\<rparr>
     \<and> read_packets 2 \<lparr>pending = bs, closing = EOF\<rparr> = (Ok qs, r) \<and> map fst qs = [[1], [2]] \<and> snd (qs ! 1) = 0"
proof -
  let ?c = "\<lparr>inbox = \<lparr>pending = [], closing = EOF\<rparr>, outbox = \<lparr>sent = [], budget = None\<rparr>, world = ()\<rparr>"
  have t: "takeWhile (\<lambda>p. length p \<le> MaxPayloadLen) [[1 :: byte], [2]] = [[1], [2]]" by (simp add: MaxPayloadLen_def)
  have "budget (outbox ?c) = None" by simp
  from answer_on_the_wire [OF this, of "[[1], [2]]" 255, unfolded t] obtain bs qs where
    w: "write_packets [[1], [2]] 255 ?c = ?c\<lparr>outbox := (outbox ?c)\<lparr>sent := sent (outbox ?c) @ bs\<rparr>\<rparr>" and
    q: "map fst qs = [[1], [2]]" and
    r: "\<forall>rest e. read_packets (length qs) \<lparr>pending = bs @ rest, closing = e\<rparr> = (Ok qs, \<lparr>pending = rest, closing = e\<rparr>)" and
    n: "\<forall>i < length qs. snd (qs ! i) = word_of_nat ((unat (255 :: byte) + i) mod 256)"
    by (elim exE conjE) (rule that)
  have l: "length qs = 2" using arg_cong [OF q, of length] by simp
  have "read_packets 2 \<lparr>pending = bs, closing = EOF\<rparr> = (Ok qs, \<lparr>pending = [], closing = EOF\<rparr>)"
    using spec [OF spec [OF r, of "[]"], of EOF] by (simp only: l append_Nil2)
  moreover have "snd (qs ! 1) = 0" using spec [OF n, of 1] l by simp
  moreover have "write_packets [[1], [2]] 255 ?c = \<lparr>inbox = \<lparr>pending = [], closing = EOF\<rparr>, outbox = \<lparr>sent = bs, budget = None\<rparr>, world = ()\<rparr>"
    by (rule trans [OF w]) simp
  ultimately show ?thesis using q by (intro exI conjI)
qed

theorem result_set_roundtrip_witness:
  "decode_result_set (buildResultSet \<lparr>Columns = [''a'', ''b''], Rows = [[''1'', ''NULL'']], RowsAffected = 0, Error = []\<rparr> ''SELECT'')
   = Some ([''a'', ''b''], [[Some ''1'', None]])"
  using result_set_roundtrip [of "\<lparr>Columns = [''a'', ''b''], Rows = [[''1'', ''NULL'']], RowsAffected = 0, Error = []\<rparr>" "''SELECT''"]
  by (simp add: sql_value_def)

theorem my_connection_panics_witness:
  "is_panic (fst (my_handleConnection example_api
     \<lparr>inbox = \<lparr>pending = packet [1, 2, 3, 4, 5] 1, closing = EOF\<rparr>, outbox = \<lparr>sent = [], budget = None\<rparr>, world = ()\<rparr>))"
proof -
  let ?c = "\<lparr>inbox = \<lparr>pending = packet [1, 2, 3, 4, 5] 1, closing = EOF\<rparr>, outbox = \<lparr>sent = [], budget = None\<rparr>, world = ()\<rparr>"
  have "ReadPacket (inbox ?c) = (Ok ([1, 2, 3, 4, 5], 1), \<lparr>pending = [], closing = EOF\<rparr>)"
    using ReadPacket_packet [of "[1, 2, 3, 4, 5]" 1 "[]" EOF] by (simp add: MaxPayloadLen_def)
  moreover have "is_panic (ParseHandshakeResponse [1, 2, 3, 4, 5])"
    by (simp add: ParseHandshakeResponse_def slice_def)
  moreover note conjunct1 [OF my_connection_panics [OF example_api_laws(1), of ?c]]
  ultimately show ?thesis by auto
qed

text \<open>A session that stays open: the connection takes the greeting and breaks before the OK.\<close>

lemma leaked_session:
  "\<exists>c. my_handleConnection (traced example_api)
      \<lparr>inbox = \<lparr>pending = packet example_login 1, closing = EOF\<rparr>,
       outbox = \<lparr>sent = [], budget = Some (length (packet (encode_handshake BuildHandshakeV10) 0))\<rparr>, world = ((), [])\<rparr> =
      (Ok (), c) \<and> snd (world c) = [Opened (Ok ''session-1'')] \<and> \<not> balanced (snd (world c))"
proof -
  obtain resp where r: "ParseHandshakeResponse example_login = Ok resp" using example_login_ok(1) by blast
  let ?g = "encode_handshake BuildHandshakeV10"
  let ?c = "\<lparr>inbox = \<lparr>pending = packet example_login 1, closing = EOF\<rparr>,
       outbox = \<lparr>sent = [], budget = Some (length (packet ?g 0))\<rparr>, world = ((), [])\<rparr>"
  have w: "write_packet ?g 0 ?c = (Ok (), ?c\<lparr>outbox := \<lparr>sent = packet ?g 0, budget = Some 0\<rparr>\<rparr>)"
    using length_greeting by (simp add: write_packet_def WritePacket_def Write_def packet_def Let_def)
  have rp: "ReadPacket \<lparr>pending = packet example_login 1, closing = EOF\<rparr> =
      (Ok (example_login, 1), \<lparr>pending = [], closing = EOF\<rparr>)"
    using ReadPacket_packet [OF example_login_ok(2), of 1 "[]" EOF] by simp
  let ?d = "\<lparr>inbox = \<lparr>pending = [], closing = EOF\<rparr>, outbox = \<lparr>sent = packet ?g 0, budget = Some 0\<rparr>,
    world = ((), [Opened (Ok ''session-1'')])\<rparr>"
  obtain e out where w2: "write_packet OK_packet 2 ?d = (Err e, ?d\<lparr>outbox := out\<rparr>)"
    using length_OK_packet by (simp add: write_packet_def WritePacket_def Write_def)
  have op: "open_session (traced example_api) example_login ''mysql'' ((), []) =
      (Ok ''session-1'', ((), [Opened (Ok ''session-1'')]))"
    by (simp add: traced_def example_api_def)
  have "my_handleConnection (traced example_api) ?c = (Ok (), ?d\<lparr>outbox := out\<rparr>)"
    using w2 by (simp add: my_handleConnection_def w rp r op Let_def slice_def)
  then show ?thesis by simp
qed

end
