(* ===== verification/MyTunnel.thy ===== *)
theory MyTunnel
  imports Tunnel MyClient
begin

text \<open>
  A MySQL client at one end and the server's pools at the other: the proxy of
  \<^verbatim>\<open>pkg/mysqlproxy\<close> over the tunnel.
\<close>

lemma my_request: "my_request_json t sql = request_json \<lparr>Type = t, SQL = sql, Raw = []\<rparr>"
  by (simp add: my_request_json_def request_json_def omitempty_def)

lemma serve_ComQuery: "serve I sid \<lparr>Type = ComQuery, SQL = sql, Raw = raw\<rparr> h = run_statement I sid sql h"
proof -
  have "char_of_byte ComQuery = CHR 0x03" by (simp add: char_of_byte_def ComQuery_def char_of_def bit_iff_odd)
  then show ?thesis by (simp add: serve_def)
qed

text \<open>The packets for what the service answers.\<close>

definition service_answer :: "string \<Rightarrow> QueryResponse \<Rightarrow> byte list list" where
  "service_answer sql r =
     (if Error r \<noteq> [] then [BuildERRPacket 1064 ''42000'' (Error r)] else buildResultSet r sql)"

lemma query_answered:
  assumes "matcher_ok m" "linked c w" "serverURL c = base" "remote w = (h, k)" "8 \<le> length sid"
    and "length sql \<le> MaxPayloadLen" "run_statement I sid (to_valid sql) h = (Ok r, h')"
    and "in_int64 (RowsAffected r)" "length (Marshal (response_json r)) \<le> gcm_limit"
  shows "answer (client_api (direct I m base ids) c) sid (Query sql) w =
    (service_answer sql (valid_response r),
     w\<lparr>random := spend (random w), remote := (h'\<lparr>entropy := spend (entropy h)\<rparr>, Suc k)\<rparr>)"
proof -
  let ?req = "\<lparr>Type = ComQuery, SQL = sql, Raw = []\<rparr>"
  have "length (Marshal (request_json ?req)) \<le> gcm_limit"
    using length_request [OF assms(6)] by (simp add: my_request)
  from query_delivered [OF assms(1-5) this, of I r h' ids] assms(7-9)
  obtain bs where "QueryRequest_send (direct I m base ids) c sid (Marshal (request_json ?req)) w =
      (Ok bs, w\<lparr>random := spend (random w), remote := (h'\<lparr>entropy := spend (entropy h)\<rparr>, Suc k)\<rparr>)"
    "Unmarshal_response bs = Ok (valid_response r)"
    by (auto simp: serve_ComQuery valid_response_def)
  then show ?thesis
    by (simp add: client_api_def my_request query_answer_def service_answer_def)
qed

section \<open>Any commands\<close>

text \<open>
  What the plain service answers to a command, and to a list of them; \<open>None\<close> when a statement
  panics or its response is beyond what the API carries. Only queries reach the server.
\<close>

fun served_command ::
  "('p, 'm) pools \<Rightarrow> string \<Rightarrow> command \<Rightarrow> ('p, 'm) Handler \<Rightarrow> (byte list list \<times> ('p, 'm) Handler) option" where
  "served_command I sid (Query sql) h =
     (case run_statement I sid (to_valid sql) h of
        (Ok r, h') \<Rightarrow>
          if fits r then Some (service_answer sql (valid_response r), h'\<lparr>entropy := spend (entropy h)\<rparr>) else None
      | _ \<Rightarrow> None)"
| "served_command I sid Ping h = Some ([OK_packet], h)"
| "served_command I sid (InitDB db) h = Some ([OK_packet], h)"
| "served_command I sid (Statement c data) h =
     Some ([BuildERRPacket 1295 ''HY000'' ''This command is not supported in the prepared statement protocol''], h)"
| "served_command I sid (Other c data) h = Some ([BuildERRPacket 1047 ''08S01'' (''Unknown command: 0x'' @ fmt_02x c)], h)"

fun served_commands ::
  "('p, 'm) pools \<Rightarrow> string \<Rightarrow> command list \<Rightarrow> ('p, 'm) Handler \<Rightarrow> (byte list list list \<times> ('p, 'm) Handler) option" where
  "served_commands I sid [] h = Some ([], h)"
| "served_commands I sid (cmd # cmds) h =
     (case served_command I sid cmd h of
        None \<Rightarrow> None
      | Some (ps, h1) \<Rightarrow> map_option (\<lambda>(pss, h2). (ps # pss, h2)) (served_commands I sid cmds h1))"

lemma command_answered:
  assumes "matcher_ok m" "linked_for (Suc n) c w" "serverURL c = base" "remote w = (h, k)" "8 \<le> length sid"
    and "length (command_payload cmd) \<le> MaxPayloadLen" "served_command I sid cmd h = Some (ps, h')"
  obtains w' k' where "answer (client_api (direct I m base ids) c) sid cmd w = (ps, w')"
    and "remote w' = (h', k')" "linked_for n c w'"
proof (cases cmd)
  case (Query sql)
  with assms(7) obtain r g where r: "run_statement I sid (to_valid sql) h = (Ok r, g)" "fits r"
    "ps = service_answer sql (valid_response r)" "h' = g\<lparr>entropy := spend (entropy h)\<rparr>"
    by (auto split: prod.splits result.splits if_splits)
  let ?w = "w\<lparr>random := spend (random w), remote := (h', Suc k)\<rparr>"
  have g: "encKey g = encKey h" "entropy g = entropy h"
    using serve_keeps [of I sid "\<lparr>Type = ComQuery, SQL = to_valid sql, Raw = []\<rparr>" h] r(1) by (simp_all add: serve_ComQuery)
  have "length sql \<le> MaxPayloadLen" using assms(6) Query by simp
  with query_answered [OF assms(1) linked_for_linked [OF assms(2)] assms(3-5) _ r(1), of ids] r(2-4) Query
  have "answer (client_api (direct I m base ids) c) sid cmd w = (ps, ?w)" by (simp add: fits_def)
  moreover have "linked_for n c ?w" unfolding r(4) by (rule linked_for_next(1) [OF assms(2,4) g])
  ultimately show ?thesis using that [of ?w "Suc k"] by simp
qed (use that [of w k] assms linked_for_less [OF assms(2)] in auto)

lemma conversation_served:
  assumes "matcher_ok m" "serverURL c = base" "8 \<le> length sid"
    and "list_all (\<lambda>cmd. length (command_payload cmd) \<le> MaxPayloadLen) cmds"
    and "linked_for (length cmds) c w" "remote w = (h, k)" "served_commands I sid cmds h = Some (pss, h2)"
  shows "\<exists>w2. conversation (client_api (direct I m base ids) c) sid cmds w = (concat (map (frames 1) pss), w2) \<and> fst (remote w2) = h2"
  using assms(4-)
proof (induction cmds arbitrary: w h k pss)
  case (Cons cmd cmds)
  from Cons.prems(4) obtain ps h1 pss' where s: "served_command I sid cmd h = Some (ps, h1)"
    "served_commands I sid cmds h1 = Some (pss', h2)" "pss = ps # pss'"
    by (auto split: option.splits)
  have lf: "linked_for (Suc (length cmds)) c w" and len: "length (command_payload cmd) \<le> MaxPayloadLen"
    using Cons.prems(1,2) by simp_all
  obtain w1 k1 where a: "answer (client_api (direct I m base ids) c) sid cmd w = (ps, w1)"
    "remote w1 = (h1, k1)" "linked_for (length cmds) c w1"
    by (rule command_answered [where ids = ids, OF assms(1) lf assms(2) Cons.prems(3) assms(3) len s(1)])
  from Cons.IH [OF _ a(3,2) s(2)] Cons.prems(1) obtain w2 where
    "conversation (client_api (direct I m base ids) c) sid cmds w1 = (concat (map (frames 1) pss'), w2)" "fst (remote w2) = h2"
    by auto
  with a(1) s(3) show ?case by simp
qed simp

text \<open>
  C1: A MySQL client that logs in through proxy, tunnel and server, sends any commands and then quits
  or goes gets the greeting, the OK and, command by command, the packets for what the plain service
  answers on the pool of its own new session: the rows or the error of every statement. The
  session is then closed at the server.
\<close>

theorem mysql_session_end_to_end:
  assumes "matcher_ok m" "linked_for (Suc (length cmds)) c w" "serverURL c = base" "remote w = (h, k)"
    and "8 \<le> length (ids k)" "CHR ''/'' \<notin> set (ids k)"
    and "ParseHandshakeResponse login = Ok resp" "length login \<le> MaxPayloadLen"
    and "list_all wf_command cmds" "list_all (\<lambda>cmd. length (command_payload cmd) \<le> MaxPayloadLen) cmds"
    and "hangup = [] \<or> hangup = packet [ComQuit] 0"
    and "poolForProtocol ''mysql'' h = Some ref" "pool_acquire I ref (ids k) h = (Ok (), h1)"
    and "served_commands I (ids k) cmds (h1\<lparr>sessionPools := (sessionPools h1)(ids k \<mapsto> ref)\<rparr>) = Some (pss, h2)"
  shows "\<exists>w'. my_handleConnection (client_api (direct I m base ids) c)
      \<lparr>inbox = \<lparr>pending = packet login 1 @ concat (map (\<lambda>cmd. packet (command_payload cmd) 0) cmds) @ hangup, closing = e\<rparr>,
       outbox = \<lparr>sent = [], budget = None\<rparr>, world = w\<rparr> =
    (Ok (), \<lparr>inbox = \<lparr>pending = [], closing = e\<rparr>,
       outbox = \<lparr>sent = packet (encode_handshake BuildHandshakeV10) 0 @ packet OK_packet 2 @ concat (map (frames 1) pss),
         budget = None\<rparr>, world = w'\<rparr>)
    \<and> fst (remote w') = snd (CloseSession I (ids k) h2)"
proof -
  let ?A = "client_api (direct I m base ids) c"
  let ?h1 = "h1\<lparr>sessionPools := (sessionPools h1)(ids k \<mapsto> ref)\<rparr>"
  let ?w1 = "w\<lparr>random := spend (random w), remote := (?h1, Suc k)\<rparr>"
  have limit: "length login \<le> gcm_limit" using assms(8) by (simp add: MaxPayloadLen_def gcm_limit_def)
  have k: "encKey h1 = encKey h" "entropy h1 = entropy h" using pool_acquire_keeps [OF assms(13)] by simp_all
  have "SessionRequest (direct I m base ids) c login ''mysql'' w = (Ok (ids k), ?w1)"
    by (rule session_opened [where ids = ids, OF assms(1) linked_for_linked [OF assms(2)] assms(3,4) limit _ assms(12,5,13)]) simp
  then have op: "open_session ?A login ''mysql'' w = (Ok (ids k), ?w1)" by (simp add: client_api_def)
  have "linked_for (length cmds) c ?w1" using assms(2,4) k by (auto simp: linked_for_def spend_def)
  from conversation_served [where ids = ids, OF assms(1,3,5,10) this _ assms(14)] obtain w2 where
    w2: "conversation ?A (ids k) cmds ?w1 = (concat (map (frames 1) pss), w2)" "fst (remote w2) = h2" by auto
  obtain k2 where r2: "remote w2 = (h2, k2)" using w2(2) by (cases "remote w2") simp
  have "fst (remote (snd (close_session ?A (ids k) w2))) = snd (CloseSession I (ids k) h2)"
    using session_closed [OF assms(1,3) r2 assms(5,6)] by (simp add: client_api_def)
  with my_conversation_lemma [OF direct_session_api assms(7,8) op assms(5,9-11) w2(1), of e] show ?thesis by simp
qed

text \<open>
  C7: When the server has no connection for a MySQL client that logs in, the client gets the
  greeting and then the error 1040 numbered after its login, whatever else it has sent, and the
  connection ends; no session is recorded at the server.
\<close>

theorem mysql_refused:
  assumes "matcher_ok m" "linked c w" "serverURL c = base" "remote w = (h, k)"
    and "ParseHandshakeResponse login = Ok resp" "length login \<le> MaxPayloadLen"
    and "refuses I (ids k) ''mysql'' h h'"
  shows "\<exists>w'. my_handleConnection (client_api (direct I m base ids) c)
      \<lparr>inbox = \<lparr>pending = packet login 1 @ rest, closing = e\<rparr>, outbox = \<lparr>sent = [], budget = None\<rparr>, world = w\<rparr> =
    (Ok (), \<lparr>inbox = \<lparr>pending = rest, closing = e\<rparr>,
       outbox = \<lparr>sent = packet (encode_handshake BuildHandshakeV10) 0 @
         packet (BuildERRPacket 1040 ''08004'' ''Too many connections'') 2, budget = None\<rparr>, world = w'\<rparr>)
    \<and> fst (remote w') = h' \<and> sessionPools h' = sessionPools h \<and> stmts h' = stmts h"
proof -
  let ?w = "w\<lparr>random := spend (random w), remote := (h', Suc k)\<rparr>"
  have "length login \<le> gcm_limit" using assms(6) by (simp add: MaxPayloadLen_def gcm_limit_def)
  then obtain err where "SessionRequest (direct I m base ids) c login ''mysql'' w = (Err err, ?w)"
    by (rule session_refused [where ids = ids, OF assms(1-4) _ _ assms(7)]) simp
  moreover have "length (BuildERRPacket 1040 ''08004'' ''Too many connections'') \<le> MaxPayloadLen"
    by (simp add: BuildERRPacket_def MaxPayloadLen_def)
  ultimately show ?thesis
    using refuses_keeps [OF assms(7)] length_greeting ReadPacket_packet [OF assms(6), of 1 rest e]
    by (simp add: my_handleConnection_def write_packet_deliver Let_def client_api_def assms(5) put_frames deliver_to_def)
qed

section \<open>Witnesses\<close>

definition example_mysql_handler :: "(unit, unit) Handler" where
  "example_mysql_handler = echo_handler\<lparr>mysqlPool := Some (), entropy := \<lparr>pending = replicate 100 1, closing = EOF\<rparr>\<rparr>"

definition example_mysql_net :: "((unit, unit) Handler \<times> nat) net" where
  "example_mysql_net = \<lparr>remote = (example_mysql_handler, 0), random = \<lparr>pending = replicate 100 1, closing = EOF\<rparr>\<rparr>"

theorem mysql_session_end_to_end_witness:
  "\<exists>c. my_handleConnection (client_api (direct echo_pools example_matcher ''http://s'' (\<lambda>_. ''session-1'')) example_client)
       \<lparr>inbox = \<lparr>pending = packet example_login 1 @ packet (ComQuery # bytes_of ''SELECT 1'') 0 @ packet [ComPing] 0 @ packet [ComQuit] 0,
          closing = EOF\<rparr>, outbox = \<lparr>sent = [], budget = None\<rparr>, world = example_mysql_net\<rparr> = (Ok (), c)
     \<and> sent (outbox c) = packet (encode_handshake BuildHandshakeV10) 0 @ packet OK_packet 2
         @ frames 1 (buildResultSet \<lparr>Columns = [''a''], Rows = [[''1'']], RowsAffected = 0, Error = []\<rparr> ''SELECT 1'')
         @ frames 1 [OK_packet]
     \<and> sessionPools (fst (remote (world c))) = Map.empty"
proof -
  let ?h = "example_mysql_handler"
  let ?h1 = "?h\<lparr>sessionPools := (sessionPools ?h)(''session-1'' \<mapsto> UseMy)\<rparr>"
  let ?r = "\<lparr>Columns = [''a''], Rows = [[''1'']], RowsAffected = 0, Error = []\<rparr>"
  let ?cmds = "[Query ''SELECT 1'', Ping]"
  have l: "linked_for (Suc (length ?cmds)) example_client example_mysql_net"
    by (simp add: linked_for_def example_client_def example_mysql_net_def example_mysql_handler_def echo_handler_def)
  have r: "remote example_mysql_net = (?h, 0)" "serverURL example_client = ''http://s''"
    "pool_acquire echo_pools UseMy ''session-1'' ?h = (Ok (), ?h)" "poolForProtocol ''mysql'' ?h = Some UseMy"
    by (simp_all add: example_mysql_net_def example_mysql_handler_def example_client_def pool_acquire_def echo_pools_def
        echo_pool_def poolForProtocol_def)
  have q: "run_statement echo_pools ''session-1'' (to_valid ''SELECT 1'') ?h1 = (Ok ?r, ?h1)"
    by (simp add: ascii_to_valid run_statement_def executeSQL_def sqlCommandType_first_word first_word_def
        is_space_def ends_word_def executeQuery_def pool_query_def getSessionPool_def echo_pools_def echo_pool_def
        echo_handler_def example_mysql_handler_def)
  have "fits ?r"
    by (simp add: fits_def in_int64_def Marshal_def response_json_def omitempty_def json_int_def json_strings_def
      render_string_def escape_string.simps(2) escape_char_def fmt_d_def show_nat.simps gcm_limit_def)
  moreover have "service_answer ''SELECT 1'' (valid_response ?r) = buildResultSet ?r ''SELECT 1''"
    by (simp add: service_answer_def valid_response_def ascii_to_valid)
  ultimately have s: "served_commands echo_pools ''session-1'' ?cmds ?h1 =
      Some ([buildResultSet ?r ''SELECT 1'', [OK_packet]], ?h1\<lparr>entropy := spend (entropy ?h1)\<rparr>)"
    using q by simp
  obtain resp where p: "ParseHandshakeResponse example_login = Ok resp" using example_login_ok(1) by blast
  from mysql_session_end_to_end [where ids = "\<lambda>_. ''session-1''" and e = EOF and hangup = "packet [ComQuit] 0",
      OF example_matcher_ok l r(2) r(1) _ _ p example_login_ok(2) _ _ _ r(4) r(3) s]
  show ?thesis
    by (auto simp: MaxPayloadLen_def CloseSession_def Let_def pool_release_def fun_eq_iff example_mysql_handler_def echo_handler_def)
qed

text \<open>A server without a MySQL pool.\<close>

theorem mysql_refused_witness:
  "\<exists>c. my_handleConnection (client_api (direct echo_pools example_matcher ''http://s'' (\<lambda>_. ''session-1'')) example_client)
       \<lparr>inbox = \<lparr>pending = packet example_login 1 @ packet [ComPing] 0, closing = EOF\<rparr>, outbox = \<lparr>sent = [], budget = None\<rparr>,
        world = example_net\<rparr> = (Ok (), c)
     \<and> sent (outbox c) = packet (encode_handshake BuildHandshakeV10) 0 @
         packet (BuildERRPacket 1040 ''08004'' ''Too many connections'') 2"
proof -
  have l: "linked example_client example_net"
    by (simp add: linked_def example_client_def example_net_def echo_handler_def example_entropy_def)
  have r: "remote example_net = (echo_handler, 0)" "serverURL example_client = ''http://s''"
    "refuses echo_pools ''session-1'' ''mysql'' echo_handler echo_handler"
    by (simp_all add: example_net_def example_client_def refuses_def poolForProtocol_def echo_handler_def)
  obtain resp where p: "ParseHandshakeResponse example_login = Ok resp" using example_login_ok(1) by blast
  from mysql_refused [where ids = "\<lambda>_. ''session-1''" and e = EOF and rest = "packet [ComPing] 0",
      OF example_matcher_ok l r(2) r(1) p example_login_ok(2) r(3)]
  show ?thesis by auto
qed

end
