(* ===== verification/PgProxy.thy ===== *)
theory PgProxy
  imports SessionApi PgParser SqlCommand
begin

text \<open>
  The model of \<^verbatim>\<open>pkg/pgproxy/proxy.go\<close>: \<open>handleConnection\<close> with its message loop, and what is sent
  for each kind of message. The library \<^verbatim>\<open>pgproto3\<close> is a parameter: how it reads the next frontend
  message off the connection, how it encodes one again, and how \<open>Flush\<close> writes the backend
  messages sent since the last one. The messages the proxy itself builds are the constructors of
  \<open>backend_message\<close>.
\<close>

record FieldDescription =
  fd_Name :: string
  fd_TableOID :: "32 word"
  fd_TableAttributeNumber :: "16 word"
  fd_DataTypeOID :: "32 word"
  fd_DataTypeSize :: "16 word"
  fd_TypeModifier :: "32 word"
  fd_Format :: "16 word"

datatype backend_message =
    AuthenticationOk
  | ParameterStatus string string
  | BackendKeyData "32 word" "byte list"
  | ReadyForQuery char
  | ParseComplete
  | BindComplete
  | NoData
  | RowDescription "FieldDescription list"
  | DataRow "string option list"
  | CommandComplete string
  | ErrorResponse string string string

record ('f, 'o) pgproto =
  Receive :: "reader \<Rightarrow> 'f result \<times> reader"
  EncodeFrontend :: "'f \<Rightarrow> byte list result"
  Flush :: "backend_message list \<Rightarrow> 'o \<Rightarrow> unit result \<times> 'o"

record ('o, 'w) pg_conn =
  pg_in :: reader
  pg_out :: 'o
  pg_world :: 'w

section \<open>The answers\<close>

definition startup_messages :: "backend_message list" where
  "startup_messages =
     [AuthenticationOk,
      ParameterStatus ''server_version'' ''14.0'',
      ParameterStatus ''server_encoding'' ''UTF8'',
      ParameterStatus ''client_encoding'' ''UTF8'',
      ParameterStatus ''DateStyle'' ''ISO, MDY'',
      ParameterStatus ''standard_conforming_strings'' ''on'',
      BackendKeyData 1234 [1, 2, 3, 4],
      ReadyForQuery CHR ''I'']"

definition field_of :: "string \<Rightarrow> FieldDescription" where
  "field_of col =
     \<lparr>fd_Name = col, fd_TableOID = 0, fd_TableAttributeNumber = 0, fd_DataTypeOID = 0,
      fd_DataTypeSize = - 1, fd_TypeModifier = - 1, fd_Format = 0\<rparr>"

definition row_description :: "string list \<Rightarrow> backend_message" where
  "row_description cols = RowDescription (map field_of cols)"

definition data_row :: "string list \<Rightarrow> backend_message" where
  "data_row row = DataRow (map (\<lambda>val. if val = ''NULL'' then None else Some val) row)"

text \<open>\<open>Execute\<close> and the default case; \<open>sql\<close> is what the proxy itself found in the message.\<close>

definition result_messages :: "string \<Rightarrow> QueryResponse \<Rightarrow> backend_message list result" where
  "result_messages sql r =
     rbind (pg_commandTag sql (length (Rows r)) (RowsAffected r)) (\<lambda>tag.
       Ok ((if Columns r \<noteq> [] then [row_description (Columns r)] else [])
           @ map data_row (Rows r) @ [CommandComplete tag]))"

definition response_messages :: "byte \<Rightarrow> string \<Rightarrow> QueryResponse \<Rightarrow> backend_message list result" where
  "response_messages msgType sql r =
     (if msgType = byte_of CHR ''P'' then Ok [ParseComplete]
      else if msgType = byte_of CHR ''B'' then Ok [BindComplete]
      else if msgType = byte_of CHR ''D'' then
        Ok (if Columns r \<noteq> [] then [row_description (Columns r)] else [NoData])
      else if msgType = byte_of CHR ''S'' then Ok []
      else result_messages sql r)"

definition pg_flush :: "('f, 'o) pgproto \<Rightarrow> backend_message list \<Rightarrow> ('o, 'w) pg_conn \<Rightarrow> unit result \<times> ('o, 'w) pg_conn" where
  "pg_flush P ms c = (case Flush P ms (pg_out c) of (r, out) \<Rightarrow> (r, c\<lparr>pg_out := out\<rparr>))"

text \<open>\<open>sendError\<close>, which ignores the error of its \<open>Flush\<close>.\<close>

definition sendError :: "('f, 'o) pgproto \<Rightarrow> string \<Rightarrow> ('o, 'w) pg_conn \<Rightarrow> ('o, 'w) pg_conn" where
  "sendError P errMsg c = snd (pg_flush P [ErrorResponse ''ERROR'' errMsg ''08000'', ReadyForQuery CHR ''I''] c)"

section \<open>The message loop\<close>

definition pg_answer ::
  "('f, 'o) pgproto \<Rightarrow> byte \<Rightarrow> string \<Rightarrow> byte list \<Rightarrow> ('o, 'w) pg_conn \<Rightarrow> control result \<times> ('o, 'w) pg_conn" where
  "pg_answer P msgType sql respBytes c =
     (case Unmarshal_response respBytes of
        Err e \<Rightarrow> (Ok Leave, c)
      | Panic p \<Rightarrow> (Panic p, c)
      | Ok queryResult \<Rightarrow>
          if Error queryResult \<noteq> [] then (Ok Next, sendError P (Error queryResult) c)
          else
            (case response_messages msgType sql queryResult of
               Err e \<Rightarrow> (Err e, c)
             | Panic p \<Rightarrow> (Panic p, c)
             | Ok ms \<Rightarrow>
                 (case pg_flush P (ms @ [ReadyForQuery CHR ''I'']) c of
                    (Ok _, c) \<Rightarrow> (Ok Next, c)
                  | (Err e, c) \<Rightarrow> (Ok Leave, c)
                  | (Panic p, c) \<Rightarrow> (Panic p, c))))"

definition pg_message ::
  "('f, 'o) pgproto \<Rightarrow> 'w api \<Rightarrow> string \<Rightarrow> byte list \<Rightarrow> ('o, 'w) pg_conn \<Rightarrow> control result \<times> ('o, 'w) pg_conn" where
  "pg_message P A sid encoded c =
     (case encoded of
        [] \<Rightarrow> (Ok Next, c)
      | msgType # _ \<Rightarrow>
          (case slice encoded 5 (length encoded) of
             Err e \<Rightarrow> (Err e, c)
           | Panic p \<Rightarrow> (Panic p, c)
           | Ok payload \<Rightarrow>
               (let sql = ExtractSQL msgType payload in
                if IsTerminate msgType then (Ok Leave, c)
                else
                  (case send_query A sid (Marshal (request_json \<lparr>Type = msgType, SQL = sql, Raw = payload\<rparr>)) (pg_world c) of
                     (r, w) \<Rightarrow>
                       (let c = c\<lparr>pg_world := w\<rparr> in
                        case r of
                          Err e \<Rightarrow> (Ok Leave, sendError P (''Query failed: '' @ error_text e) c)
                        | Panic p \<Rightarrow> (Panic p, c)
                        | Ok respBytes \<Rightarrow> pg_answer P msgType sql respBytes c)))))"

text \<open>
  The loop ends when the client terminates or disconnects, so it is partial: \<open>None\<close> is a loop that
  never ends.
\<close>

partial_function (option) pg_loop ::
  "('f, 'o) pgproto \<Rightarrow> 'w api \<Rightarrow> string \<Rightarrow> ('o, 'w) pg_conn \<Rightarrow> (unit result \<times> ('o, 'w) pg_conn) option" where
  "pg_loop P A sid c =
     (case Receive P (pg_in c) of
        (received, r) \<Rightarrow>
          (case rbind received (EncodeFrontend P) of
             Err e \<Rightarrow> Some (Ok (), c\<lparr>pg_in := r\<rparr>)
           | Panic p \<Rightarrow> Some (Panic p, c\<lparr>pg_in := r\<rparr>)
           | Ok encoded \<Rightarrow>
               (case pg_message P A sid encoded (c\<lparr>pg_in := r\<rparr>) of
                  (turn, c') \<Rightarrow>
                    (case turn of
                       Ok Next \<Rightarrow> pg_loop P A sid c'
                     | Ok Leave \<Rightarrow> Some (Ok (), c')
                     | Err e \<Rightarrow> Some (Err e, c')
                     | Panic p \<Rightarrow> Some (Panic p, c')))))"

section \<open>The connection\<close>

text \<open>The startup parameters are parsed for the log only; an error there is ignored.\<close>

definition pg_handleConnection ::
  "('f, 'o) pgproto \<Rightarrow> 'w api \<Rightarrow> ('o, 'w) pg_conn \<Rightarrow> (unit result \<times> ('o, 'w) pg_conn) option" where
  "pg_handleConnection P A c =
     (case ReadStartupRaw (pg_in c) of
        (Err e, r) \<Rightarrow> Some (Ok (), c\<lparr>pg_in := r\<rparr>)
      | (Panic p, r) \<Rightarrow> Some (Panic p, c\<lparr>pg_in := r\<rparr>)
      | (Ok rawStartup, r) \<Rightarrow>
     (let c = c\<lparr>pg_in := r\<rparr> in
      if is_panic (ParseStartupMessage rawStartup) then Some (Panic PSlice, c)
      else
     (case open_session A rawStartup ''pg'' (pg_world c) of (opened, w) \<Rightarrow>
      let c = c\<lparr>pg_world := w\<rparr> in
      case opened of
        Err e \<Rightarrow> Some (Ok (), c)
      | Panic p \<Rightarrow> Some (Panic p, c)
      | Ok sessionID \<Rightarrow>
     (case slice sessionID 0 8 of
        Err e \<Rightarrow> Some (Err e, c)
      | Panic p \<Rightarrow> Some (Panic p, c)
      | Ok _ \<Rightarrow>
     (case pg_flush P startup_messages c of
        (Err e, c) \<Rightarrow> Some (Ok (), c)
      | (Panic p, c) \<Rightarrow> Some (Panic p, c)
      | (Ok _, c) \<Rightarrow>
     (case pg_loop P A sessionID c of
        None \<Rightarrow> None
      | Some (Err e, c) \<Rightarrow> Some (Err e, c)
      | Some (Panic p, c) \<Rightarrow> Some (Panic p, c)
      | Some (Ok _, c) \<Rightarrow> Some (Ok (), c\<lparr>pg_world := snd (close_session A sessionID (pg_world c))\<rparr>)))))))"

section \<open>Invariants of the loop\<close>

lemma pg_loop_induct [consumes 2, case_names read_on message]:
  assumes "pg_loop P A sid c = Some (res, c')" "Inv c"
    and "\<And>c r. Inv c \<Longrightarrow> Inv (c\<lparr>pg_in := r\<rparr>)"
    and "\<And>c encoded turn c'. Inv c \<Longrightarrow> pg_message P A sid encoded c = (turn, c') \<Longrightarrow> Inv c'"
  shows "Inv c'"
proof -
  define Q where "Q = (\<lambda>(((P', A'), s'), c) (y :: unit result \<times> ('a, 'b) pg_conn).
    P' = P \<longrightarrow> A' = A \<longrightarrow> s' = sid \<longrightarrow> Inv c \<longrightarrow> Inv (snd y))"
  have "Q (((P, A), sid), c) (res, c')"
  proof (rule pg_loop.raw_induct [where Pa = Q, OF _ assms(1)], goal_cases)
    case step: (1 loop P0 A0 s0 c y)
    show ?case
      unfolding Q_def prod.case
    proof (intro impI)
      assume a: "P0 = P" "A0 = A" "s0 = sid" "Inv c"
      obtain x r where r: "Receive P (pg_in c) = (x, r)" by fastforce
      have i: "Inv (c\<lparr>pg_in := r\<rparr>)" by (rule assms(3) [OF a(4)])
      show "Inv (snd y)"
      proof (cases "rbind x (EncodeFrontend P)")
        case (Ok encoded)
        obtain turn c1 where m: "pg_message P A sid encoded (c\<lparr>pg_in := r\<rparr>) = (turn, c1)" by fastforce
        from assms(4) [OF i this] have i1: "Inv c1" .
        show ?thesis
        proof (cases "turn = Ok Next")
          case True
          then have "loop P A sid c1 = Some y" using step(2) a r Ok m by simp
          from step(1) [OF this] i1 show ?thesis by (simp add: Q_def)
        next
          case False
          then have "y = (rbind turn (\<lambda>_. Ok ()), c1)"
            using step(2) a r Ok m by (auto split: result.splits control.splits)
          with i1 show ?thesis by simp
        qed
      qed (use step(2) a r i in auto)
    qed
  qed
  with assms(2) show ?thesis by (simp add: Q_def)
qed

lemma pg_flush_fields:
  "pg_flush P ms c = (r, c') \<Longrightarrow> pg_in c' = pg_in c \<and> pg_world c' = pg_world c"
  by (auto simp: pg_flush_def split: prod.splits)

lemma sendError_fields [simp]: "pg_in (sendError P e c) = pg_in c" "pg_world (sendError P e c) = pg_world c"
  by (simp_all add: sendError_def pg_flush_def split: prod.split)

lemma pg_answer_fields:
  "pg_answer P t sql bs c = (turn, c') \<Longrightarrow> pg_in c' = pg_in c \<and> pg_world c' = pg_world c"
  by (auto simp: pg_answer_def dest!: pg_flush_fields split: result.splits if_splits prod.splits)

text \<open>What a message does to the world: at most one query on the session.\<close>

lemma pg_message_world:
  assumes "pg_message P A sid encoded c = (turn, c')"
  shows "pg_in c' = pg_in c \<and> (pg_world c' = pg_world c \<or> (\<exists>msg. pg_world c' = snd (send_query A sid msg (pg_world c))))"
proof (cases encoded)
  case (Cons t rest)
  obtain r w where q: "send_query A sid (Marshal (request_json \<lparr>Type = t, SQL = ExtractSQL t (drop 4 rest), Raw = drop 4 rest\<rparr>))
      (pg_world c) = (r, w)" by (rule prod.exhaust)
  show ?thesis
  proof (cases "5 \<le> length encoded \<and> \<not> IsTerminate t")
    case False
    with assms Cons show ?thesis by (auto simp: pg_message_def slice_def Let_def split: if_splits)
  next
    case True
    have "pg_message P A sid encoded c =
      (case r of Err e \<Rightarrow> (Ok Leave, sendError P (''Query failed: '' @ error_text e) (c\<lparr>pg_world := w\<rparr>))
       | Panic p \<Rightarrow> (Panic p, c\<lparr>pg_world := w\<rparr>)
       | Ok bs \<Rightarrow> pg_answer P t (ExtractSQL t (drop 4 rest)) bs (c\<lparr>pg_world := w\<rparr>))"
      using True Cons q by (simp add: pg_message_def slice_def Let_def)
    with assms have "pg_in c' = pg_in c \<and> pg_world c' = w"
      by (auto dest: pg_answer_fields split: result.splits)
    with q show ?thesis by (metis snd_conv)
  qed
qed (use assms in \<open>simp add: pg_message_def\<close>)

section \<open>Sessions are closed\<close>

lemma pg_loop_traced:
  assumes "pg_loop P (traced A) sid c = Some (res, c')"
  shows "only_queries sid (snd (pg_world c)) (snd (pg_world c'))"
  using assms only_queries_refl
proof (induction rule: pg_loop_induct)
  case (message c1 encoded turn c2)
  have "snd (snd (send_query (traced A) sid msg (pg_world c1))) = snd (pg_world c1) @ [Queried sid]" for msg
    by (simp add: traced_def split: prod.split)
  with pg_message_world [OF message(2)]
  have "snd (pg_world c2) = snd (pg_world c1) \<or> snd (pg_world c2) = snd (pg_world c1) @ [Queried sid]" by auto
  then have "only_queries sid (snd (pg_world c1)) (snd (pg_world c2))" by auto
  with message(1) show ?case by (rule only_queries_trans)
qed simp

text \<open>How a connection can end without a panic.\<close>

lemma pg_handleConnection_cases:
  assumes "pg_handleConnection P A c = Some (Ok u, c')"
  obtains (no_session) "pg_world c' = pg_world c"
  | (refused) params e where "open_session A params ''pg'' (pg_world c) = (Err e, pg_world c')"
  | (lost) params sid e where "open_session A params ''pg'' (pg_world c) = (Ok sid, pg_world c')"
      "fst (Flush P startup_messages (pg_out c)) = Err e"
  | (served) params sid c1 c2 where "open_session A params ''pg'' (pg_world c) = (Ok sid, pg_world c1)"
      "pg_loop P A sid c1 = Some (Ok (), c2)" "pg_world c' = snd (close_session A sid (pg_world c2))"
proof -
  obtain x r where rd: "ReadStartupRaw (pg_in c) = (x, r)" by fastforce
  show thesis
  proof (cases x)
    case (Ok raw)
    obtain opened w where op: "open_session A raw ''pg'' (pg_world c) = (opened, w)" by fastforce
    let ?c1 = "c\<lparr>pg_in := r, pg_world := w\<rparr>"
    obtain fl c2 where fl: "pg_flush P startup_messages ?c1 = (fl, c2)" by fastforce
    note c2 = pg_flush_fields [OF fl]
    have pn: "\<not> is_panic (ParseStartupMessage raw)"
      using assms rd Ok by (auto simp: pg_handleConnection_def Let_def)
    consider (e) e where "opened = Err e" | (l) sid e where "opened = Ok sid" "fl = Err e"
      | (s) sid where "opened = Ok sid" "fl = Ok ()" | (p) "is_panic opened \<or> (\<exists>sid. opened = Ok sid) \<and> is_panic fl"
      by (cases opened; cases fl) auto
    then show thesis
    proof cases
      case e
      with assms rd Ok op pn have "pg_world c' = w" by (auto simp: pg_handleConnection_def Let_def)
      with op e show thesis using refused by simp
    next
      case l
      with assms rd Ok op pn fl c2 have "pg_world c' = w"
        by (auto simp: pg_handleConnection_def Let_def split: result.splits)
      moreover have "fst (Flush P startup_messages (pg_out c)) = Err e"
        using fl l by (auto simp: pg_flush_def split: prod.splits)
      ultimately show thesis using op l lost by simp
    next
      case s
      with assms rd Ok op pn fl c2 show thesis
        by (auto simp: pg_handleConnection_def Let_def split: result.splits option.splits prod.splits intro!: served)
    next
      case p
      with assms rd Ok op pn fl show thesis
        by (auto simp: pg_handleConnection_def Let_def is_panic_def split: result.splits)
    qed
  qed (use assms rd no_session in \<open>auto simp: pg_handleConnection_def\<close>)
qed

text \<open>
  C11: A PostgreSQL connection that ends normally has used the session it opened, if it opened
  one, under its own id only and closed it exactly once at the end. The one exception is a
  client to which the answer to its startup could not be written: its session stays open.
\<close>

theorem pg_session_closed:
  assumes "pg_handleConnection P (traced A) \<lparr>pg_in = i, pg_out = out, pg_world = (w, [])\<rparr> = Some (Ok (), c)"
  shows "balanced (snd (pg_world c)) \<or>
    (\<exists>sid e. snd (pg_world c) = [Opened (Ok sid)] \<and> fst (Flush P startup_messages out) = Err e)"
  using assms
proof (cases rule: pg_handleConnection_cases)
  case (served params sid c1 c2)
  then have "snd (pg_world c1) = [Opened (Ok sid)]" by (cases "pg_world c1") (simp add: traced_open)
  with pg_loop_traced [OF served(2)] have "only_queries sid [Opened (Ok sid)] (snd (pg_world c2))" by simp
  then have "balanced (snd (pg_world c2) @ [Closed sid])" by (rule balanced_closed)
  moreover have "snd (pg_world c) = snd (pg_world c2) @ [Closed sid]"
    unfolding served(3) by (cases "pg_world c2") (simp add: traced_def split: prod.split)
  ultimately show ?thesis by simp
next
  case (refused payload e)
  then show ?thesis by (cases "pg_world c") (simp add: traced_open)
next
  case (lost payload sid e)
  then show ?thesis by (cases "pg_world c") (simp add: traced_open)
qed simp

section \<open>The library as an interface\<close>

text \<open>
  What the proxy relies on in \<^verbatim>\<open>pgproto3\<close>: reading a message takes bytes off the connection or
  fails, an encoded message has its five-byte header and a body below the library's limit of
  2^30 bytes, and nothing panics.
\<close>

locale pgproto_laws =
  fixes P :: "('f, 'o) pgproto"
  assumes receive_errors: "\<not> is_panic (fst (Receive P r))"
    and receive_consumes: "Receive P r = (Ok m, r') \<Longrightarrow> length (pending r') < length (pending r)"
    and encode_errors: "\<not> is_panic (EncodeFrontend P m)"
    and encode_header: "EncodeFrontend P m = Ok enc \<Longrightarrow> enc = [] \<or> 5 \<le> length enc \<and> length enc \<le> 2 ^ 30 + 5"
    and flush_errors: "\<not> is_panic (fst (Flush P ms out))"

lemma length_trimNull: "length (trimNull bs) \<le> length bs"
  by (induction bs) simp_all

lemma length_splitNull_loop: "p \<in> set (splitNull_loop cur bs) \<Longrightarrow> length p \<le> length cur + length bs"
  by (induction cur bs rule: splitNull_loop.induct) (auto split: if_splits)

lemma length_ExtractSQL: "length (ExtractSQL t payload) \<le> length payload"
proof -
  have "length (splitNull payload ! 1) \<le> length payload" if "2 \<le> length (splitNull payload)"
    using length_splitNull_loop [of "splitNull payload ! 1" "[]" payload] nth_mem [of 1 "splitNull payload"] that
    by (simp add: splitNull_def)
  then show ?thesis using length_trimNull [of payload] by (simp add: ExtractSQL_def Let_def)
qed

lemma length_request_json:
  assumes "length (SQL req) \<le> n" "length (Raw req) \<le> n"
  shows "length (Marshal (request_json req)) \<le> 14 * n + 100"
proof -
  have k: "render_string ''type'' = quote # ''type'' @ [quote]" "render_string ''sql'' = quote # ''sql'' @ [quote]"
    "render_string ''raw'' = quote # ''raw'' @ [quote]"
    by (simp_all add: render_string_def escape_string.simps(2) escape_char_def)
  have "length (fmt_d (uint (Type req))) \<le> 3"
    using length_show_nat [of "unat (Type req)" 2] unat_byte_less [of "Type req"] by (simp add: fmt_d_def)
  moreover have "length (render_string (SQL req)) \<le> 6 * n + 2" using length_render_string [of "SQL req"] assms(1) by simp
  moreover have "length (render_string (b64_encode (Raw req))) \<le> 8 * n + 18"
    using length_render_string [of "b64_encode (Raw req)"] assms(2) by (simp add: length_b64_encode)
  ultimately show ?thesis by (simp add: Marshal_def request_json_def omitempty_def json_int_def k)
qed

lemma response_messages_errors: "\<exists>ms. response_messages t sql r = Ok ms"
proof -
  obtain tag where "pg_commandTag sql (length (Rows r)) (RowsAffected r) = Ok tag" using pg_commandTag_total by blast
  then show ?thesis by (simp add: response_messages_def result_messages_def)
qed

context pgproto_laws
begin

lemma pg_flush_errors: "\<not> is_panic (fst (pg_flush P ms c))"
  using flush_errors [of ms "pg_out c"] by (simp add: pg_flush_def split_beta)

lemma pg_answer_errors: "fst (pg_answer P t sql bs c) = Ok Next \<or> fst (pg_answer P t sql bs c) = Ok Leave"
proof (cases "Unmarshal_response bs")
  case (Ok r)
  obtain ms where ms: "response_messages t sql r = Ok ms" using response_messages_errors by blast
  obtain fl c' where fl: "pg_flush P (ms @ [ReadyForQuery CHR ''I'']) c = (fl, c')" by fastforce
  then have "\<not> is_panic fl" using pg_flush_errors by (metis fst_conv)
  with Ok ms fl show ?thesis by (cases fl) (simp_all add: pg_answer_def)
qed (simp_all add: pg_answer_def Unmarshal_response_def)

lemma pg_message_errors:
  assumes "session_api A" "encoded = [] \<or> 5 \<le> length encoded \<and> length encoded \<le> 2 ^ 30 + 5"
  shows "fst (pg_message P A sid encoded c) = Ok Next \<or> fst (pg_message P A sid encoded c) = Ok Leave"
proof (cases encoded)
  case (Cons t rest)
  let ?req = "\<lparr>Type = t, SQL = ExtractSQL t (drop 4 rest), Raw = drop 4 rest\<rparr>"
  have "length (drop 4 rest) \<le> 2 ^ 30" using assms(2) Cons by (simp add: le_diff_conv)
  then have "length (Marshal (request_json ?req)) \<le> 14 * 2 ^ 30 + 100"
    using length_ExtractSQL [of t "drop 4 rest"] by (intro length_request_json) simp_all
  then have "length (Marshal (request_json ?req)) \<le> gcm_limit" by (simp add: gcm_limit_def)
  from session_api.query_errors [OF assms(1) this, of sid "pg_world c"]
  obtain r w where r: "send_query A sid (Marshal (request_json ?req)) (pg_world c) = (r, w)" "\<not> is_panic r"
    by (cases "send_query A sid (Marshal (request_json ?req)) (pg_world c)") simp
  show ?thesis
  proof (cases r)
    case (Ok bs)
    with r Cons assms(2) pg_answer_errors [of t "ExtractSQL t (drop 4 rest)" bs "c\<lparr>pg_world := w\<rparr>"] show ?thesis
      by (simp add: pg_message_def slice_def Let_def)
  qed (use r Cons assms(2) in \<open>simp_all add: pg_message_def slice_def Let_def\<close>)
qed (simp add: pg_message_def)

lemma pg_loop_total:
  assumes "session_api A"
  shows "\<exists>c'. pg_loop P A sid c = Some (Ok (), c')"
proof (induction c rule: measure_induct_rule [where f = "\<lambda>c. length (pending (pg_in c))"])
  case (less c)
  obtain x r where rc: "Receive P (pg_in c) = (x, r)" by fastforce
  have x: "\<not> is_panic x" using receive_errors [of "pg_in c"] rc by simp
  show ?case
  proof (cases "rbind x (EncodeFrontend P)")
    case (Ok encoded)
    then obtain m where m: "x = Ok m" "EncodeFrontend P m = Ok encoded" by (auto simp: rbind_eq_Ok_iff)
    obtain turn c1 where t: "pg_message P A sid encoded (c\<lparr>pg_in := r\<rparr>) = (turn, c1)" by fastforce
    have turn: "turn = Ok Next \<or> turn = Ok Leave"
      using pg_message_errors [OF assms encode_header [OF m(2)], of sid "c\<lparr>pg_in := r\<rparr>"] t by simp
    have "pg_in c1 = r" using pg_message_world [OF t] by simp
    then have "\<exists>c'. pg_loop P A sid c1 = Some (Ok (), c')"
      using receive_consumes [of "pg_in c"] rc m(1) by (intro less.IH) simp
    with turn rc Ok t show ?thesis by (subst pg_loop.simps) auto
  next
    case (Err e)
    with rc show ?thesis by (subst pg_loop.simps) simp
  next
    case (Panic p)
    with x encode_errors show ?thesis by (auto simp: rbind_eq_Panic_iff is_panic_def)
  qed
qed

end

lemma ReadStartupRaw_length: "ReadStartupRaw r = (Ok raw, r') \<Longrightarrow> length raw \<le> gcm_limit"
  by (simp add: ReadStartupRaw_Ok gcm_limit_def)

lemma ReadStartupRaw_errors: "\<not> is_panic (fst (ReadStartupRaw r))"
  by (simp add: ReadStartupRaw_def ReadFull_def Let_def)

lemma ParseStartupMessage_no_panic: "\<not> is_panic (ParseStartupMessage raw)"
  by (simp add: ParseStartupMessage_def slice_def)

text \<open>
  C12: A PostgreSQL connection always comes to its end once the client's bytes do: over a library
  and an API that report failures as errors, the handler returns, and panics only when the server
  makes an id of fewer than eight bytes.
\<close>

theorem pg_connection_returns:
  assumes "pgproto_laws P" "session_api A"
  shows "\<exists>res c'. pg_handleConnection P A c = Some (res, c') \<and>
    (res = Ok () \<or> res = Panic PSlice \<and>
       (\<exists>raw r sid w. ReadStartupRaw (pg_in c) = (Ok raw, r) \<and>
          open_session A raw ''pg'' (pg_world c) = (Ok sid, w) \<and> length sid < 8))"
proof -
  obtain x r where rd: "ReadStartupRaw (pg_in c) = (x, r)" by fastforce
  then have x: "\<not> is_panic x" using ReadStartupRaw_errors [of "pg_in c"] by simp
  show ?thesis
  proof (cases x)
    case (Ok raw)
    have "length raw \<le> gcm_limit" using ReadStartupRaw_length rd Ok by simp
    from session_api.open_errors [OF assms(2) this, of "''pg''" "pg_world c"]
    obtain opened w where op: "open_session A raw ''pg'' (pg_world c) = (opened, w)" "\<not> is_panic opened"
      by (cases "open_session A raw ''pg'' (pg_world c)") simp
    show ?thesis
    proof (cases "\<exists>sid. opened = Ok sid \<and> 8 \<le> length sid")
      case False
      with rd Ok op ParseStartupMessage_no_panic [of raw] show ?thesis
        by (cases opened) (auto simp: pg_handleConnection_def Let_def slice_def)
    next
      case True
      then obtain sid where sid: "opened = Ok sid" "8 \<le> length sid" by blast
      obtain fl c1 where fl: "pg_flush P startup_messages (c\<lparr>pg_in := r, pg_world := w\<rparr>) = (fl, c1)" by fastforce
      then have nf: "\<not> is_panic fl" using pgproto_laws.pg_flush_errors [OF assms(1)] by (metis fst_conv)
      obtain c2 where "pg_loop P A sid c1 = Some (Ok (), c2)" using pgproto_laws.pg_loop_total [OF assms] by blast
      with rd Ok op sid fl nf ParseStartupMessage_no_panic [of raw] show ?thesis
        by (cases fl) (simp_all add: pg_handleConnection_def Let_def slice_def)
    qed
  qed (use rd x in \<open>auto simp: pg_handleConnection_def\<close>)
qed

section \<open>What is sent is well formed\<close>

text \<open>
  The shape of an answer: one acknowledgement, or a result (a description, rows, a completion, the
  first two optional), or nothing, and then exactly one \<open>ReadyForQuery\<close>.
\<close>

fun is_row :: "backend_message \<Rightarrow> bool" where
  "is_row (DataRow vs) = True" | "is_row _ = False"

fun is_description :: "backend_message \<Rightarrow> bool" where
  "is_description (RowDescription fs) = True" | "is_description _ = False"

fun is_complete :: "backend_message \<Rightarrow> bool" where
  "is_complete (CommandComplete tag) = True" | "is_complete _ = False"

fun is_acknowledgement :: "backend_message \<Rightarrow> bool" where
  "is_acknowledgement ParseComplete = True"
| "is_acknowledgement BindComplete = True"
| "is_acknowledgement NoData = True"
| "is_acknowledgement (RowDescription fs) = True"
| "is_acknowledgement (ErrorResponse sev msg code) = (sev = ''ERROR'' \<and> code = ''08000'')"
| "is_acknowledgement _ = False"

definition is_result :: "backend_message list \<Rightarrow> bool" where
  "is_result ms =
     (case dropWhile is_row (case ms of m # r \<Rightarrow> if is_description m then r else ms | [] \<Rightarrow> []) of
        [m] \<Rightarrow> is_complete m
      | _ \<Rightarrow> False)"

definition well_formed :: "backend_message list \<Rightarrow> bool" where
  "well_formed ms \<longleftrightarrow>
     ms \<noteq> [] \<and> last ms = ReadyForQuery CHR ''I'' \<and>
     (butlast ms = [] \<or> length ms = 2 \<and> is_acknowledgement (hd ms) \<or> is_result (butlast ms))"

lemma is_result_built: "is_result (map data_row rows @ [CommandComplete tag])"
proof -
  have "dropWhile is_row (map data_row rows @ [CommandComplete tag]) = [CommandComplete tag]"
    by (induction rows) (simp_all add: data_row_def)
  then show ?thesis by (cases rows) (simp_all add: is_result_def data_row_def)
qed

lemma is_result_described: "is_result (row_description cols # map data_row rows @ [CommandComplete tag])"
proof -
  have "dropWhile is_row (map data_row rows @ [CommandComplete tag]) = [CommandComplete tag]"
    by (induction rows) (simp_all add: data_row_def)
  then show ?thesis by (simp add: is_result_def row_description_def)
qed

lemma response_well_formed:
  "response_messages t sql r = Ok ms \<Longrightarrow> well_formed (ms @ [ReadyForQuery CHR ''I''])"
  using is_result_built is_result_described
  by (auto simp: response_messages_def result_messages_def rbind_eq_Ok_iff well_formed_def row_description_def
      split: if_splits)

text \<open>A library that remembers what it was given to write.\<close>

definition recorded :: "('f, 'o) pgproto \<Rightarrow> ('f, 'o \<times> backend_message list list) pgproto" where
  "recorded P =
     \<lparr>Receive = Receive P, EncodeFrontend = EncodeFrontend P,
      Flush = (\<lambda>ms (out, bs). case Flush P ms out of (r, out') \<Rightarrow> (r, (out', bs @ [ms])))\<rparr>"

lemma pg_flush_recorded:
  "pg_flush (recorded P) ms c = (r, c') \<Longrightarrow> snd (pg_out c') = snd (pg_out c) @ [ms]"
  by (cases "pg_out c") (auto simp: pg_flush_def recorded_def split: prod.splits)

lemma sendError_recorded:
  "\<exists>b. snd (pg_out (sendError (recorded P) e c)) = snd (pg_out c) @ [b] \<and> well_formed b"
proof -
  let ?b = "[ErrorResponse ''ERROR'' e ''08000'', ReadyForQuery CHR ''I'']"
  obtain r c' where f: "pg_flush (recorded P) ?b c = (r, c')" by fastforce
  from pg_flush_recorded [OF f] have "snd (pg_out (sendError (recorded P) e c)) = snd (pg_out c) @ [?b]"
    by (simp add: sendError_def f)
  moreover have "well_formed ?b" by (simp add: well_formed_def)
  ultimately show ?thesis by blast
qed

definition adds_well_formed :: "backend_message list list \<Rightarrow> backend_message list list \<Rightarrow> bool" where
  "adds_well_formed bs bs' \<longleftrightarrow> (\<exists>add. bs' = bs @ add \<and> list_all well_formed add)"

lemma adds_refl [simp]: "adds_well_formed bs bs"
  by (simp add: adds_well_formed_def)

lemma adds_trans: "adds_well_formed a b \<Longrightarrow> adds_well_formed b c \<Longrightarrow> adds_well_formed a c"
  by (auto simp: adds_well_formed_def)

lemma pg_answer_recorded:
  assumes "pg_answer (recorded P) t sql bs c = (turn, c')"
  shows "adds_well_formed (snd (pg_out c)) (snd (pg_out c'))"
proof (cases "Unmarshal_response bs")
  case (Ok r)
  obtain ms where ms: "response_messages t sql r = Ok ms" using response_messages_errors by blast
  obtain fl c1 where fl: "pg_flush (recorded P) (ms @ [ReadyForQuery CHR ''I'']) c = (fl, c1)" by fastforce
  from pg_flush_recorded [OF fl] response_well_formed [OF ms]
  have "adds_well_formed (snd (pg_out c)) (snd (pg_out c1))" by (simp add: adds_well_formed_def)
  moreover obtain b where "snd (pg_out (sendError (recorded P) (Error r) c)) = snd (pg_out c) @ [b] \<and> well_formed b"
    using sendError_recorded by blast
  then have "adds_well_formed (snd (pg_out c)) (snd (pg_out (sendError (recorded P) (Error r) c)))"
    by (simp add: adds_well_formed_def)
  ultimately show ?thesis using assms Ok ms fl by (auto simp: pg_answer_def split: result.splits if_splits)
qed (use assms in \<open>auto simp: pg_answer_def\<close>)

lemma pg_message_recorded:
  assumes "pg_message (recorded P) A sid encoded c = (turn, c')"
  shows "adds_well_formed (snd (pg_out c)) (snd (pg_out c'))"
proof (cases encoded)
  case (Cons t rest)
  show ?thesis
  proof (cases "5 \<le> length encoded \<and> \<not> IsTerminate t")
    case False
    with assms Cons show ?thesis by (auto simp: pg_message_def slice_def Let_def split: if_splits)
  next
    case True
    obtain r w where q: "send_query A sid (Marshal (request_json \<lparr>Type = t, SQL = ExtractSQL t (drop 4 rest), Raw = drop 4 rest\<rparr>))
        (pg_world c) = (r, w)" by (rule prod.exhaust)
    let ?c = "c\<lparr>pg_world := w\<rparr>"
    have "adds_well_formed (snd (pg_out ?c)) (snd (pg_out (sendError (recorded P) e ?c)))" for e
      using sendError_recorded [of P e ?c] by (auto simp: adds_well_formed_def)
    with True Cons q assms show ?thesis
      by (cases r) (auto simp: pg_message_def slice_def Let_def dest: pg_answer_recorded)
  qed
qed (use assms in \<open>simp add: pg_message_def\<close>)

lemma pg_loop_recorded:
  assumes "pg_loop (recorded P) A sid c = Some (res, c')"
  shows "adds_well_formed (snd (pg_out c)) (snd (pg_out c'))"
  using assms adds_refl
proof (induction rule: pg_loop_induct)
  case (message c1 encoded turn c2)
  from message(1) pg_message_recorded [OF message(2)] show ?case by (rule adds_trans)
qed simp

text \<open>
  C28: Everything the proxy ever writes to a PostgreSQL client is the startup answer, once and
  first, followed by answers of the protocol's shape, each closed by one \<open>ReadyForQuery\<close>; a client
  whose startup or session fails is sent nothing at all.
\<close>

theorem pg_answers_well_formed:
  assumes "pg_handleConnection (recorded P) A \<lparr>pg_in = i, pg_out = (out, []), pg_world = w\<rparr> = Some (res, c)"
  shows "snd (pg_out c) = [] \<or>
    (\<exists>answers. snd (pg_out c) = startup_messages # answers \<and> list_all well_formed answers)"
proof -
  let ?c0 = "\<lparr>pg_in = i, pg_out = (out, []), pg_world = w\<rparr>"
  obtain x r where rd: "ReadStartupRaw i = (x, r)" by fastforce
  show ?thesis
  proof (cases "\<exists>raw sid w1. x = Ok raw \<and> \<not> is_panic (ParseStartupMessage raw) \<and>
      open_session A raw ''pg'' w = (Ok sid, w1) \<and> 8 \<le> length sid")
    case False
    with assms rd have "pg_out c = (out, [])"
      by (auto simp: pg_handleConnection_def Let_def slice_def split: result.splits prod.splits if_splits)
    then show ?thesis by simp
  next
    case True
    then obtain raw sid w1 where x: "x = Ok raw" "\<not> is_panic (ParseStartupMessage raw)"
      "open_session A raw ''pg'' w = (Ok sid, w1)" "8 \<le> length sid" by blast
    obtain fl c1 where fl: "pg_flush (recorded P) startup_messages (?c0\<lparr>pg_in := r, pg_world := w1\<rparr>) = (fl, c1)"
      by fastforce
    have c1: "snd (pg_out c1) = [startup_messages]" using pg_flush_recorded [OF fl] by simp
    have "pg_out c = pg_out c1 \<or> (\<exists>res c2. pg_loop (recorded P) A sid c1 = Some (res, c2) \<and> pg_out c = pg_out c2)"
      using assms rd x fl
      by (auto simp: pg_handleConnection_def Let_def slice_def split: result.splits option.splits prod.splits)
    then have "adds_well_formed [startup_messages] (snd (pg_out c))"
      using pg_loop_recorded [of P A sid c1] c1 by auto
    then show ?thesis by (auto simp: adds_well_formed_def)
  qed
qed

end
