(* ===== verification/PgTunnel.thy ===== *)
theory PgTunnel
  imports Tunnel PgProxy
begin

text \<open>
  A PostgreSQL client at one end and the server's pools at the other: the proxy of \<^verbatim>\<open>pkg/pgproxy\<close>
  over the tunnel, with \<^verbatim>\<open>pgproto3\<close> as a parameter; the reader and writer of messages given first,
  which take any body, stand in for it in the examples only.
\<close>

section \<open>A reader of frontend messages\<close>

text \<open>
  The frontend's messages on the wire: a type, a length that counts itself, a body. Bodies above
  the library's limit are refused.
\<close>

definition max_body :: nat where
  "max_body = 2 ^ 30"

definition receive_message :: "reader \<Rightarrow> Message result \<times> reader" where
  "receive_message r =
     (case ReadFull 5 r of
        (Ok header, r1) \<Rightarrow>
          (let n = be_nat (drop 1 header) in
           if n < 4 \<or> n - 4 > max_body then (Err (ErrorS ''invalid body length''), r1)
           else
             (case ReadFull (n - 4) r1 of
                (Ok body, r2) \<Rightarrow> (Ok \<lparr>msg_type = hd header, msg_payload = body\<rparr>, r2)
              | (Err e, r2) \<Rightarrow> (Err e, r2)
              | (Panic p, r2) \<Rightarrow> (Panic p, r2)))
      | (Err e, r1) \<Rightarrow> (Err e, r1)
      | (Panic p, r1) \<Rightarrow> (Panic p, r1))"

definition frontend_frame :: "byte \<Rightarrow> byte list \<Rightarrow> byte list" where
  "frontend_frame t body = t # be_bytes 4 (length body + 4) @ body"

definition encode_message :: "Message \<Rightarrow> byte list result" where
  "encode_message m =
     (if length (msg_payload m) > max_body then Err (ErrorS ''message body too large'')
      else Ok (frontend_frame (msg_type m) (msg_payload m)))"

definition wire_pgproto :: "(Message, backend_message list) pgproto" where
  "wire_pgproto =
     \<lparr>Receive = receive_message, EncodeFrontend = encode_message, Flush = (\<lambda>ms out. (Ok (), out @ ms))\<rparr>"

interpretation wire: pgproto_laws wire_pgproto
proof
  show "\<not> is_panic (fst (Receive wire_pgproto r))" for r
    by (simp add: wire_pgproto_def receive_message_def ReadFull_def Let_def)
  show "Receive wire_pgproto r = (Ok m, r') \<Longrightarrow> length (pending r') < length (pending r)" for r m r'
    by (auto simp: wire_pgproto_def receive_message_def ReadFull_Ok_iff Let_def split: prod.splits result.splits if_splits)
  show "\<not> is_panic (EncodeFrontend wire_pgproto m)" for m
    by (simp add: wire_pgproto_def encode_message_def)
  show "EncodeFrontend wire_pgproto m = Ok enc \<Longrightarrow> enc = [] \<or> 5 \<le> length enc \<and> length enc \<le> 2 ^ 30 + 5" for m enc
    by (auto simp: wire_pgproto_def encode_message_def frontend_frame_def max_body_def split: if_splits)
  show "\<not> is_panic (fst (Flush wire_pgproto ms out))" for ms out
    by (simp add: wire_pgproto_def)
qed

lemma receive_frame:
  assumes "length body \<le> max_body"
  shows "receive_message \<lparr>pending = frontend_frame t body @ rest, closing = e\<rparr> =
    (Ok \<lparr>msg_type = t, msg_payload = body\<rparr>, \<lparr>pending = rest, closing = e\<rparr>)"
proof -
  have n: "be_nat (be_bytes 4 (length body + 4)) = length body + 4"
    using assms by (simp add: be_nat_be_bytes max_body_def)
  have "ReadFull 5 \<lparr>pending = frontend_frame t body @ rest, closing = e\<rparr> =
      (Ok (t # be_bytes 4 (length body + 4)), \<lparr>pending = body @ rest, closing = e\<rparr>)"
    using ReadFull_append [of 5 "t # be_bytes 4 (length body + 4)" "body @ rest" e] by (simp add: frontend_frame_def)
  with assms show ?thesis by (simp add: receive_message_def Let_def n)
qed

section \<open>Messages and answers\<close>

text \<open>
  The messages a client sends one after the other: \<open>delivers\<close> says that the library reads them
  off a connection and encodes each as the frame it came in.
\<close>

fun delivers :: "('f, 'o) pgproto \<Rightarrow> reader \<Rightarrow> (byte \<times> byte list) list \<Rightarrow> reader \<Rightarrow> bool" where
  "delivers P r [] r' \<longleftrightarrow> r = r'"
| "delivers P r ((t, body) # ms) r' \<longleftrightarrow>
     (\<exists>m r1. Receive P r = (Ok m, r1) \<and> EncodeFrontend P m = Ok (frontend_frame t body) \<and> delivers P r1 ms r')"

lemma wire_delivers:
  "list_all (\<lambda>(t, body). length body \<le> max_body) ms \<Longrightarrow>
   delivers wire_pgproto \<lparr>pending = concat (map (\<lambda>(t, body). frontend_frame t body) ms) @ rest, closing = e\<rparr> ms
     \<lparr>pending = rest, closing = e\<rparr>"
  by (induction ms) (auto simp: wire_pgproto_def receive_frame encode_message_def)

definition request_of :: "byte \<times> byte list \<Rightarrow> QueryRequest" where
  "request_of m = \<lparr>Type = fst m, SQL = ExtractSQL (fst m) (snd m), Raw = snd m\<rparr>"

definition answer_messages :: "byte \<times> byte list \<Rightarrow> QueryResponse \<Rightarrow> backend_message list" where
  "answer_messages m r =
     (if Error r \<noteq> [] then [ErrorResponse ''ERROR'' (Error r) ''08000'', ReadyForQuery CHR ''I'']
      else (case response_messages (fst m) (SQL (request_of m)) r of
              Ok ms \<Rightarrow> ms @ [ReadyForQuery CHR ''I'']
            | _ \<Rightarrow> []))"

text \<open>
  The abstract service on a list of plain requests; \<open>None\<close> when one of them fails as a whole or
  its response is beyond what the API carries.
\<close>

fun service_run ::
  "('p, 'm) pools \<Rightarrow> string \<Rightarrow> QueryRequest list \<Rightarrow> ('p, 'm) Handler \<Rightarrow> (QueryResponse list \<times> ('p, 'm) Handler) option" where
  "service_run I sid [] h = Some ([], h)"
| "service_run I sid (req # reqs) h =
     (case serve I sid (valid_request req) h of
        (Ok r, h') \<Rightarrow>
          if fits r then
            map_option (\<lambda>(rs, h2). (valid_response r # rs, h2)) (service_run I sid reqs (h'\<lparr>entropy := spend (entropy h)\<rparr>))
          else None
      | _ \<Rightarrow> None)"

lemma message_answered:
  assumes "matcher_ok m" "linked c w" "serverURL c = base" "remote w = (h, k)" "8 \<le> length sid"
    and "\<not> IsTerminate t" "length body \<le> max_body"
    and "serve I sid (valid_request (request_of (t, body))) h = (Ok r, h')" "fits r"
    and "\<And>ms out. Flush P ms out = (Ok (), out @ ms)"
  shows "pg_message P (client_api (direct I m base ids) c) sid (frontend_frame t body) \<lparr>pg_in = i, pg_out = out, pg_world = w\<rparr> =
    (Ok Next, \<lparr>pg_in = i, pg_out = out @ answer_messages (t, body) (valid_response r),
       pg_world = w\<lparr>random := spend (random w), remote := (h'\<lparr>entropy := spend (entropy h)\<rparr>, Suc k)\<rparr>\<rparr>)"
proof -
  let ?req = "request_of (t, body)"
  let ?w = "w\<lparr>random := spend (random w), remote := (h'\<lparr>entropy := spend (entropy h)\<rparr>, Suc k)\<rparr>"
  have "length (Marshal (request_json ?req)) \<le> 14 * max_body + 100"
    using assms(7) length_ExtractSQL [of t body] by (intro length_request_json) (simp_all add: request_of_def)
  then have "length (Marshal (request_json ?req)) \<le> gcm_limit" by (simp add: max_body_def gcm_limit_def)
  from query_delivered [OF assms(1-5) this, of I r h' ids] assms(8,9)
  obtain bs where q: "QueryRequest_send (direct I m base ids) c sid (Marshal (request_json ?req)) w = (Ok bs, ?w)"
    and u: "Unmarshal_response bs = Ok (valid_response r)"
    by (auto simp: valid_request_def valid_response_def fits_def)
  obtain ms where ms: "response_messages t (SQL ?req) (valid_response r) = Ok ms" using response_messages_errors by blast
  have "slice (frontend_frame t body) 5 (length (frontend_frame t body)) = Ok body"
    by (simp add: slice_def frontend_frame_def)
  then have "pg_message P (client_api (direct I m base ids) c) sid (frontend_frame t body) \<lparr>pg_in = i, pg_out = out, pg_world = w\<rparr> =
      pg_answer P t (SQL ?req) bs \<lparr>pg_in = i, pg_out = out, pg_world = ?w\<rparr>"
    using assms(6) q
    by (simp add: pg_message_def frontend_frame_def request_of_def client_api_def Let_def)
  also have "\<dots> = (Ok Next, \<lparr>pg_in = i, pg_out = out @ answer_messages (t, body) (valid_response r), pg_world = ?w\<rparr>)"
    using u ms assms(10)
    by (simp add: pg_answer_def sendError_def pg_flush_def answer_messages_def)
  finally show ?thesis .
qed

section \<open>Conversations\<close>

lemma pg_loop_serves:
  assumes "matcher_ok m" "serverURL c = base" "8 \<le> length sid"
    and flush: "\<And>ms out. Flush P ms out = (Ok (), out @ ms)"
    and "list_all (\<lambda>(t, body). \<not> IsTerminate t \<and> length body \<le> max_body) msgs" "delivers P r msgs r'"
    and "linked_for (length msgs + n) c w" "remote w = (h, k)"
    and "service_run I sid (map request_of msgs) h = Some (rs, h2)"
  shows "\<exists>w2. pg_loop P (client_api (direct I m base ids) c) sid \<lparr>pg_in = r, pg_out = out, pg_world = w\<rparr> =
      pg_loop P (client_api (direct I m base ids) c) sid
        \<lparr>pg_in = r', pg_out = out @ concat (map2 answer_messages msgs rs), pg_world = w2\<rparr>
    \<and> fst (remote w2) = h2 \<and> linked_for n c w2"
  using assms(5-)
proof (induction msgs arbitrary: r out w h k rs)
  case Nil
  then show ?case by auto
next
  case (Cons msg msgs)
  let ?A = "client_api (direct I m base ids) c"
  obtain t body where msg: "msg = (t, body)" by fastforce
  obtain f r1 where f: "Receive P r = (Ok f, r1)" "EncodeFrontend P f = Ok (frontend_frame t body)" "delivers P r1 msgs r'"
    using Cons.prems(2) msg by auto
  obtain q h' rs' where s: "serve I sid (valid_request (request_of (t, body))) h = (Ok q, h')" "fits q"
    "service_run I sid (map request_of msgs) (h'\<lparr>entropy := spend (entropy h)\<rparr>) = Some (rs', h2)"
    "rs = valid_response q # rs'"
    using Cons.prems(5) msg by (auto split: prod.splits result.splits if_splits)
  let ?w1 = "w\<lparr>random := spend (random w), remote := (h'\<lparr>entropy := spend (entropy h)\<rparr>, Suc k)\<rparr>"
  have k': "encKey h' = encKey h" "entropy h' = entropy h"
    using serve_keeps [of I sid "valid_request (request_of (t, body))" h] s(1) by simp_all
  have l: "linked c w" using Cons.prems(3) linked_for_linked by simp
  have l1: "linked_for (length msgs + n) c ?w1" using Cons.prems(3,4) k' by (intro linked_for_next) simp_all
  have "pg_message P ?A sid (frontend_frame t body) \<lparr>pg_in = r1, pg_out = out, pg_world = w\<rparr> =
      (Ok Next, \<lparr>pg_in = r1, pg_out = out @ answer_messages msg (valid_response q), pg_world = ?w1\<rparr>)"
    using message_answered [OF assms(1) l assms(2) Cons.prems(4) assms(3) _ _ s(1,2) flush, of ids r1 out]
      Cons.prems(1) msg by simp
  then have "pg_loop P ?A sid \<lparr>pg_in = r, pg_out = out, pg_world = w\<rparr> =
      pg_loop P ?A sid \<lparr>pg_in = r1, pg_out = out @ answer_messages msg (valid_response q), pg_world = ?w1\<rparr>"
    using f by (subst pg_loop.simps) simp
  moreover have "\<exists>w2. pg_loop P ?A sid \<lparr>pg_in = r1, pg_out = out @ answer_messages msg (valid_response q), pg_world = ?w1\<rparr> =
      pg_loop P ?A sid \<lparr>pg_in = r', pg_out = (out @ answer_messages msg (valid_response q)) @ concat (map2 answer_messages msgs rs'),
        pg_world = w2\<rparr> \<and> fst (remote w2) = h2 \<and> linked_for n c w2"
    using Cons.prems(1) f(3) l1 s(3) by (intro Cons.IH) simp_all
  ultimately show ?case by (simp add: s(4))
qed

text \<open>A client that is gone, or says so.\<close>

definition hangs_up :: "('f, 'o) pgproto \<Rightarrow> reader \<Rightarrow> bool" where
  "hangs_up P r \<longleftrightarrow>
     (case Receive P r of
        (Err e, r') \<Rightarrow> True
      | (Ok m, r') \<Rightarrow> EncodeFrontend P m = Ok (frontend_frame (byte_of CHR ''X'') [])
      | (Panic p, r') \<Rightarrow> False)"

lemma pg_loop_hangs_up:
  assumes "hangs_up P r"
  shows "pg_loop P A sid \<lparr>pg_in = r, pg_out = out, pg_world = w\<rparr> =
    Some (Ok (), \<lparr>pg_in = snd (Receive P r), pg_out = out, pg_world = w\<rparr>)"
proof -
  have x: "pg_message P A sid (frontend_frame (byte_of CHR ''X'') []) c = (Ok Leave, c)" for c
    by (simp add: pg_message_def frontend_frame_def slice_def IsTerminate_def Let_def)
  show ?thesis
    using assms by (subst pg_loop.simps) (auto simp: hangs_up_def x split: prod.splits result.splits)
qed

lemma pg_conversation_lemma:
  assumes "matcher_ok m" "linked_for (Suc (length msgs)) c w" "serverURL c = base" "remote w = (h, k)"
    and "8 \<le> length (ids k)" "CHR ''/'' \<notin> set (ids k)"
    and "ReadStartupRaw i = (Ok raw, r)" "delivers P r msgs r'" "hangs_up P r'"
    and flush: "\<And>ms out. Flush P ms out = (Ok (), out @ ms)"
    and "list_all (\<lambda>(t, body). \<not> IsTerminate t \<and> length body \<le> max_body) msgs"
    and "poolForProtocol ''pg'' h = Some ref" "pool_acquire I ref (ids k) h = (Ok (), h1)"
    and "service_run I (ids k) (map request_of msgs) (h1\<lparr>sessionPools := (sessionPools h1)(ids k \<mapsto> ref)\<rparr>) = Some (rs, h2)"
  shows "\<exists>w'. pg_handleConnection P (client_api (direct I m base ids) c) \<lparr>pg_in = i, pg_out = [], pg_world = w\<rparr> =
      Some (Ok (), \<lparr>pg_in = snd (Receive P r'), pg_out = startup_messages @ concat (map2 answer_messages msgs rs), pg_world = w'\<rparr>)
    \<and> fst (remote w') = snd (CloseSession I (ids k) h2)"
proof -
  let ?A = "client_api (direct I m base ids) c"
  let ?h1 = "h1\<lparr>sessionPools := (sessionPools h1)(ids k \<mapsto> ref)\<rparr>"
  let ?w1 = "w\<lparr>random := spend (random w), remote := (?h1, Suc k)\<rparr>"
  have acq: "encKey h1 = encKey h" "entropy h1 = entropy h" using pool_acquire_keeps [OF assms(13)] by simp_all
  have "SessionRequest (direct I m base ids) c raw ''pg'' w = (Ok (ids k), ?w1)"
    using assms(2,7) ReadStartupRaw_length
    by (intro session_opened [where ids = ids, OF assms(1) _ assms(3,4) _ _ assms(12,5,13)]) (auto dest: linked_for_linked)
  then have op: "open_session ?A raw ''pg'' w = (Ok (ids k), ?w1)" by (simp add: client_api_def)
  have "linked_for (length msgs + 0) c ?w1" using linked_for_next(2) [OF assms(2,4)] acq by simp
  from pg_loop_serves [where ids = ids and P = P, OF assms(1,3,5) flush assms(11,8) this _ assms(14), of "Suc k" startup_messages]
  obtain w2 where w2: "pg_loop P ?A (ids k) \<lparr>pg_in = r, pg_out = startup_messages, pg_world = ?w1\<rparr> =
      Some (Ok (), \<lparr>pg_in = snd (Receive P r'), pg_out = startup_messages @ concat (map2 answer_messages msgs rs), pg_world = w2\<rparr>)"
    "fst (remote w2) = h2"
    by (auto simp: pg_loop_hangs_up [OF assms(9)])
  have "CloseSession_send (direct I m base ids) c (ids k) w2 =
      (Ok (), w2\<lparr>remote := (snd (CloseSession I (ids k) h2), Suc (snd (remote w2)))\<rparr>)"
    using w2(2) by (intro session_closed [OF assms(1,3) _ assms(5,6)]) (auto simp: prod_eq_iff)
  then have "fst (remote (snd (close_session ?A (ids k) w2))) = snd (CloseSession I (ids k) h2)"
    by (simp add: client_api_def)
  then show ?thesis
    using assms(5,7) op w2(1) flush ParseStartupMessage_no_panic [of raw]
    by (simp add: pg_handleConnection_def pg_flush_def Let_def slice_def)
qed

text \<open>
  C2: Whatever messages a PostgreSQL client sends between its startup and its end, the proxy
  over the tunnel answers each in order with what the abstract service makes of the plain request,
  on a session of its own that is gone from the server afterwards.
\<close>

theorem pg_conversation:
  assumes "matcher_ok m" "linked_for (Suc (length msgs)) c w" "serverURL c = base" "remote w = (h, k)"
    and "8 \<le> length (ids k)" "CHR ''/'' \<notin> set (ids k)"
    and "ReadStartupRaw i = (Ok raw, r)" "delivers P r msgs r'" "hangs_up P r'"
    and "\<And>ms out. Flush P ms out = (Ok (), out @ ms)"
    and "list_all (\<lambda>(t, body). \<not> IsTerminate t \<and> length body \<le> max_body) msgs"
    and "poolForProtocol ''pg'' h = Some ref" "pool_acquire I ref (ids k) h = (Ok (), h1)"
    and "service_run I (ids k) (map request_of msgs) (h1\<lparr>sessionPools := (sessionPools h1)(ids k \<mapsto> ref)\<rparr>) = Some (rs, h2)"
  shows "\<exists>w'. pg_handleConnection P (client_api (direct I m base ids) c) \<lparr>pg_in = i, pg_out = [], pg_world = w\<rparr> =
      Some (Ok (), \<lparr>pg_in = snd (Receive P r'), pg_out = startup_messages @ concat (map2 answer_messages msgs rs), pg_world = w'\<rparr>)
    \<and> fst (remote w') = snd (CloseSession I (ids k) h2)"
  using pg_conversation_lemma [where ids = ids, OF assms] .

section \<open>Refusals\<close>

text \<open>
  C8: When the server has no connection for a PostgreSQL client, the proxy closes the client's
  connection without a word: no answer to its startup, no error. Nothing is recorded at the server.
\<close>

theorem pg_refused:
  assumes "matcher_ok m" "linked c w" "serverURL c = base" "remote w = (h, k)"
    and "ReadStartupRaw i = (Ok raw, r)" "refuses I (ids k) ''pg'' h h'"
  shows "\<exists>w'. pg_handleConnection P (client_api (direct I m base ids) c) \<lparr>pg_in = i, pg_out = out, pg_world = w\<rparr> =
      Some (Ok (), \<lparr>pg_in = r, pg_out = out, pg_world = w'\<rparr>)
    \<and> fst (remote w') = h' \<and> sessionPools h' = sessionPools h \<and> stmts h' = stmts h"
proof -
  let ?w = "w\<lparr>random := spend (random w), remote := (h', Suc k)\<rparr>"
  have "length raw \<le> gcm_limit" using assms(5) ReadStartupRaw_length by blast
  then obtain err where "SessionRequest (direct I m base ids) c raw ''pg'' w = (Err err, ?w)"
    by (rule session_refused [where ids = ids, OF assms(1-4) _ _ assms(6)]) simp
  then show ?thesis
    using refuses_keeps [OF assms(6)] assms(5) ParseStartupMessage_no_panic [of raw]
    by (simp add: pg_handleConnection_def Let_def client_api_def)
qed

text \<open>What the proxy tells its client of a request that failed at the server.\<close>

definition failure_text :: "goerror \<Rightarrow> string" where
  "failure_text e = ''Query failed: query failed: status=500 body='' @ render (error_json (error_text e))"

lemma message_failed:
  assumes "matcher_ok m" "linked c w" "serverURL c = base" "remote w = (h, k)" "8 \<le> length sid"
    and "\<not> IsTerminate t" "length body \<le> max_body"
    and "serve I sid (valid_request (request_of (t, body))) h = (Err err, h')"
    and "\<And>ms out. Flush P ms out = (Ok (), out @ ms)"
  shows "pg_message P (client_api (direct I m base ids) c) sid (frontend_frame t body) \<lparr>pg_in = i, pg_out = out, pg_world = w\<rparr> =
    (Ok Leave, \<lparr>pg_in = i, pg_out = out @ [ErrorResponse ''ERROR'' (failure_text err) ''08000'', ReadyForQuery CHR ''I''],
       pg_world = w\<lparr>random := spend (random w), remote := (h', Suc k)\<rparr>\<rparr>)"
proof -
  let ?req = "request_of (t, body)" and ?body = "\<lambda>w. message (clientKey c) (take 12 (pending (random w)))"
  have "length (Marshal (request_json ?req)) \<le> 14 * max_body + 100"
    using assms(7) length_ExtractSQL [of t body] by (intro length_request_json) (simp_all add: request_of_def)
  then have l: "length (Marshal (request_json ?req)) \<le> gcm_limit" by (simp add: max_body_def gcm_limit_def)
  have ce: "can_encrypt h" using linked_can_encrypt [OF assms(2)] assms(4) by simp
  have "received h (?body w (Marshal (request_json ?req))) = Ok (valid_request ?req)"
    using assms(2,4) l by (simp add: linked_def received_def Decrypt_message Unmarshal_request_Marshal)
  from HandleQuery_serve [OF this ce assms(5), of I] assms(8)
  have "HandleQuery I sid (?body w (Marshal (request_json ?req))) h = (Err err, h')" by simp
  with tunnel_send [OF assms(1-4) _ l, of sid I "Err err" h' ids] assms(5)
  have "QueryRequest_send (direct I m base ids) c sid (Marshal (request_json ?req)) w =
      (Err (ErrorS (''query failed: status=500 body='' @ render (error_json (error_text err)))),
       w\<lparr>random := spend (random w), remote := (h', Suc k)\<rparr>)"
    by (cases sid) simp_all
  moreover have "slice (frontend_frame t body) 5 (length (frontend_frame t body)) = Ok body"
    by (simp add: slice_def frontend_frame_def)
  ultimately show ?thesis
    using assms(6,9)
    by (simp add: pg_message_def frontend_frame_def request_of_def client_api_def Let_def sendError_def pg_flush_def
        failure_text_def)
qed

lemma delivers_append:
  "delivers P r (ms @ ns) r' \<longleftrightarrow> (\<exists>r1. delivers P r ms r1 \<and> delivers P r1 ns r')"
  by (induction ms arbitrary: r) (auto 4 4)

text \<open>
  C6: A request that fails at the server (an Execute without a Parse) ends a PostgreSQL
  connection: the client has the answers to all it sent before, gets one error with the server's
  text and a \<open>ReadyForQuery\<close>, and is then disconnected, whatever it sends next; its session is
  closed.
\<close>

theorem pg_request_fails:
  assumes "matcher_ok m" "linked_for (Suc (Suc (length msgs))) c w" "serverURL c = base" "remote w = (h, k)"
    and "8 \<le> length (ids k)" "CHR ''/'' \<notin> set (ids k)"
    and "ReadStartupRaw i = (Ok raw, r)" "delivers P r (msgs @ [(t, body)]) r'"
    and "\<And>ms out. Flush P ms out = (Ok (), out @ ms)"
    and "list_all (\<lambda>(t, body). \<not> IsTerminate t \<and> length body \<le> max_body) (msgs @ [(t, body)])"
    and "poolForProtocol ''pg'' h = Some ref" "pool_acquire I ref (ids k) h = (Ok (), h1)"
    and "service_run I (ids k) (map request_of msgs) (h1\<lparr>sessionPools := (sessionPools h1)(ids k \<mapsto> ref)\<rparr>) = Some (rs, h2)"
    and "serve I (ids k) (valid_request (request_of (t, body))) h2 = (Err err, h3)"
  shows "\<exists>w'. pg_handleConnection P (client_api (direct I m base ids) c) \<lparr>pg_in = i, pg_out = [], pg_world = w\<rparr> =
      Some (Ok (), \<lparr>pg_in = r', pg_out = startup_messages @ concat (map2 answer_messages msgs rs)
        @ [ErrorResponse ''ERROR'' (failure_text err) ''08000'', ReadyForQuery CHR ''I''], pg_world = w'\<rparr>)
    \<and> fst (remote w') = snd (CloseSession I (ids k) h3)"
proof -
  let ?A = "client_api (direct I m base ids) c"
  let ?h1 = "h1\<lparr>sessionPools := (sessionPools h1)(ids k \<mapsto> ref)\<rparr>"
  let ?w1 = "w\<lparr>random := spend (random w), remote := (?h1, Suc k)\<rparr>"
  let ?out = "startup_messages @ concat (map2 answer_messages msgs rs)"
  let ?err = "[ErrorResponse ''ERROR'' (failure_text err) ''08000'', ReadyForQuery CHR ''I'']"
  have acq: "encKey h1 = encKey h" "entropy h1 = entropy h" using pool_acquire_keeps [OF assms(12)] by simp_all
  have "SessionRequest (direct I m base ids) c raw ''pg'' w = (Ok (ids k), ?w1)"
    using assms(2,7) ReadStartupRaw_length
    by (intro session_opened [where ids = ids, OF assms(1) _ assms(3,4) _ _ assms(11,5,12)]) (auto dest: linked_for_linked)
  then have op: "open_session ?A raw ''pg'' w = (Ok (ids k), ?w1)" by (simp add: client_api_def)
  obtain r1 f where f: "delivers P r msgs r1" "Receive P r1 = (Ok f, r')" "EncodeFrontend P f = Ok (frontend_frame t body)"
    using assms(8) by (auto simp: delivers_append)
  have bodies: "list_all (\<lambda>(t, body). \<not> IsTerminate t \<and> length body \<le> max_body) msgs" using assms(10) by simp
  have "linked_for (length msgs + 1) c ?w1" using linked_for_next(2) [OF assms(2,4)] acq by simp
  from pg_loop_serves [where ids = ids and P = P, OF assms(1,3,5,9) bodies f(1) this _ assms(13), of "Suc k" startup_messages]
  obtain w2 where w2: "pg_loop P ?A (ids k) \<lparr>pg_in = r, pg_out = startup_messages, pg_world = ?w1\<rparr> =
      pg_loop P ?A (ids k) \<lparr>pg_in = r1, pg_out = ?out, pg_world = w2\<rparr>" "fst (remote w2) = h2" "linked_for 1 c w2"
    by auto
  obtain k2 where r2: "remote w2 = (h2, k2)" using w2(2) by (cases "remote w2") simp
  let ?w3 = "w2\<lparr>random := spend (random w2), remote := (h3, Suc k2)\<rparr>"
  have "linked c w2" using w2(3) linked_for_linked [of 0] by simp
  from message_failed [where ids = ids and P = P, OF assms(1) this assms(3) r2 assms(5) _ _ assms(14,9)] assms(10)
  have "pg_message P ?A (ids k) (frontend_frame t body) \<lparr>pg_in = r', pg_out = ?out, pg_world = w2\<rparr> =
      (Ok Leave, \<lparr>pg_in = r', pg_out = ?out @ ?err, pg_world = ?w3\<rparr>)" by simp
  then have "pg_loop P ?A (ids k) \<lparr>pg_in = r1, pg_out = ?out, pg_world = w2\<rparr> =
      Some (Ok (), \<lparr>pg_in = r', pg_out = ?out @ ?err, pg_world = ?w3\<rparr>)"
    using f(2,3) by (subst pg_loop.simps) simp
  moreover have "fst (remote (snd (close_session ?A (ids k) ?w3))) = snd (CloseSession I (ids k) h3)"
    using session_closed [of m c base ?w3 h3 "Suc k2" "ids k" I ids] assms(1,3,5,6) by (simp add: client_api_def)
  ultimately show ?thesis
    using assms(5,7,9) op w2(1) ParseStartupMessage_no_panic [of raw]
    by (simp add: pg_handleConnection_def pg_flush_def Let_def slice_def)
qed

section \<open>An extended query\<close>

lemma empty_response_fits [simp]: "fits empty_response"
  by (simp add: fits_def empty_response_def in_int64_def Marshal_def response_json_def omitempty_def json_int_def
      render_string_def escape_string.simps(2) escape_char_def fmt_d_def show_nat.simps gcm_limit_def)

lemma empty_response_valid [simp]: "valid_response empty_response = empty_response"
  by (simp add: valid_response_def empty_response_def)

lemma empty_answers:
  "answer_messages (byte_of CHR ''P'', body) empty_response = [ParseComplete, ReadyForQuery CHR ''I'']"
  "answer_messages (byte_of CHR ''B'', body) empty_response = [BindComplete, ReadyForQuery CHR ''I'']"
  "answer_messages (byte_of CHR ''D'', body) empty_response = [NoData, ReadyForQuery CHR ''I'']"
  "answer_messages (byte_of CHR ''S'', body) empty_response = [ReadyForQuery CHR ''I'']"
  by (simp_all add: answer_messages_def response_messages_def empty_response_def byte_of_def)

definition execute_answer :: "QueryResponse \<Rightarrow> backend_message list" where
  "execute_answer r =
     (if Columns r \<noteq> [] then [row_description (Columns r)] else []) @ map data_row (Rows r)
     @ [CommandComplete (if 0 < RowsAffected r then '' '' @ fmt_d (RowsAffected r) else [])]"

lemma execute_answered:
  "Error r = [] \<Longrightarrow> answer_messages (byte_of CHR ''E'', body) r = execute_answer r @ [ReadyForQuery CHR ''I'']"
proof -
  have "ExtractSQL (byte_of CHR ''E'') body = []" by (simp add: ExtractSQL_def byte_of_def)
  moreover have "pg_sqlCommandType [] = []" by (simp add: pg_sqlCommandType_def pg_word_loop.simps)
  ultimately show "Error r = [] \<Longrightarrow> ?thesis"
    by (simp add: answer_messages_def response_messages_def result_messages_def request_of_def pg_commandTag_def
        execute_answer_def Let_def byte_of_def)
qed

lemma extended_service_run:
  assumes "sql = to_valid (ExtractSQL (byte_of CHR ''P'') prep)" "sql \<noteq> []"
    and "h3 = h\<lparr>stmts := (stmts h)(sid \<mapsto> sql), entropy := spend (spend (spend (entropy h)))\<rparr>"
    and "run_statement I sid sql h3 = (Ok r, h4)" "fits r"
  shows "service_run I sid (map request_of [(byte_of CHR ''P'', prep), (byte_of CHR ''B'', b), (byte_of CHR ''D'', d),
      (byte_of CHR ''E'', e), (byte_of CHR ''S'', s)]) h =
    Some ([empty_response, empty_response, empty_response, valid_response r, empty_response],
      h4\<lparr>entropy := spend (spend (entropy h3))\<rparr>)"
  using assms by (simp add: serve_def request_of_def valid_request_def cachedSQL_def)

lemma wire_hangs_up:
  "hangs_up wire_pgproto \<lparr>pending = frontend_frame (byte_of CHR ''X'') [], closing = e\<rparr>"
  "snd (Receive wire_pgproto \<lparr>pending = frontend_frame (byte_of CHR ''X'') [], closing = e\<rparr>) = \<lparr>pending = [], closing = e\<rparr>"
  using receive_frame [of "[]" "byte_of CHR ''X''" "[]" e]
  by (simp_all add: hangs_up_def wire_pgproto_def encode_message_def)

lemma read_startup:
  assumes "4 \<le> length raw" "length raw < 2 ^ 31" "take 4 raw = be_bytes 4 (length raw)"
  shows "ReadStartupRaw \<lparr>pending = raw @ rest, closing = e\<rparr> = (Ok raw, \<lparr>pending = rest, closing = e\<rparr>)"
  using assms by (simp add: ReadStartupRaw_Ok)

text \<open>
  C15: A client that runs a statement by the extended protocol (Parse, Bind, Describe, Execute,
  Sync) has it run exactly once at the server, with the rows of that run in the answer to Execute,
  whichever way \<^verbatim>\<open>pgproto3\<close> reads the five messages off the connection. It gets a
  \<open>ReadyForQuery\<close> after every one of them and not only after Sync, \<open>NoData\<close> for every statement,
  the row description only with Execute, and a completion tag without the command's name. Its
  session is closed when it leaves.
\<close>

theorem pg_extended_query:
  assumes "matcher_ok m" "linked_for 6 c w" "serverURL c = base" "remote w = (h, k)"
    and "8 \<le> length (ids k)" "CHR ''/'' \<notin> set (ids k)"
    and "ReadStartupRaw i = (Ok raw, r)"
    and "delivers P r [(byte_of CHR ''P'', prep), (byte_of CHR ''B'', b), (byte_of CHR ''D'', d), (byte_of CHR ''E'', x),
      (byte_of CHR ''S'', s)] r'" "hangs_up P r'"
    and "\<And>ms out. Flush P ms out = (Ok (), out @ ms)"
    and "list_all (\<lambda>body. length body \<le> max_body) [prep, b, d, x, s]"
    and "poolForProtocol ''pg'' h = Some ref" "pool_acquire I ref (ids k) h = (Ok (), h1)"
    and "sql = to_valid (ExtractSQL (byte_of CHR ''P'') prep)" "sql \<noteq> []"
    and "h3 = h1\<lparr>sessionPools := (sessionPools h1)(ids k \<mapsto> ref), stmts := (stmts h1)(ids k \<mapsto> sql),
      entropy := spend (spend (spend (entropy h1)))\<rparr>"
    and "run_statement I (ids k) sql h3 = (Ok resp, h4)" "fits resp" "Error resp = []"
  shows "\<exists>w'. pg_handleConnection P (client_api (direct I m base ids) c) \<lparr>pg_in = i, pg_out = [], pg_world = w\<rparr> =
      Some (Ok (), \<lparr>pg_in = snd (Receive P r'),
        pg_out = startup_messages @ [ParseComplete, ReadyForQuery CHR ''I'', BindComplete, ReadyForQuery CHR ''I'',
          NoData, ReadyForQuery CHR ''I''] @ execute_answer (valid_response resp)
          @ [ReadyForQuery CHR ''I'', ReadyForQuery CHR ''I''],
        pg_world = w'\<rparr>)
    \<and> fst (remote w') = snd (CloseSession I (ids k) (h4\<lparr>entropy := spend (spend (entropy h3))\<rparr>))"
proof -
  let ?msgs = "[(byte_of CHR ''P'', prep), (byte_of CHR ''B'', b), (byte_of CHR ''D'', d), (byte_of CHR ''E'', x),
    (byte_of CHR ''S'', s)]"
  have bodies: "list_all (\<lambda>(t, body). \<not> IsTerminate t \<and> length body \<le> max_body) ?msgs"
    using assms(11) by (simp add: IsTerminate_def byte_of_eq)
  have lk: "linked_for (Suc (length ?msgs)) c w"
    using assms(2) by (simp add: eval_nat_numeral(2,3))
  have run: "service_run I (ids k) (map request_of ?msgs) (h1\<lparr>sessionPools := (sessionPools h1)(ids k \<mapsto> ref)\<rparr>) =
    Some ([empty_response, empty_response, empty_response, valid_response resp, empty_response],
      h4\<lparr>entropy := spend (spend (entropy h3))\<rparr>)"
    by (rule extended_service_run [OF assms(14,15) _ assms(17,18)]) (simp add: assms(16))
  have "Error (valid_response resp) = []" using assms(19) by (simp add: valid_response_def to_valid.simps)
  from pg_conversation_lemma [where ids = ids and P = P, OF assms(1) lk assms(3-10) bodies assms(12,13) run]
  show ?thesis by (simp add: empty_answers execute_answered [OF \<open>Error (valid_response resp) = []\<close>])
qed

section \<open>Witnesses\<close>

definition example_startup :: "byte list" where
  "example_startup = be_bytes 4 8 @ [0, 3, 0, 0]"

abbreviation example_pg_reader :: reader where
  "example_pg_reader \<equiv>
     \<lparr>pending = example_startup @ frontend_frame (byte_of CHR ''Q'') (bytes_of ''SELECT 1'' @ [0]), closing = EOF\<rparr>"

lemma example_startup_ok:
  "4 \<le> length example_startup" "length example_startup < 2 ^ 31" "take 4 example_startup = be_bytes 4 (length example_startup)"
  by (simp_all add: example_startup_def)

lemma example_run:
  assumes "Receive P = receive_message" "EncodeFrontend P = encode_message" "\<And>ms out. Flush P ms out = (Ok (), add out ms)"
    and "\<And>p q w. open_session A p q w = (Ok ''session-1'', f w)"
    and "\<And>msg w. send_query A ''session-1'' msg w = (Err (ErrorS ''connection refused''), g w)"
  shows "pg_handleConnection P A \<lparr>pg_in = example_pg_reader, pg_out = out, pg_world = w\<rparr> =
    Some (Ok (), \<lparr>pg_in = \<lparr>pending = [], closing = EOF\<rparr>,
      pg_out = add (add out startup_messages)
        [ErrorResponse ''ERROR'' ''Query failed: connection refused'' ''08000'', ReadyForQuery CHR ''I''],
      pg_world = snd (close_session A ''session-1'' (g (f w)))\<rparr>)"
proof -
  let ?b = "bytes_of ''SELECT 1'' @ [0]"
  have b: "length ?b \<le> max_body" by (simp add: max_body_def)
  let ?c = "\<lparr>pg_in = \<lparr>pending = frontend_frame (byte_of CHR ''Q'') ?b, closing = EOF\<rparr>, pg_out = add out startup_messages,
    pg_world = f w\<rparr>"
  have "receive_message \<lparr>pending = frontend_frame (byte_of CHR ''Q'') ?b, closing = EOF\<rparr> =
      (Ok \<lparr>msg_type = byte_of CHR ''Q'', msg_payload = ?b\<rparr>, \<lparr>pending = [], closing = EOF\<rparr>)"
    using receive_frame [OF b, of "byte_of CHR ''Q''" "[]" EOF] by simp
  moreover have "slice (frontend_frame (byte_of CHR ''Q'') ?b) 5 (length (frontend_frame (byte_of CHR ''Q'') ?b)) = Ok ?b"
    by (simp add: slice_def frontend_frame_def)
  then have "pg_message P A ''session-1'' (frontend_frame (byte_of CHR ''Q'') ?b) (?c\<lparr>pg_in := i\<rparr>) =
      (Ok Leave, sendError P ''Query failed: connection refused'' (?c\<lparr>pg_in := i, pg_world := g (f w)\<rparr>))" for i
    by (simp add: pg_message_def frontend_frame_def Let_def assms(5) IsTerminate_def byte_of_eq)
  ultimately have "pg_loop P A ''session-1'' ?c = Some (Ok (), sendError P ''Query failed: connection refused''
      (?c\<lparr>pg_in := \<lparr>pending = [], closing = EOF\<rparr>, pg_world := g (f w)\<rparr>))"
    using b by (subst pg_loop.simps) (simp add: assms(1,2) encode_message_def)
  moreover have "ReadStartupRaw example_pg_reader =
      (Ok example_startup, \<lparr>pending = frontend_frame (byte_of CHR ''Q'') ?b, closing = EOF\<rparr>)"
    by (rule read_startup [OF example_startup_ok])
  ultimately show ?thesis
    using ParseStartupMessage_no_panic [of example_startup]
    by (simp add: pg_handleConnection_def Let_def assms(3,4) slice_def pg_flush_def sendError_def)
qed

theorem pg_session_closed_witness:
  "\<exists>c. pg_handleConnection wire_pgproto (traced example_api) \<lparr>pg_in = example_pg_reader, pg_out = [], pg_world = ((), [])\<rparr> =
       Some (Ok (), c)
     \<and> snd (pg_world c) = [Opened (Ok ''session-1''), Queried ''session-1'', Closed ''session-1''] \<and> balanced (snd (pg_world c))"
proof -
  from example_run [where P = wire_pgproto and A = "traced example_api" and add = "(@)" and out = "[]" and w = "((), [])"
      and f = "\<lambda>(w, t). (w, t @ [Opened (Ok ''session-1'')])" and g = "\<lambda>(w, t). (w, t @ [Queried ''session-1''])"]
  obtain c where c: "pg_handleConnection wire_pgproto (traced example_api)
      \<lparr>pg_in = example_pg_reader, pg_out = [], pg_world = ((), [])\<rparr> = Some (Ok (), c)"
    "snd (pg_world c) = [Opened (Ok ''session-1''), Queried ''session-1'', Closed ''session-1'']"
    by (auto simp: wire_pgproto_def traced_def example_api_def)
  from pg_session_closed [OF c(1)] c show ?thesis by simp
qed

theorem pg_connection_returns_witness:
  "\<exists>c. pg_handleConnection wire_pgproto example_api \<lparr>pg_in = example_pg_reader, pg_out = [], pg_world = ()\<rparr> = Some (Ok (), c)"
  using pg_connection_returns [OF wire.pgproto_laws_axioms example_api_laws(1),
      of "\<lparr>pg_in = example_pg_reader, pg_out = [], pg_world = ()\<rparr>"]
  by (auto simp: example_api_def)

theorem pg_answers_well_formed_witness:
  "\<exists>c a. pg_handleConnection (recorded wire_pgproto) example_api
       \<lparr>pg_in = example_pg_reader, pg_out = ([], []), pg_world = ()\<rparr> = Some (Ok (), c)
     \<and> snd (pg_out c) = [startup_messages, a] \<and> well_formed a"
proof -
  from example_run [where P = "recorded wire_pgproto" and A = example_api and out = "([], [])" and w = "()"
      and f = id and g = id and add = "\<lambda>(out, bs) ms. (out @ ms, bs @ [ms])"]
  obtain c a where c: "pg_handleConnection (recorded wire_pgproto) example_api
      \<lparr>pg_in = example_pg_reader, pg_out = ([], []), pg_world = ()\<rparr> = Some (Ok (), c)" "snd (pg_out c) = [startup_messages, a]"
    by (auto simp: wire_pgproto_def recorded_def example_api_def)
  from pg_answers_well_formed [OF c(1)] c show ?thesis by auto
qed

definition long_entropy :: reader where
  "long_entropy = \<lparr>pending = replicate 100 1, closing = EOF\<rparr>"

definition example_pg_net :: "((unit, unit) Handler \<times> nat) net" where
  "example_pg_net = \<lparr>remote = (echo_handler\<lparr>entropy := long_entropy\<rparr>, 0), random = long_entropy\<rparr>"

abbreviation echo_response :: QueryResponse where
  "echo_response \<equiv> \<lparr>Columns = [''a''], Rows = [[''1'']], RowsAffected = 0, Error = []\<rparr>"

lemma example_pg_net_facts:
  "n \<le> 8 \<Longrightarrow> linked_for n example_client example_pg_net" "serverURL example_client = ''http://s''"
  "remote example_pg_net = (echo_handler\<lparr>entropy := long_entropy\<rparr>, 0)"
  "poolForProtocol ''pg'' (echo_handler\<lparr>entropy := long_entropy\<rparr>) = Some UsePg"
  "pool_acquire echo_pools UsePg ''session-1'' (echo_handler\<lparr>entropy := long_entropy\<rparr>) =
     (Ok (), echo_handler\<lparr>entropy := long_entropy\<rparr>)"
  by (simp_all add: linked_for_def example_client_def example_pg_net_def echo_handler_def long_entropy_def
      poolForProtocol_def pool_acquire_def echo_pools_def echo_pool_def)

lemma echo_statement:
  "sessionPools h ''session-1'' = Some UsePg \<Longrightarrow> pgPool h = () \<Longrightarrow>
   run_statement echo_pools ''session-1'' ''SELECT 1'' h = (Ok echo_response, h)"
  by (cases h) (simp add: run_statement_def executeSQL_def sqlCommandType_first_word first_word_def
      is_space_def ends_word_def executeQuery_def pool_query_def getSessionPool_def echo_pools_def echo_pool_def)

lemma echo_fits: "fits echo_response" "valid_response echo_response = echo_response"
  by (simp_all add: fits_def in_int64_def valid_response_def ascii_to_valid Marshal_def response_json_def omitempty_def
      json_int_def json_strings_def render_string_def escape_string.simps(2) escape_char_def fmt_d_def show_nat.simps
      gcm_limit_def)

theorem pg_conversation_witness:
  "\<exists>c. pg_handleConnection wire_pgproto (client_api (direct echo_pools example_matcher ''http://s'' (\<lambda>_. ''session-1'')) example_client)
       \<lparr>pg_in = example_pg_reader, pg_out = [], pg_world = example_pg_net\<rparr> = Some (Ok (), c)
     \<and> pg_out c = startup_messages @ [row_description [''a''], DataRow [Some ''1''], CommandComplete ''SELECT 1'', ReadyForQuery CHR ''I'']
     \<and> sessionPools (fst (remote (pg_world c))) = Map.empty"
proof -
  let ?m = "(byte_of CHR ''Q'', bytes_of ''SELECT 1'' @ [0])"
  let ?h = "echo_handler\<lparr>entropy := long_entropy\<rparr>"
  let ?h1 = "?h\<lparr>sessionPools := (sessionPools ?h)(''session-1'' \<mapsto> UsePg)\<rparr>"
  have sql: "ExtractSQL (byte_of CHR ''Q'') (snd ?m) = ''SELECT 1''"
    by (simp add: ExtractSQL_def byte_of_def char_of_byte_def char_of_def bit_0)
  have run: "service_run echo_pools ''session-1'' (map request_of [?m]) ?h1 =
      Some ([echo_response], ?h1\<lparr>entropy := spend (entropy ?h1)\<rparr>)"
    using echo_statement [of ?h1] echo_fits
    by (simp add: request_of_def valid_request_def sql [simplified] ascii_to_valid serve_def)
  have st: "ReadStartupRaw example_pg_reader =
      (Ok example_startup, \<lparr>pending = frontend_frame (byte_of CHR ''Q'') (bytes_of ''SELECT 1'' @ [0]), closing = EOF\<rparr>)"
    by (rule read_startup [OF example_startup_ok])
  have del: "delivers wire_pgproto \<lparr>pending = frontend_frame (byte_of CHR ''Q'') (bytes_of ''SELECT 1'' @ [0]), closing = EOF\<rparr> [?m]
      \<lparr>pending = [], closing = EOF\<rparr>"
    using wire_delivers [of "[?m]" "[]" EOF] by (simp add: max_body_def)
  have up: "hangs_up wire_pgproto \<lparr>pending = [], closing = EOF\<rparr>"
    by (simp add: hangs_up_def wire_pgproto_def receive_message_def ReadFull_def)
  have fl: "Flush wire_pgproto ms out = (Ok (), out @ ms)" for ms out by (simp add: wire_pgproto_def)
  have tag: "pg_commandTag ''SELECT 1'' 1 0 = Ok ''SELECT 1''"
    by (simp add: pg_commandTag_def pg_sqlCommandType_first_word first_word_def is_space_def ends_word_def rune_string_def
        fmt_d_def show_nat.simps)
  have ans: "answer_messages ?m echo_response =
      [row_description [''a''], DataRow [Some ''1''], CommandComplete ''SELECT 1'', ReadyForQuery CHR ''I'']"
    using tag sql by (simp add: answer_messages_def request_of_def response_messages_def result_messages_def byte_of_eq data_row_def)
  have lk: "linked_for (Suc (length [?m])) example_client example_pg_net" by (rule example_pg_net_facts(1)) simp
  from pg_conversation [where ids = "\<lambda>_. ''session-1''" and P = wire_pgproto,
      OF example_matcher_ok lk example_pg_net_facts(2,3) _ _ st del up fl _ example_pg_net_facts(4,5) run]
  show ?thesis
    using ans by (auto simp: max_body_def IsTerminate_def byte_of_eq CloseSession_def Let_def pool_release_def fun_eq_iff echo_handler_def)
qed

theorem pg_extended_query_witness:
  "\<exists>c. pg_handleConnection wire_pgproto (client_api (direct echo_pools example_matcher ''http://s'' (\<lambda>_. ''session-1'')) example_client)
      \<lparr>pg_in = \<lparr>pending = example_startup @ frontend_frame (byte_of CHR ''P'') (0 # bytes_of ''SELECT 1'' @ [0, 0, 0])
         @ frontend_frame (byte_of CHR ''B'') [0, 0, 0, 0, 0, 0, 0, 0] @ frontend_frame (byte_of CHR ''D'') [80, 0]
         @ frontend_frame (byte_of CHR ''E'') [0, 0, 0, 0, 0] @ frontend_frame (byte_of CHR ''S'') []
         @ frontend_frame (byte_of CHR ''X'') [], closing = EOF\<rparr>,
       pg_out = [], pg_world = example_pg_net\<rparr> = Some (Ok (), c)
     \<and> length (filter (\<lambda>m. m = ReadyForQuery CHR ''I'') (pg_out c)) = 6
     \<and> CommandComplete [] \<in> set (pg_out c)
     \<and> stmts (fst (remote (pg_world c))) = Map.empty \<and> sessionPools (fst (remote (pg_world c))) = Map.empty"
proof -
  let ?h = "echo_handler\<lparr>entropy := long_entropy\<rparr>"
  let ?h3 = "?h\<lparr>sessionPools := (sessionPools ?h)(''session-1'' \<mapsto> UsePg), stmts := (stmts ?h)(''session-1'' \<mapsto> ''SELECT 1''),
    entropy := spend (spend (spend (entropy ?h)))\<rparr>"
  let ?prep = "0 # bytes_of ''SELECT 1'' @ [0, 0, 0]"
  let ?msgs = "[(byte_of CHR ''P'', ?prep), (byte_of CHR ''B'', [0, 0, 0, 0, 0, 0, 0, 0]), (byte_of CHR ''D'', [80, 0]),
    (byte_of CHR ''E'', [0, 0, 0, 0, 0]), (byte_of CHR ''S'', [])]"
  let ?X = "frontend_frame (byte_of CHR ''X'') []"
  let ?r = "\<lparr>pending = concat (map (\<lambda>(t, body). frontend_frame t body) ?msgs) @ ?X, closing = EOF\<rparr>"
  have sql: "''SELECT 1'' = to_valid (ExtractSQL (byte_of CHR ''P'') ?prep)"
    by (simp add: ExtractSQL_def splitNull_def byte_of_def char_of_byte_def char_of_def bit_0 ascii_to_valid)
  have run: "run_statement echo_pools ''session-1'' ''SELECT 1'' ?h3 = (Ok echo_response, ?h3)"
    by (rule echo_statement) simp_all
  have lk: "linked_for 6 example_client example_pg_net" by (rule example_pg_net_facts(1)) simp
  have st: "ReadStartupRaw \<lparr>pending = example_startup @ pending ?r, closing = EOF\<rparr> = (Ok example_startup, ?r)"
    using read_startup [OF example_startup_ok] by simp
  have del: "delivers wire_pgproto ?r ?msgs \<lparr>pending = ?X, closing = EOF\<rparr>"
    by (rule wire_delivers) (simp add: max_body_def)
  have fl: "Flush wire_pgproto ms out = (Ok (), out @ ms)" for ms out by (simp add: wire_pgproto_def)
  from pg_extended_query [where ids = "\<lambda>_. ''session-1''" and P = wire_pgproto,
      OF example_matcher_ok lk example_pg_net_facts(2,3) _ _ st del wire_hangs_up(1) fl _ example_pg_net_facts(4,5) sql _ refl run echo_fits(1)]
  show ?thesis
    by (auto simp: max_body_def echo_fits execute_answer_def row_description_def data_row_def startup_messages_def
        CloseSession_def Let_def pool_release_def fun_eq_iff echo_handler_def)
qed

text \<open>A pool without a free connection.\<close>

theorem pg_refused_witness:
  "\<exists>c. pg_handleConnection wire_pgproto
       (client_api (direct (echo_pools\<lparr>pg_ops := echo_pool\<lparr>AcquireSession := (\<lambda>s p. (Err EOF, p))\<rparr>\<rparr>) example_matcher ''http://s''
          (\<lambda>_. ''session-1'')) example_client)
       \<lparr>pg_in = example_pg_reader, pg_out = [], pg_world = example_pg_net\<rparr> = Some (Ok (), c)
     \<and> pg_out c = []"
proof -
  let ?h = "echo_handler\<lparr>entropy := long_entropy\<rparr>"
  let ?I = "echo_pools\<lparr>pg_ops := echo_pool\<lparr>AcquireSession := (\<lambda>s p. (Err EOF, p))\<rparr>\<rparr>"
  have "refuses ?I ''session-1'' ''pg'' ?h ?h"
    by (simp add: refuses_def poolForProtocol_def pool_acquire_def)
  moreover have "linked example_client example_pg_net" using example_pg_net_facts(1) [of 1] linked_for_linked [of 0] by simp
  ultimately show ?thesis
    using pg_refused [where ids = "\<lambda>_. ''session-1''" and P = wire_pgproto and I = ?I and out = "[]", OF example_matcher_ok _
        example_pg_net_facts(2,3) read_startup [OF example_startup_ok]]
    by fastforce
qed

text \<open>An Execute with nothing parsed, followed by another message.\<close>

theorem pg_request_fails_witness:
  "\<exists>c. pg_handleConnection wire_pgproto
       (client_api (direct echo_pools example_matcher ''http://s'' (\<lambda>_. ''session-1'')) example_client)
       \<lparr>pg_in = \<lparr>pending = example_startup @ frontend_frame (byte_of CHR ''E'') [] @ frontend_frame (byte_of CHR ''S'') [],
          closing = EOF\<rparr>, pg_out = [], pg_world = example_pg_net\<rparr> = Some (Ok (), c)
     \<and> pg_in c = \<lparr>pending = frontend_frame (byte_of CHR ''S'') [], closing = EOF\<rparr>
     \<and> pg_out c = startup_messages @
         [ErrorResponse ''ERROR'' (failure_text (ErrorS no_statement)) ''08000'', ReadyForQuery CHR ''I'']"
proof -
  let ?h = "echo_handler\<lparr>entropy := long_entropy\<rparr>"
  let ?h1 = "?h\<lparr>sessionPools := (sessionPools ?h)(''session-1'' \<mapsto> UsePg)\<rparr>"
  let ?E = "frontend_frame (byte_of CHR ''E'') []" and ?S = "frontend_frame (byte_of CHR ''S'') []"
  have st: "ReadStartupRaw \<lparr>pending = example_startup @ ?E @ ?S, closing = EOF\<rparr> = (Ok example_startup, \<lparr>pending = ?E @ ?S, closing = EOF\<rparr>)"
    by (rule read_startup [OF example_startup_ok])
  have del: "delivers wire_pgproto \<lparr>pending = ?E @ ?S, closing = EOF\<rparr> ([] @ [(byte_of CHR ''E'', [])]) \<lparr>pending = ?S, closing = EOF\<rparr>"
    using wire_delivers [of "[(byte_of CHR ''E'', [])]" ?S EOF] by simp
  have fl: "Flush wire_pgproto ms out = (Ok (), out @ ms)" for ms out by (simp add: wire_pgproto_def)
  have bodies: "list_all (\<lambda>(t, body). \<not> IsTerminate t \<and> length body \<le> max_body) ([] @ [(byte_of CHR ''E'', [])])"
    by (simp add: IsTerminate_def byte_of_eq)
  have lk: "linked_for (Suc (Suc (length []))) example_client example_pg_net" by (rule example_pg_net_facts(1)) simp
  have run: "service_run echo_pools ''session-1'' (map request_of []) ?h1 = Some ([], ?h1)" by simp
  have bad: "serve echo_pools ''session-1'' (valid_request (request_of (byte_of CHR ''E'', []))) ?h1 = (Err (ErrorS no_statement), ?h1)"
    by (simp add: serve_def request_of_def valid_request_def cachedSQL_def echo_handler_def)
  from pg_request_fails [where ids = "\<lambda>_. ''session-1''" and P = wire_pgproto, OF example_matcher_ok lk example_pg_net_facts(2,3)
      _ _ st del fl bodies example_pg_net_facts(4,5) run bad]
  show ?thesis by auto
qed

end
