(* ===== verification/LegacyHandler.thy ===== *)
theory LegacyHandler
  imports Adapter
begin

text \<open>
  The model of \<^verbatim>\<open>pkg/httphandler/handler.go\<close>, the first version of the server's handler: one
  PostgreSQL pool behind an interface, Gin only, responses in the pool's own result type. It
  shares the wire format with the handler that replaced it, and not the treatment of the extended
  protocol.
\<close>

record 'p LegacyHandler =
  l_pool :: 'p
  l_encKey :: "byte list"
  l_stmts :: "string \<Rightarrow> string option"
  l_entropy :: reader

definition legacy_NewHandler :: "'p \<Rightarrow> string \<Rightarrow> reader \<Rightarrow> 'p LegacyHandler result" where
  "legacy_NewHandler p key rnd =
     rbind (wrap_err ''derive key'' (DeriveKey key)) (\<lambda>k.
       Ok \<lparr>l_pool = p, l_encKey = k, l_stmts = Map.empty, l_entropy = rnd\<rparr>)"

definition bad_request :: "string \<Rightarrow> Response" where
  "bad_request text = respond_json 400 (error_json text)"

definition server_error :: "string \<Rightarrow> Response" where
  "server_error text = respond_json 500 (error_json text)"

definition legacy_CreateSession ::
  "'p Pool \<Rightarrow> string \<Rightarrow> byte list result \<Rightarrow> 'p LegacyHandler \<Rightarrow> Response result \<times> 'p LegacyHandler" where
  "legacy_CreateSession J sessionID body h =
     (case body of
        Err e \<Rightarrow> (Ok (bad_request (''read body: '' @ error_text e)), h)
      | Panic p \<Rightarrow> (Panic p, h)
      | Ok body \<Rightarrow>
     (case Decrypt body (l_encKey h) of
        Err e \<Rightarrow> (Ok (bad_request (''decrypt: '' @ error_text e)), h)
      | Panic p \<Rightarrow> (Panic p, h)
      | Ok _ \<Rightarrow>
     (case AcquireSession J sessionID (l_pool h) of
        (r, p) \<Rightarrow>
          (case r of
             Err e \<Rightarrow> Ok (server_error (''acquire connection: '' @ error_text e))
           | Panic q \<Rightarrow> Panic q
           | Ok _ \<Rightarrow> Ok \<lparr>StatusCode = 200, Content = Text, RespBody = bytes_of sessionID\<rparr>,
           h\<lparr>l_pool := p\<rparr>))))"

text \<open>
  \<open>pgpool.QueryResult\<close> as JSON. It has no \<open>omitempty\<close>: the slices of a query are never \<open>nil\<close>, those
  of a command and of a parsed statement are, and are written as \<open>null\<close>.
\<close>

definition query_result_json :: "QueryResult \<Rightarrow> json" where
  "query_result_json r =
     JObj [(''columns'', json_strings (q_Columns r)), (''rows'', JArr (map json_strings (q_Rows r))),
           (''rows_affected'', json_int (q_RowsAffected r))]"

definition command_result_json :: "int \<Rightarrow> json" where
  "command_result_json n = JObj [(''columns'', JNull), (''rows'', JNull), (''rows_affected'', json_int n)]"

definition legacy_executeQuery :: "'p Pool \<Rightarrow> string \<Rightarrow> string \<Rightarrow> 'p \<Rightarrow> byte list result \<times> 'p" where
  "legacy_executeQuery J sid sql p =
     (case ExecSQL J sid sql p of (r, p) \<Rightarrow> (rbind r (\<lambda>result. Ok (Marshal (query_result_json result))), p))"

definition legacy_executeCommand :: "'p Pool \<Rightarrow> string \<Rightarrow> string \<Rightarrow> 'p \<Rightarrow> byte list result \<times> 'p" where
  "legacy_executeCommand J sid sql p =
     (case ExecCommand J sid sql p of (r, p) \<Rightarrow> (rbind r (\<lambda>n. Ok (Marshal (command_result_json n))), p))"

definition legacy_executeSQL :: "'p Pool \<Rightarrow> string \<Rightarrow> string \<Rightarrow> string \<Rightarrow> 'p \<Rightarrow> byte list result \<times> 'p" where
  "legacy_executeSQL J sid sql cmdType p =
     (if cmdType \<in> set [''SELECT'', ''SHOW'', ''EXPLAIN'', ''DESCRIBE'', ''WITH''] then legacy_executeQuery J sid sql p
      else if cmdType \<in> set [''INSERT'', ''UPDATE'', ''DELETE'', ''CREATE'', ''ALTER'', ''DROP'', ''TRUNCATE'',
          ''SET'', ''BEGIN'', ''COMMIT'', ''ROLLBACK'', ''GRANT'', ''REVOKE'', ''COPY'', ''VACUUM''] then
        legacy_executeCommand J sid sql p
      else legacy_executeQuery J sid sql p)"

text \<open>Encrypting a response and sending it; \<open>prefix\<close> starts the text of an error.\<close>

definition legacy_reply :: "string \<Rightarrow> byte list \<Rightarrow> 'p LegacyHandler \<Rightarrow> Response result \<times> 'p LegacyHandler" where
  "legacy_reply prefix responseJSON h =
     (case Encrypt responseJSON (l_encKey h) (l_entropy h) of
        (c, rnd) \<Rightarrow>
          (case c of
             Err e \<Rightarrow> Ok (server_error (prefix @ error_text e))
           | Panic p \<Rightarrow> Panic p
           | Ok encrypted \<Rightarrow> Ok \<lparr>StatusCode = 200, Content = Octets, RespBody = encrypted\<rparr>,
           h\<lparr>l_entropy := rnd\<rparr>))"

definition legacy_run_statement ::
  "'p Pool \<Rightarrow> string \<Rightarrow> string \<Rightarrow> 'p LegacyHandler \<Rightarrow> Response result \<times> 'p LegacyHandler" where
  "legacy_run_statement J sid sql h =
     (case legacy_executeSQL J sid sql (legacy_sqlCommandType sql) (l_pool h) of
        (r, p) \<Rightarrow>
          (let h = h\<lparr>l_pool := p\<rparr> in
           case r of
             Err e \<Rightarrow> (Ok (server_error (''exec sql: '' @ error_text e)), h)
           | Panic q \<Rightarrow> (Panic q, h)
           | Ok responseJSON \<Rightarrow> legacy_reply ''encrypt response: '' responseJSON h))"

definition legacy_HandleQuery ::
  "'p Pool \<Rightarrow> string \<Rightarrow> byte list result \<Rightarrow> 'p LegacyHandler \<Rightarrow> Response result \<times> 'p LegacyHandler" where
  "legacy_HandleQuery J sessionID body h =
     (if sessionID = [] then (Ok (bad_request ''missing X-Session-ID header''), h)
      else
     (case body of
        Err e \<Rightarrow> (Ok (bad_request (''read body: '' @ error_text e)), h)
      | Panic p \<Rightarrow> (Panic p, h)
      | Ok body \<Rightarrow>
     (case Decrypt body (l_encKey h) of
        Err e \<Rightarrow> (Ok (bad_request (''decrypt: '' @ error_text e)), h)
      | Panic p \<Rightarrow> (Panic p, h)
      | Ok decrypted \<Rightarrow>
     (case Unmarshal_request decrypted of
        Err e \<Rightarrow> (Ok (bad_request (''unmarshal request: '' @ error_text e)), h)
      | Panic p \<Rightarrow> (Panic p, h)
      | Ok req \<Rightarrow>
     (case log_id sessionID of
        Err e \<Rightarrow> (Err e, h)
      | Panic p \<Rightarrow> (Panic p, h)
      | Ok _ \<Rightarrow>
          if Type req = byte_of CHR ''P'' then
            legacy_reply ''encrypt: '' (Marshal (command_result_json 0)) (h\<lparr>l_stmts := (l_stmts h)(sessionID \<mapsto> SQL req)\<rparr>)
          else if Type req = byte_of CHR ''E'' \<or> Type req = byte_of CHR ''B'' then
            (case l_stmts h sessionID of
               None \<Rightarrow> (Ok (bad_request ''no parsed statement found''), h)
             | Some cached \<Rightarrow>
                 if cached = [] then (Ok (bad_request ''no parsed statement found''), h)
                 else legacy_run_statement J sessionID cached h)
          else legacy_run_statement J sessionID (SQL req) h)))))"

definition legacy_CloseSession :: "'p Pool \<Rightarrow> string \<Rightarrow> 'p LegacyHandler \<Rightarrow> Response \<times> 'p LegacyHandler" where
  "legacy_CloseSession J sessionID h =
     (if sessionID = [] then (bad_request ''missing session_id'', h)
      else
        (respond_json 200 (JObj [(''status'', JStr ''closed'')]),
         h\<lparr>l_pool := ReleaseSession J sessionID (l_pool h), l_stmts := (l_stmts h)(sessionID := None)\<rparr>))"

definition legacy_HealthCheck :: "'p Pool \<Rightarrow> 'p LegacyHandler \<Rightarrow> Response" where
  "legacy_HealthCheck J h =
     (let stats = GetStats J (l_pool h) in
      respond_json 200 (JObj
        [(''acquired_conns'', json_int (sint (AcquiredConns stats))), (''idle_conns'', json_int (sint (IdleConns stats))),
         (''max_conns'', json_int (sint (MaxConns stats))), (''status'', JStr ''healthy''),
         (''total_conns'', json_int (sint (TotalConns stats)))]))"

section \<open>The extended protocol\<close>

text \<open>What the handler makes of a body, as far as it is a request; and a run of requests of one session.\<close>

definition legacy_received :: "'p LegacyHandler \<Rightarrow> byte list \<Rightarrow> QueryRequest result" where
  "legacy_received h body = rbind (Decrypt body (l_encKey h)) Unmarshal_request"

definition legacy_run :: "'p Pool \<Rightarrow> string \<Rightarrow> byte list list \<Rightarrow> 'p LegacyHandler \<Rightarrow> 'p LegacyHandler" where
  "legacy_run J sid bodies h = foldl (\<lambda>h body. snd (legacy_HandleQuery J sid (Ok body) h)) h bodies"

text \<open>The pool after one more statement.\<close>

definition pool_after :: "'p Pool \<Rightarrow> string \<Rightarrow> string \<Rightarrow> 'p \<Rightarrow> 'p" where
  "pool_after J sid sql p = snd (legacy_executeSQL J sid sql (legacy_sqlCommandType sql) p)"

lemma legacy_reply_keeps:
  "l_pool (snd (legacy_reply prefix bs h)) = l_pool h \<and> l_stmts (snd (legacy_reply prefix bs h)) = l_stmts h
   \<and> l_encKey (snd (legacy_reply prefix bs h)) = l_encKey h"
  by (simp add: legacy_reply_def split: prod.split)

lemma legacy_run_statement_effect:
  "l_pool (snd (legacy_run_statement J sid sql h)) = pool_after J sid sql (l_pool h)
   \<and> l_stmts (snd (legacy_run_statement J sid sql h)) = l_stmts h
   \<and> l_encKey (snd (legacy_run_statement J sid sql h)) = l_encKey h"
  by (simp add: legacy_reply_keeps legacy_run_statement_def pool_after_def Let_def split: prod.split result.split)

lemma legacy_HandleQuery_received:
  assumes "legacy_received h body = Ok req" "8 \<le> length sid"
  shows "legacy_HandleQuery J sid (Ok body) h =
    (if Type req = byte_of CHR ''P'' then
       legacy_reply ''encrypt: '' (Marshal (command_result_json 0)) (h\<lparr>l_stmts := (l_stmts h)(sid \<mapsto> SQL req)\<rparr>)
     else if Type req = byte_of CHR ''E'' \<or> Type req = byte_of CHR ''B'' then
       (case l_stmts h sid of
          None \<Rightarrow> (Ok (bad_request ''no parsed statement found''), h)
        | Some cached \<Rightarrow>
            if cached = [] then (Ok (bad_request ''no parsed statement found''), h) else legacy_run_statement J sid cached h)
     else legacy_run_statement J sid (SQL req) h)"
proof -
  from assms(1) obtain p where "Decrypt body (l_encKey h) = Ok p" "Unmarshal_request p = Ok req"
    by (auto simp: legacy_received_def rbind_eq_Ok_iff)
  moreover have "sid \<noteq> []" "log_id sid = Ok (take 8 sid)" using assms(2) by (auto simp: log_id_def slice_def)
  ultimately show ?thesis by (simp add: legacy_HandleQuery_def)
qed

text \<open>
  The first handler runs a statement of the extended protocol twice, at Bind and again at
  Execute, and sends an empty statement to the database for Describe and for Sync; the handler that
  replaced it runs it once.
\<close>

theorem legacy_runs_twice:
  assumes "8 \<le> length sid" "sql \<noteq> []"
    and "legacy_received h p = Ok \<lparr>Type = byte_of CHR ''P'', SQL = sql, Raw = r1\<rparr>"
    and "legacy_received h b = Ok \<lparr>Type = byte_of CHR ''B'', SQL = [], Raw = r2\<rparr>"
    and "legacy_received h d = Ok \<lparr>Type = byte_of CHR ''D'', SQL = [], Raw = r3\<rparr>"
    and "legacy_received h x = Ok \<lparr>Type = byte_of CHR ''E'', SQL = [], Raw = r4\<rparr>"
    and "legacy_received h s = Ok \<lparr>Type = byte_of CHR ''S'', SQL = [], Raw = r5\<rparr>"
  shows "l_pool (legacy_run J sid [p, b, d, x, s] h) =
    pool_after J sid [] (pool_after J sid sql (pool_after J sid [] (pool_after J sid sql (l_pool h))))"
proof -
  have key: "legacy_received h' q = legacy_received h q" if "l_encKey h' = l_encKey h" for h' q
    using that by (simp add: legacy_received_def)
  have types: "byte_of CHR ''B'' \<noteq> byte_of CHR ''P''" "byte_of CHR ''E'' \<noteq> byte_of CHR ''P''"
    "byte_of CHR ''D'' \<notin> {byte_of CHR ''P'', byte_of CHR ''E'', byte_of CHR ''B''}"
    "byte_of CHR ''S'' \<notin> {byte_of CHR ''P'', byte_of CHR ''E'', byte_of CHR ''B''}"
    by (simp_all add: byte_of_def)
  define h1 where "h1 = snd (legacy_HandleQuery J sid (Ok p) h)"
  have h1: "l_pool h1 = l_pool h" "l_stmts h1 sid = Some sql" "l_encKey h1 = l_encKey h"
    unfolding h1_def using legacy_HandleQuery_received [OF assms(3,1)] by (simp_all add: legacy_reply_keeps)
  define h2 where "h2 = snd (legacy_HandleQuery J sid (Ok b) h1)"
  have "legacy_received h1 b = Ok \<lparr>Type = byte_of CHR ''B'', SQL = [], Raw = r2\<rparr>" using key [OF h1(3), of b] assms(4) by simp
  from legacy_HandleQuery_received [OF this assms(1)]
  have h2: "l_pool h2 = pool_after J sid sql (l_pool h)" "l_stmts h2 sid = Some sql" "l_encKey h2 = l_encKey h"
    unfolding h2_def using h1 assms(2) types by (simp_all add: legacy_run_statement_effect)
  define h3 where "h3 = snd (legacy_HandleQuery J sid (Ok d) h2)"
  have "legacy_received h2 d = Ok \<lparr>Type = byte_of CHR ''D'', SQL = [], Raw = r3\<rparr>" using key [OF h2(3), of d] assms(5) by simp
  from legacy_HandleQuery_received [OF this assms(1)]
  have h3: "l_pool h3 = pool_after J sid [] (l_pool h2)" "l_stmts h3 sid = Some sql" "l_encKey h3 = l_encKey h"
    unfolding h3_def using h2 types by (simp_all add: legacy_run_statement_effect)
  define h4 where "h4 = snd (legacy_HandleQuery J sid (Ok x) h3)"
  have "legacy_received h3 x = Ok \<lparr>Type = byte_of CHR ''E'', SQL = [], Raw = r4\<rparr>" using key [OF h3(3), of x] assms(6) by simp
  from legacy_HandleQuery_received [OF this assms(1)]
  have h4: "l_pool h4 = pool_after J sid sql (l_pool h3)" "l_encKey h4 = l_encKey h"
    unfolding h4_def using h3 assms(2) types by (simp_all add: legacy_run_statement_effect)
  have "legacy_received h4 s = Ok \<lparr>Type = byte_of CHR ''S'', SQL = [], Raw = r5\<rparr>" using key [OF h4(2), of s] assms(7) by simp
  from legacy_HandleQuery_received [OF this assms(1)]
  have "l_pool (snd (legacy_HandleQuery J sid (Ok s) h4)) = pool_after J sid [] (l_pool h4)"
    using types by (simp add: legacy_run_statement_effect)
  then show ?thesis by (simp add: legacy_run_def h1_def [symmetric] h2_def [symmetric] h3_def [symmetric] h4_def [symmetric] h2 h3 h4)
qed

section \<open>Plain statements\<close>

text \<open>The older JSON of a result is read by the proxies as the present one.\<close>

lemma clean_strings: "clean (json_strings ss) = JArr (map (\<lambda>s. JStr (to_valid s)) ss)"
  by (simp add: json_strings_def)

lemma query_result_read:
  "Unmarshal_response (Marshal (query_result_json q)) =
   Unmarshal_response (Marshal (response_json
     \<lparr>Columns = q_Columns q, Rows = q_Rows q, RowsAffected = q_RowsAffected q, Error = []\<rparr>))"
proof -
  let ?r = "\<lparr>Columns = q_Columns q, Rows = q_Rows q, RowsAffected = q_RowsAffected q, Error = []\<rparr>"
  have "parse (string_of (Marshal (query_result_json q))) = Some (clean (query_result_json q))"
    using depth_rows [of "q_Rows q"]
    by (intro parse_Marshal) (auto simp: query_result_json_def json_int_def list_all_iff)
  moreover have "parse (string_of (Marshal (response_json ?r))) = Some (clean (response_json ?r))"
    using depth_rows [of "q_Rows q"]
    by (intro parse_Marshal) (auto simp: response_json_def omitempty_def json_int_def list_all_iff)
  ultimately show ?thesis
    by (auto simp: Unmarshal_response_def Unmarshal_def query_result_json_def response_json_def omitempty_def
        json_int_def set_response_field_def set_slice_def empty_response_def comp_def clean_strings set_string_def split: option.split)
qed

lemma command_result_read:
  "Unmarshal_response (Marshal (command_result_json n)) =
   Unmarshal_response (Marshal (response_json (empty_response\<lparr>RowsAffected := n\<rparr>)))"
proof -
  have "parse (string_of (Marshal (command_result_json n))) = Some (clean (command_result_json n))"
    by (intro parse_Marshal) (auto simp: command_result_json_def json_int_def)
  moreover have "parse (string_of (Marshal (response_json (empty_response\<lparr>RowsAffected := n\<rparr>)))) =
      Some (clean (response_json (empty_response\<lparr>RowsAffected := n\<rparr>)))"
    by (intro parse_Marshal) (auto simp: response_json_def omitempty_def json_int_def empty_response_def)
  ultimately show ?thesis
    by (simp add: Unmarshal_response_def Unmarshal_def command_result_json_def response_json_def omitempty_def
        json_int_def set_response_field_def set_slice_def empty_response_def)
qed

lemma executes_alike:
  assumes "getSessionPool sid h = UsePg" "executeSQL I sid sql (sqlCommandType sql) h = (r, h1)"
  obtains q where "legacy_executeSQL (pg_ops I) sid sql (legacy_sqlCommandType sql) (pgPool h) = (q, pgPool h1)"
    and "case r of
        Ok resp \<Rightarrow> (\<exists>js. q = Ok js \<and> Unmarshal_response js = Unmarshal_response (Marshal (response_json resp)))
      | Err e \<Rightarrow> q = Err e
      | Panic p \<Rightarrow> q = Panic p"
proof -
  have word: "legacy_sqlCommandType sql = sqlCommandType sql"
    by (simp add: legacy_sqlCommandType_def sqlCommandType_def)
  let ?legacy = "legacy_executeSQL (pg_ops I) sid sql (sqlCommandType sql) (pgPool h)"
  have "snd ?legacy = pgPool h1 \<and>
    (case r of
       Ok resp \<Rightarrow> (\<exists>js. fst ?legacy = Ok js \<and> Unmarshal_response js = Unmarshal_response (Marshal (response_json resp)))
     | Err e \<Rightarrow> fst ?legacy = Err e
     | Panic p \<Rightarrow> fst ?legacy = Panic p)"
  proof (cases "executeSQL I sid sql (sqlCommandType sql) h = executeCommand I sid sql h \<and>
      ?legacy = legacy_executeCommand (pg_ops I) sid sql (pgPool h)")
    case True
    obtain x p where x: "ExecCommand (pg_ops I) sid sql (pgPool h) = (x, p)" by fastforce
    show ?thesis
      using assms True x
      by (cases x) (auto simp: executeCommand_def pool_command_def legacy_executeCommand_def command_result_read)
  next
    case False
    then have q: "executeSQL I sid sql (sqlCommandType sql) h = executeQuery I sid sql h"
      "?legacy = legacy_executeQuery (pg_ops I) sid sql (pgPool h)"
      by (auto simp: executeSQL_def legacy_executeSQL_def split: if_splits)
    obtain x p where x: "ExecSQL (pg_ops I) sid sql (pgPool h) = (x, p)" by fastforce
    show ?thesis
      using assms q x
      by (cases x) (auto simp: executeQuery_def pool_query_def legacy_executeQuery_def query_result_read)
  qed
  then show ?thesis using that [of "fst ?legacy"] word by (simp add: prod_eq_iff)
qed

definition same_server :: "'p LegacyHandler \<Rightarrow> ('p, 'm) Handler \<Rightarrow> bool" where
  "same_server l h \<longleftrightarrow> l_pool l = pgPool h \<and> l_encKey l = encKey h \<and> l_entropy l = entropy h"

text \<open>What a proxy reads out of a body it was sent.\<close>

definition read_response :: "byte list \<Rightarrow> byte list \<Rightarrow> QueryResponse result" where
  "read_response key body = rbind (Decrypt body key) Unmarshal_response"

lemma read_encrypted:
  assumes "Encrypt p key rnd = (Ok c, rnd')"
  shows "read_response key c = Unmarshal_response p" "rnd' = rnd\<lparr>pending := drop 12 (pending rnd)\<rparr>"
proof -
  note e = Encrypt_OkD [OF assms]
  have "Decrypt c key = Ok p" unfolding e(3) by (rule Decrypt_message) (use e in simp_all)
  then show "read_response key c = Unmarshal_response p" by (simp add: read_response_def)
  show "rnd' = rnd\<lparr>pending := drop 12 (pending rnd)\<rparr>" by (rule e(5))
qed

text \<open>
  C31: On a plain statement of a PostgreSQL session the two versions of the handler do the same to
  the pool, and a proxy reads the same response from both. They differ in how a failed statement
  is reported: the first version answers with status 500 and an unencrypted text, the present one
  with an encrypted response.
\<close>

theorem plain_statements_agree:
  assumes "same_server l h" "getSessionPool sid h = UsePg" "8 \<le> length sid"
    and "received h body = Ok req" "char_of_byte (Type req) \<notin> {CHR ''P'', CHR ''B'', CHR ''D'', CHR ''S'', CHR ''E''}"
    and "HandleQuery I sid body h = (Ok bs, h')" "legacy_HandleQuery (pg_ops I) sid (Ok body) l = (Ok resp, l')"
  shows "l_pool l' = pgPool h'
    \<and> (StatusCode resp = 200 \<longrightarrow> same_server l' h' \<and> read_response (encKey h) (RespBody resp) = read_response (encKey h) bs)
    \<and> (StatusCode resp \<noteq> 200 \<longrightarrow>
        (\<exists>text. resp = server_error text) \<and>
        (\<forall>e. fst (executeSQL I sid (SQL req) (sqlCommandType (SQL req)) h) = Err e \<longrightarrow>
          read_response (encKey h) bs = Ok (empty_response\<lparr>Error := to_valid (error_text e)\<rparr>)))"
proof -
  let ?sql = "SQL req"
  have id: "log_id sid = Ok (take 8 sid)" using assms(3) by (simp add: log_id_def slice_def)
  have t: "Type req \<noteq> byte_of CHR ''P''" "Type req \<noteq> byte_of CHR ''B''" "Type req \<noteq> byte_of CHR ''D''"
    "Type req \<noteq> byte_of CHR ''S''" "Type req \<noteq> byte_of CHR ''E''"
    using assms(5) by (auto simp: byte_of_eq)
  from assms(4) obtain pl where pl: "Decrypt body (encKey h) = Ok pl" "Unmarshal_request pl = Ok req"
    by (rule received_OkD)
  have new: "HandleQuery I sid body h = execute_and_reply I sid ?sql h"
    by (simp add: HandleQuery_def pl id t)
  have lrec: "legacy_received l body = Ok req"
    using assms(1) pl by (simp add: legacy_received_def same_server_def)
  have old: "legacy_HandleQuery (pg_ops I) sid (Ok body) l = legacy_run_statement (pg_ops I) sid ?sql l"
    using legacy_HandleQuery_received [OF lrec assms(3)] t by simp
  obtain r h1 where e: "executeSQL I sid ?sql (sqlCommandType ?sql) h = (r, h1)" by fastforce
  obtain q where q: "legacy_executeSQL (pg_ops I) sid ?sql (legacy_sqlCommandType ?sql) (pgPool h) = (q, pgPool h1)"
    and alike: "case r of
        Ok resp \<Rightarrow> (\<exists>js. q = Ok js \<and> Unmarshal_response js = Unmarshal_response (Marshal (response_json resp)))
      | Err e \<Rightarrow> q = Err e
      | Panic p \<Rightarrow> q = Panic p"
    by (rule executes_alike [OF assms(2) e])
  note keeps = executeSQL_keeps [OF e]
  show ?thesis
  proof (cases r)
    case (Ok response)
    obtain c rnd where c: "Encrypt (Marshal (response_json response)) (encKey h) (entropy h) = (c, rnd)" by fastforce
    have hq: "HandleQuery I sid body h = (wrap_err ''encrypt response'' c, h1\<lparr>entropy := rnd\<rparr>)"
      using Ok e c keeps by (simp add: new execute_and_reply_def reply_def)
    with assms(6) have n: "c = Ok bs" "h' = h1\<lparr>entropy := rnd\<rparr>" by simp_all
    from alike Ok obtain js where js: "q = Ok js" "Unmarshal_response js = Unmarshal_response (Marshal (response_json response))"
      by auto
    obtain lc lrnd where lc: "Encrypt js (encKey h) (entropy h) = (lc, lrnd)" by fastforce
    have lq: "legacy_HandleQuery (pg_ops I) sid (Ok body) l = legacy_reply ''encrypt response: '' js (l\<lparr>l_pool := pgPool h1\<rparr>)"
      using js q assms(1) by (simp add: old legacy_run_statement_def same_server_def)
    have l: "l' = l\<lparr>l_pool := pgPool h1, l_entropy := lrnd\<rparr>"
      using assms(7) lq lc assms(1) by (cases lc) (auto simp: legacy_reply_def same_server_def)
    show ?thesis
    proof (cases lc)
      case (Ok lbs)
      then have "resp = \<lparr>StatusCode = 200, Content = Octets, RespBody = lbs\<rparr>"
        using assms(7) lq lc assms(1) by (auto simp: legacy_reply_def same_server_def)
      then show ?thesis
        using read_encrypted [OF c [unfolded n(1)]] read_encrypted [OF lc [unfolded Ok]] js n l assms(1) keeps
        by (simp add: same_server_def)
    next
      case (Err le)
      then have "resp = server_error (''encrypt response: '' @ error_text le)"
        using assms(7) lq lc assms(1) by (auto simp: legacy_reply_def same_server_def)
      then show ?thesis using n l \<open>r = Ok response\<close> e by (auto simp: server_error_def respond_json_def)
    next
      case (Panic p)
      then show ?thesis using assms(7) lq lc assms(1) by (auto simp: legacy_reply_def same_server_def)
    qed
  next
    case (Err err)
    let ?resp = "empty_response\<lparr>Error := error_text err\<rparr>"
    obtain c rnd where c: "Encrypt (Marshal (response_json ?resp)) (encKey h) (entropy h) = (c, rnd)" by fastforce
    have hq: "HandleQuery I sid body h = (wrap_err ''encrypt response'' c, h1\<lparr>entropy := rnd\<rparr>)"
      using Err e c keeps by (simp add: new execute_and_reply_def reply_def)
    with assms(6) have n: "c = Ok bs" "h' = h1\<lparr>entropy := rnd\<rparr>" by simp_all
    have "read_response (encKey h) bs = Ok (valid_response ?resp)"
      using read_encrypted(1) [OF c [unfolded n(1)]] by (simp add: Unmarshal_response_Marshal empty_response_def)
    moreover have "resp = server_error (''exec sql: '' @ error_text err)" "l' = l\<lparr>l_pool := pgPool h1\<rparr>"
      using assms(7) Err alike q assms(1) by (auto simp: old legacy_run_statement_def same_server_def)
    ultimately show ?thesis
      using n e Err by (auto simp: server_error_def respond_json_def valid_response_def empty_response_def)
  next
    case (Panic p)
    then show ?thesis using assms(6) e by (simp add: new execute_and_reply_def)
  qed
qed

section \<open>Witness\<close>

text \<open>A pool that remembers the statements it is given.\<close>

definition logging_pool :: "string list Pool" where
  "logging_pool =
     \<lparr>AcquireSession = (\<lambda>s p. (Ok (), p)), ReleaseSession = (\<lambda>s p. p), GetStats = (\<lambda>p. no_stats),
      ExecSQL = (\<lambda>s q p. (Ok \<lparr>q_Columns = [], q_Rows = [], q_RowsAffected = 0\<rparr>, p @ [q])),
      ExecCommand = (\<lambda>s q p. (Ok 0, p @ [q]))\<rparr>"

definition legacy_body :: "char \<Rightarrow> string \<Rightarrow> byte list" where
  "legacy_body t sql = message example_key (replicate 12 1) (Marshal (request_json \<lparr>Type = byte_of t, SQL = sql, Raw = []\<rparr>))"

lemma length_legacy_body:
  assumes "length sql \<le> 10"
  shows "length (Marshal (request_json \<lparr>Type = byte_of t, SQL = sql, Raw = []\<rparr>)) \<le> gcm_limit"
proof -
  have "length (render_string sql) \<le> 62" using length_render_string [of sql] assms by simp
  moreover have "length (fmt_d (uint (byte_of t))) \<le> 3"
    using length_show_nat [of "unat (byte_of t)" 2] unat_byte_less [of "byte_of t"] by (simp add: fmt_d_def)
  moreover have "render_string ''type'' = quote # ''type'' @ [quote]" "render_string ''sql'' = quote # ''sql'' @ [quote]"
    by (simp_all add: render_string_def escape_string.simps(2) escape_char_def)
  ultimately show ?thesis by (simp add: Marshal_def request_json_def omitempty_def json_int_def gcm_limit_def)
qed

lemma legacy_body_received:
  assumes "l_encKey h = example_key" "sql = [] \<or> sql = ''SELECT 1''"
  shows "legacy_received h (legacy_body t sql) = Ok \<lparr>Type = byte_of t, SQL = sql, Raw = []\<rparr>"
proof -
  have "length sql \<le> 10" "to_valid sql = sql" using assms(2) by (auto simp: ascii_to_valid)
  with length_legacy_body [of sql t] show ?thesis
    by (simp add: legacy_received_def legacy_body_def assms(1) Decrypt_message Unmarshal_request_Marshal valid_request_def)
qed

theorem legacy_runs_twice_witness:
  "l_pool (legacy_run logging_pool ''session-1''
     [legacy_body CHR ''P'' ''SELECT 1'', legacy_body CHR ''B'' [], legacy_body CHR ''D'' [], legacy_body CHR ''E'' [],
      legacy_body CHR ''S'' []]
     \<lparr>l_pool = [], l_encKey = example_key, l_stmts = Map.empty, l_entropy = example_entropy\<rparr>) =
   [''SELECT 1'', [], ''SELECT 1'', []]"
proof -
  let ?h = "\<lparr>l_pool = [], l_encKey = example_key, l_stmts = Map.empty, l_entropy = example_entropy\<rparr>"
  have r: "legacy_received ?h (legacy_body t sql) = Ok \<lparr>Type = byte_of t, SQL = sql, Raw = []\<rparr>"
    if "sql = [] \<or> sql = ''SELECT 1''" for t sql by (rule legacy_body_received [OF _ that]) simp
  have a: "pool_after logging_pool ''session-1'' sql p = p @ [sql]" for sql p
    by (simp add: pool_after_def legacy_executeSQL_def legacy_executeQuery_def legacy_executeCommand_def logging_pool_def)
  from legacy_runs_twice [of "''session-1''" "''SELECT 1''" ?h _ _ _ _ _ _ _ _ _ _ logging_pool, OF _ _ r r r r r] show ?thesis by (simp add: a)
qed

theorem plain_statements_agree_witness:
  "\<exists>bs h' resp l'.
     HandleQuery echo_pools ''session-1'' (select_body CHR ''Q'') echo_handler = (Ok bs, h') \<and>
     legacy_HandleQuery echo_pool ''session-1'' (Ok (select_body CHR ''Q''))
       \<lparr>l_pool = (), l_encKey = example_key, l_stmts = Map.empty, l_entropy = example_entropy\<rparr> = (Ok resp, l') \<and>
     StatusCode resp = 200 \<and> read_response example_key (RespBody resp) = read_response example_key bs"
proof -
  let ?sid = "''session-1''" and ?body = "select_body CHR ''Q''" and ?req = "select_request CHR ''Q''"
  let ?l = "\<lparr>l_pool = (), l_encKey = example_key, l_stmts = Map.empty, l_entropy = example_entropy\<rparr>"
  let ?r = "\<lparr>Columns = [''a''], Rows = [[''1'']], RowsAffected = 0, Error = []\<rparr>"
  let ?js = "Marshal (query_result_json \<lparr>q_Columns = [''a''], q_Rows = [[''1'']], q_RowsAffected = 0\<rparr>)"
  have k: "encKey echo_handler = example_key" by (simp add: echo_handler_def)
  have ce: "can_encrypt echo_handler" by (simp add: can_encrypt_def echo_handler_def example_entropy_def)
  have rec: "received echo_handler ?body = Ok ?req" by (rule received_select [OF k])
  have s: "serve echo_pools ?sid ?req echo_handler = (Ok ?r, echo_handler)"
    by (simp add: serve_def select_request_def run_statement_def executeSQL_def sqlCommandType_first_word first_word_def
        is_space_def ends_word_def executeQuery_def pool_query_def getSessionPool_def echo_pools_def echo_pool_def
        echo_handler_def)
  have "length (Marshal (response_json ?r)) \<le> gcm_limit"
    by (simp add: Marshal_def response_json_def omitempty_def json_int_def json_strings_def
      render_string_def escape_string.simps(2) escape_char_def fmt_d_def show_nat.simps gcm_limit_def)
  with sealed_Ok [OF ce] obtain bs h' where "sealed ?r echo_handler = (Ok bs, h')" by metis
  with s HandleQuery_serve [OF rec ce] have h: "HandleQuery echo_pools ?sid ?body echo_handler = (Ok bs, h')" by simp
  have "length ?js \<le> gcm_limit"
    by (simp add: Marshal_def query_result_json_def json_int_def json_strings_def
      render_string_def escape_string.simps(2) escape_char_def fmt_d_def show_nat.simps gcm_limit_def)
  then obtain c rnd where c: "Encrypt ?js example_key example_entropy = (Ok c, rnd)"
    by (simp add: Encrypt_Ok example_entropy_def)
  have "legacy_received ?l ?body = Ok ?req" using rec by (simp add: legacy_received_def received_def k)
  from legacy_HandleQuery_received [OF this, of ?sid echo_pool]
  have "legacy_HandleQuery echo_pool ?sid (Ok ?body) ?l = legacy_run_statement echo_pool ?sid ''SELECT 1'' ?l"
    by (simp add: select_request_def byte_of_eq)
  also have "\<dots> = (Ok \<lparr>StatusCode = 200, Content = Octets, RespBody = c\<rparr>, ?l\<lparr>l_entropy := rnd\<rparr>)"
    using c by (simp add: legacy_run_statement_def legacy_executeSQL_def legacy_executeQuery_def echo_pool_def legacy_reply_def
        legacy_sqlCommandType_def sqlCommandType_def [symmetric] sqlCommandType_first_word first_word_def is_space_def ends_word_def)
  finally have l: "legacy_HandleQuery (pg_ops echo_pools) ?sid (Ok ?body) ?l =
    (Ok \<lparr>StatusCode = 200, Content = Octets, RespBody = c\<rparr>, ?l\<lparr>l_entropy := rnd\<rparr>)"
    by (simp add: echo_pools_def)
  have "same_server ?l echo_handler" by (simp add: same_server_def echo_handler_def)
  from plain_statements_agree [OF this _ _ rec _ h l]
  have "read_response example_key c = read_response example_key bs"
    by (simp add: k getSessionPool_def echo_handler_def select_request_def)
  with h l show ?thesis by (auto simp: echo_pools_def)
qed

end
