(* ===== verification/PgPool.thy ===== *)
theory PgPool
  imports PoolCore
begin

text \<open>
  The model of \<^verbatim>\<open>pkg/pgpool/pool.go\<close> and of its adapter \<^verbatim>\<open>pkg/handler/pool_adapter.go\<close>. The
  library \<^verbatim>\<open>pgxpool\<close> is the parameter \<open>pg_driver\<close>: what it does to its own state \<open>'db\<close> and
  returns when a connection is acquired, released or given a statement; the text \<open>%v\<close> gives
  for a value is its \<open>d_fmt\<close>. Each method of \<open>PoolManager\<close> is one step on the state here: the
  mutex makes it one, except for the two that run a statement, which leave the mutex before they
  use the connection (theory \<open>Interleaving\<close> takes them apart). \<open>Close\<close> ranges over a map, in an
  order that is an argument.
\<close>

section \<open>The library the pool uses\<close>

text \<open>The result of a query: field names, then what each \<open>Next\<close>/\<open>Values\<close> gives, then \<open>Err\<close>.\<close>

record 'v pg_rows =
  r_fields :: "string list"
  r_values :: "'v option list result list"
  r_err :: "goerror option"

record ('db, 'conn, 'v) pg_driver =
  d_acquire :: "'db \<Rightarrow> 'conn result \<times> 'db"
  d_release :: "'conn \<Rightarrow> 'db \<Rightarrow> 'db"
  d_query :: "'conn \<Rightarrow> string \<Rightarrow> 'db \<Rightarrow> 'v pg_rows result \<times> 'db"
  d_exec :: "'conn \<Rightarrow> string \<Rightarrow> 'db \<Rightarrow> int result \<times> 'db"
  d_stat :: "'db \<Rightarrow> PoolStats"
  d_close :: "'db \<Rightarrow> 'db"
  d_fmt :: "'v \<Rightarrow> string"

text \<open>How a pool is opened: configuration, creation, first ping.\<close>

record pg_config =
  cfg_dsn :: string
  cfg_MaxConns :: "32 word"
  cfg_MinConns :: "32 word"

record 'db pg_boot =
  b_parse :: "string \<Rightarrow> pg_config result"
  b_open :: "pg_config \<Rightarrow> 'db result"
  b_ping :: "'db \<Rightarrow> unit result \<times> 'db"

section \<open>The pool manager\<close>

record ('db, 'conn) pg_pool =
  pool :: 'db
  sessions :: "string \<Rightarrow> 'conn option"

text \<open>
  \<open>New\<close>: a non-positive limit leaves the library's default. A failed ping closes the pool
  again: no pool is left open unless \<open>New\<close> succeeds.
\<close>

definition pg_New ::
  "'db pg_boot \<Rightarrow> ('db, 'conn, 'v) pg_driver \<Rightarrow> string \<Rightarrow> 32 word \<Rightarrow> 32 word \<Rightarrow> ('db, 'conn) pg_pool result" where
  "pg_New b drv dsn maxConns minConns =
     (case wrap_err ''parse dsn'' (b_parse b dsn) of
        Ok cfg \<Rightarrow>
          (let cfg = (if sint maxConns > 0 then cfg\<lparr>cfg_MaxConns := maxConns\<rparr> else cfg);
               cfg = (if sint minConns > 0 then cfg\<lparr>cfg_MinConns := minConns\<rparr> else cfg)
           in (case wrap_err ''create pool'' (b_open b cfg) of
                 Ok db \<Rightarrow>
                   (case b_ping b db of
                      (Ok _, db') \<Rightarrow> Ok \<lparr>pool = db', sessions = Map.empty\<rparr>
                    | (Err e, db') \<Rightarrow> Err (Wrap ''ping database'' e)
                    | (Panic p, db') \<Rightarrow> Panic p)
               | Err e \<Rightarrow> Err e
               | Panic p \<Rightarrow> Panic p))
      | Err e \<Rightarrow> Err e
      | Panic p \<Rightarrow> Panic p)"

definition pg_AcquireSession ::
  "('db, 'conn, 'v) pg_driver \<Rightarrow> string \<Rightarrow> ('db, 'conn) pg_pool \<Rightarrow> unit result \<times> ('db, 'conn) pg_pool" where
  "pg_AcquireSession drv sid pm =
     (case sessions pm sid of
        Some _ \<Rightarrow> (Ok (), pm)
      | None \<Rightarrow>
          (case d_acquire drv (pool pm) of
             (Ok conn, db) \<Rightarrow> (Ok (), pm\<lparr>pool := db, sessions := (sessions pm)(sid \<mapsto> conn)\<rparr>)
           | (Err e, db) \<Rightarrow> (Err (Wrap ''acquire connection'' e), pm\<lparr>pool := db\<rparr>)
           | (Panic p, db) \<Rightarrow> (Panic p, pm\<lparr>pool := db\<rparr>)))"

definition pg_ReleaseSession ::
  "('db, 'conn, 'v) pg_driver \<Rightarrow> string \<Rightarrow> ('db, 'conn) pg_pool \<Rightarrow> ('db, 'conn) pg_pool" where
  "pg_ReleaseSession drv sid pm =
     (case sessions pm sid of
        Some conn \<Rightarrow> pm\<lparr>pool := d_release drv conn (pool pm), sessions := (sessions pm)(sid := None)\<rparr>
      | None \<Rightarrow> pm)"

definition pg_GetSessionConn :: "string \<Rightarrow> ('db, 'conn) pg_pool \<Rightarrow> 'conn option" where
  "pg_GetSessionConn sid pm = sessions pm sid"

definition pg_GetStats :: "('db, 'conn, 'v) pg_driver \<Rightarrow> ('db, 'conn) pg_pool \<Rightarrow> PoolStats" where
  "pg_GetStats drv pm =
     (let s = d_stat drv (pool pm) in
      \<lparr>TotalConns = TotalConns s, AcquiredConns = AcquiredConns s, IdleConns = IdleConns s,
       MaxConns = MaxConns s\<rparr>)"

text \<open>The loop of \<open>Close\<close>, over the sessions in the order \<open>ids\<close>.\<close>

primrec pg_close_loop ::
  "('db, 'conn, 'v) pg_driver \<Rightarrow> string list \<Rightarrow> ('db, 'conn) pg_pool \<Rightarrow> ('db, 'conn) pg_pool" where
  "pg_close_loop drv [] pm = pm"
| "pg_close_loop drv (sid # ids) pm =
     pg_close_loop drv ids
       (case sessions pm sid of
          Some conn \<Rightarrow> pm\<lparr>pool := d_release drv conn (pool pm), sessions := (sessions pm)(sid := None)\<rparr>
        | None \<Rightarrow> pm)"

definition pg_Close ::
  "('db, 'conn, 'v) pg_driver \<Rightarrow> string list \<Rightarrow> ('db, 'conn) pg_pool \<Rightarrow> ('db, 'conn) pg_pool" where
  "pg_Close drv ids pm = (let pm = pg_close_loop drv ids pm in pm\<lparr>pool := d_close drv (pool pm)\<rparr>)"

text \<open>One row: \<open>nil\<close> becomes the text \<open>NULL\<close>, any other value its \<open>%v\<close> text.\<close>

definition pg_row :: "('v \<Rightarrow> string) \<Rightarrow> 'v option list \<Rightarrow> string list" where
  "pg_row f values = map (\<lambda>v. case v of None \<Rightarrow> ''NULL'' | Some x \<Rightarrow> f x) values"

fun pg_collect :: "('v \<Rightarrow> string) \<Rightarrow> 'v option list result list \<Rightarrow> string list list \<Rightarrow> string list list result" where
  "pg_collect f [] acc = Ok acc"
| "pg_collect f (Ok values # rest) acc = pg_collect f rest (acc @ [pg_row f values])"
| "pg_collect f (Err e # rest) acc = Err (Wrap ''scan row'' e)"
| "pg_collect f (Panic p # rest) acc = Panic p"

text \<open>
  \<open>ExecSQL\<close> and \<open>ExecCommand\<close> hold the mutex only while \<open>GetSessionConn\<close> reads the map; what
  follows, on the connection it returned, is a definition of its own.
\<close>

definition pg_query_on ::
  "('db, 'conn, 'v) pg_driver \<Rightarrow> 'conn \<Rightarrow> string \<Rightarrow> ('db, 'conn) pg_pool
    \<Rightarrow> QueryResult result \<times> ('db, 'conn) pg_pool" where
  "pg_query_on drv conn sql pm =
     (case d_query drv conn sql (pool pm) of
        (Err e, db) \<Rightarrow> (Err (Wrap ''query failed'' e), pm\<lparr>pool := db\<rparr>)
      | (Panic p, db) \<Rightarrow> (Panic p, pm\<lparr>pool := db\<rparr>)
      | (Ok rows, db) \<Rightarrow>
          (rbind (pg_collect (d_fmt drv) (r_values rows) []) (\<lambda>rs.
             case r_err rows of
               Some e \<Rightarrow> Err (Wrap ''rows iteration'' e)
             | None \<Rightarrow> Ok \<lparr>q_Columns = r_fields rows, q_Rows = rs, q_RowsAffected = 0\<rparr>),
           pm\<lparr>pool := db\<rparr>))"

definition pg_ExecSQL ::
  "('db, 'conn, 'v) pg_driver \<Rightarrow> string \<Rightarrow> string \<Rightarrow> ('db, 'conn) pg_pool
    \<Rightarrow> QueryResult result \<times> ('db, 'conn) pg_pool" where
  "pg_ExecSQL drv sid sql pm =
     (case pg_GetSessionConn sid pm of
        None \<Rightarrow> (Err (session_not_found sid), pm)
      | Some conn \<Rightarrow> pg_query_on drv conn sql pm)"

definition pg_command_on ::
  "('db, 'conn, 'v) pg_driver \<Rightarrow> 'conn \<Rightarrow> string \<Rightarrow> ('db, 'conn) pg_pool
    \<Rightarrow> int result \<times> ('db, 'conn) pg_pool" where
  "pg_command_on drv conn sql pm =
     (case d_exec drv conn sql (pool pm) of
        (r, db) \<Rightarrow> (wrap_err ''exec failed'' r, pm\<lparr>pool := db\<rparr>))"

definition pg_ExecCommand ::
  "('db, 'conn, 'v) pg_driver \<Rightarrow> string \<Rightarrow> string \<Rightarrow> ('db, 'conn) pg_pool
    \<Rightarrow> int result \<times> ('db, 'conn) pg_pool" where
  "pg_ExecCommand drv sid sql pm =
     (case pg_GetSessionConn sid pm of
        None \<Rightarrow> (Err (session_not_found sid), pm)
      | Some conn \<Rightarrow> pg_command_on drv conn sql pm)"

lemma pg_query_on_sessions [simp]: "sessions (snd (pg_query_on drv conn sql pm)) = sessions pm"
  by (simp add: pg_query_on_def split: prod.split result.split)

lemma pg_command_on_sessions [simp]: "sessions (snd (pg_command_on drv conn sql pm)) = sessions pm"
  by (simp add: pg_command_on_def split: prod.split)

section \<open>The adapter to the handler's interface\<close>

definition pgPoolAdapter :: "('db, 'conn, 'v) pg_driver \<Rightarrow> ('db, 'conn) pg_pool Pool" where
  "pgPoolAdapter drv =
     \<lparr>AcquireSession = pg_AcquireSession drv,
      ReleaseSession = pg_ReleaseSession drv,
      GetStats = pg_GetStats drv,
      ExecSQL = pg_ExecSQL drv,
      ExecCommand = pg_ExecCommand drv\<rparr>"

interpretation pg: session_pool "pgPoolAdapter drv" "\<lambda>pm. dom (sessions pm)" for drv
proof
  fix s p u p'
  show "AcquireSession (pgPoolAdapter drv) s p = (Ok u, p') \<Longrightarrow> dom (sessions p') = insert s (dom (sessions p))"
    by (auto simp: pgPoolAdapter_def pg_AcquireSession_def split: option.splits prod.splits result.splits)
next
  fix s p r p'
  show "AcquireSession (pgPoolAdapter drv) s p = (r, p') \<Longrightarrow> r \<noteq> Ok () \<Longrightarrow> dom (sessions p') = dom (sessions p)"
    by (auto simp: pgPoolAdapter_def pg_AcquireSession_def split: option.splits prod.splits result.splits)
qed (auto simp: pgPoolAdapter_def pg_AcquireSession_def pg_ReleaseSession_def pg_ExecSQL_def
    pg_ExecCommand_def pg_GetSessionConn_def split: option.splits prod.splits result.splits)

section \<open>Every session has a connection of its own\<close>

text \<open>
  What \<^verbatim>\<open>pgxpool\<close> documents of a pool, over the set \<open>out\<close> of the connections it has given out:
  \<open>Acquire\<close> gives a connection that is not in use, \<open>Release\<close> takes it back, and running a
  statement does neither.
\<close>

definition pg_driver_ok :: "('db, 'conn, 'v) pg_driver \<Rightarrow> ('db \<Rightarrow> 'conn set) \<Rightarrow> bool" where
  "pg_driver_ok drv out \<longleftrightarrow>
     (\<forall>db. case d_acquire drv db of
        (Ok c, db') \<Rightarrow> c \<notin> out db \<and> out db' = insert c (out db)
      | (_, db') \<Rightarrow> out db' = out db) \<and>
     (\<forall>c db. out (d_release drv c db) = out db - {c}) \<and>
     (\<forall>c q db. out (snd (d_query drv c q db)) = out db) \<and>
     (\<forall>c q db. out (snd (d_exec drv c q db)) = out db)"

lemma pg_driver_okD:
  assumes "pg_driver_ok drv out"
  shows "d_acquire drv db = (Ok c, db') \<Longrightarrow> c \<notin> out db"
    and "d_acquire drv db = (Ok c, db') \<Longrightarrow> out db' = insert c (out db)"
    and "d_acquire drv db = (Err e, db') \<Longrightarrow> out db' = out db"
    and "d_acquire drv db = (Panic p, db') \<Longrightarrow> out db' = out db"
    and "out (d_release drv c db) = out db - {c}"
    and "d_query drv c q db = (r, db') \<Longrightarrow> out db' = out db"
    and "d_exec drv c q db = (r', db') \<Longrightarrow> out db' = out db"
proof -
  have acq: "case d_acquire drv db of
      (Ok c, db') \<Rightarrow> c \<notin> out db \<and> out db' = insert c (out db) | (_, db') \<Rightarrow> out db' = out db"
    using assms by (simp add: pg_driver_ok_def)
  show "d_acquire drv db = (Ok c, db') \<Longrightarrow> c \<notin> out db"
    "d_acquire drv db = (Ok c, db') \<Longrightarrow> out db' = insert c (out db)"
    "d_acquire drv db = (Err e, db') \<Longrightarrow> out db' = out db"
    "d_acquire drv db = (Panic p, db') \<Longrightarrow> out db' = out db"
    using acq by simp_all
  show "out (d_release drv c db) = out db - {c}" using assms by (simp add: pg_driver_ok_def)
  have "out (snd (d_query drv c q db)) = out db" "out (snd (d_exec drv c q db)) = out db"
    using assms by (simp_all add: pg_driver_ok_def)
  then show "d_query drv c q db = (r, db') \<Longrightarrow> out db' = out db"
    "d_exec drv c q db = (r', db') \<Longrightarrow> out db' = out db" by simp_all
qed

definition pg_inv :: "('db \<Rightarrow> 'conn set) \<Rightarrow> ('db, 'conn) pg_pool \<Rightarrow> bool" where
  "pg_inv out pm = dedicated (sessions pm) (out (pool pm))"

lemma pg_acquire_inv:
  "pg_driver_ok drv out \<Longrightarrow> pg_inv out pm \<Longrightarrow> pg_inv out (snd (pg_AcquireSession drv sid pm))"
  by (auto simp: pg_AcquireSession_def pg_inv_def pg_driver_okD(2-4) intro: dedicated_insert
      split: option.splits prod.splits result.splits dest: pg_driver_okD(1))

lemma pg_release_inv:
  "pg_driver_ok drv out \<Longrightarrow> pg_inv out pm \<Longrightarrow> pg_inv out (pg_ReleaseSession drv sid pm)"
  by (auto simp: pg_ReleaseSession_def pg_inv_def pg_driver_okD(5) intro: dedicated_remove
      split: option.splits)

lemma pg_query_on_inv:
  "pg_driver_ok drv out \<Longrightarrow> pg_inv out pm \<Longrightarrow> pg_inv out (snd (pg_query_on drv conn q pm))"
  by (auto simp: pg_query_on_def pg_inv_def dest: pg_driver_okD(6) split: prod.splits result.splits)

lemma pg_command_on_inv:
  "pg_driver_ok drv out \<Longrightarrow> pg_inv out pm \<Longrightarrow> pg_inv out (snd (pg_command_on drv conn q pm))"
  by (auto simp: pg_command_on_def pg_inv_def dest: pg_driver_okD(7) split: prod.splits)

lemma pg_query_inv:
  "pg_driver_ok drv out \<Longrightarrow> pg_inv out pm \<Longrightarrow> pg_inv out (snd (pg_ExecSQL drv sid q pm))"
  by (simp add: pg_ExecSQL_def pg_query_on_inv split: option.split)

lemma pg_command_inv:
  "pg_driver_ok drv out \<Longrightarrow> pg_inv out pm \<Longrightarrow> pg_inv out (snd (pg_ExecCommand drv sid q pm))"
  by (simp add: pg_ExecCommand_def pg_command_on_inv split: option.split)

lemma pg_step_inv:
  "pg_driver_ok drv out \<Longrightarrow> pg_inv out pm \<Longrightarrow> pg_inv out (pool_step (pgPoolAdapter drv) x pm)"
  by (cases x) (simp_all add: pgPoolAdapter_def pg_acquire_inv pg_release_inv pg_query_inv pg_command_inv)

lemma pg_run_inv:
  "pg_driver_ok drv out \<Longrightarrow> pg_inv out pm \<Longrightarrow> pg_inv out (pool_run (pgPoolAdapter drv) xs pm)"
  by (induction xs arbitrary: pm) (simp_all add: pg_step_inv)

lemma pg_close_loop_is_run:
  "pg_close_loop drv ids pm = pool_run (pgPoolAdapter drv) (map Release ids) pm"
  by (induction ids arbitrary: pm) (simp_all add: pgPoolAdapter_def pg_ReleaseSession_def)

lemma pg_run_Release_dom:
  "dom (sessions (pool_run (pgPoolAdapter drv) (map Release ids) pm)) = dom (sessions pm) - set ids"
  by (induction ids arbitrary: pm) (auto simp: pg.release_holds)

text \<open>
  Whatever sequence of acquires, releases and statements a PostgreSQL pool has gone
  through, no two sessions share a connection, the connections taken from \<^verbatim>\<open>pgxpool\<close> are
  exactly those of the open sessions (none leaks, none is returned while in use), and closing
  the pool gives every one of them back.
\<close>

theorem pg_dedicated_connections:
  assumes "pg_driver_ok drv out" and "out db = {}"
    and "pm = pool_run (pgPoolAdapter drv) xs \<lparr>pool = db, sessions = Map.empty\<rparr>"
  shows "inj_on (sessions pm) (dom (sessions pm)) \<and> ran (sessions pm) = out (pool pm)
    \<and> (set ids = dom (sessions pm) \<longrightarrow> out (pool (pg_close_loop drv ids pm)) = {})"
proof -
  have inv: "pg_inv out pm"
    using pg_run_inv [OF assms(1), of "\<lparr>pool = db, sessions = Map.empty\<rparr>" xs] assms
    by (simp add: pg_inv_def)
  have "out (pool (pg_close_loop drv ids pm)) = {}" if "set ids = dom (sessions pm)"
  proof -
    have "pg_inv out (pg_close_loop drv ids pm)"
      using pg_run_inv [OF assms(1) inv] by (simp add: pg_close_loop_is_run)
    moreover have "dom (sessions (pg_close_loop drv ids pm)) = {}"
      using that by (simp add: pg_close_loop_is_run pg_run_Release_dom)
    ultimately show ?thesis unfolding pg_inv_def by (rule dedicated_dom_empty)
  qed
  with inv show ?thesis by (simp add: pg_inv_def dedicated_def)
qed

section \<open>Results of queries\<close>

lemma pg_collect_ok: "pg_collect f (map Ok vss) acc = Ok (acc @ map (pg_row f) vss)"
  by (induction vss arbitrary: acc) auto

lemma pg_collect_error:
  "pg_collect f (map Ok vss @ Err e # rest) acc = Err (Wrap ''scan row'' e)"
  by (induction vss arbitrary: acc) auto

text \<open>
  A query on an open session returns every row the database gives, in order, each value as
  its \<open>%v\<close> text and \<open>nil\<close> as \<open>NULL\<close>; a row that cannot be read or an error after the last
  row fails the whole query.
\<close>

theorem pg_ExecSQL_result:
  assumes "sessions pm sid = Some conn"
    and "d_query drv conn sql (pool pm) = (Ok \<lparr>r_fields = cols, r_values = vs, r_err = e\<rparr>, db)"
  shows "(vs = map Ok vss \<and> e = None \<longrightarrow>
      pg_ExecSQL drv sid sql pm =
        (Ok \<lparr>q_Columns = cols, q_Rows = map (map (case_option ''NULL'' (d_fmt drv))) vss, q_RowsAffected = 0\<rparr>,
         pm\<lparr>pool := db\<rparr>))
    \<and> (vs = map Ok vss @ Err x # rest \<longrightarrow>
      pg_ExecSQL drv sid sql pm = (Err (Wrap ''scan row'' x), pm\<lparr>pool := db\<rparr>))
    \<and> (vs = map Ok vss \<and> e = Some x \<longrightarrow>
      pg_ExecSQL drv sid sql pm = (Err (Wrap ''rows iteration'' x), pm\<lparr>pool := db\<rparr>))"
  using assms
  by (auto simp: pg_ExecSQL_def pg_query_on_def pg_GetSessionConn_def pg_collect_ok pg_collect_error pg_row_def)

section \<open>Witnesses\<close>

text \<open>
  A small driver: its state lists the connections in use, \<open>Acquire\<close> gives a number not in the
  list, and every query returns one row, a number and a null.
\<close>

definition list_driver :: "(nat list, nat, nat) pg_driver" where
  "list_driver =
     \<lparr>d_acquire = (\<lambda>db. (Ok (Suc (sum_list db)), Suc (sum_list db) # db)),
      d_release = (\<lambda>c db. filter (\<lambda>x. x \<noteq> c) db),
      d_query = (\<lambda>c q db. (Ok \<lparr>r_fields = [''a'', ''b''], r_values = [Ok [Some 7, None]], r_err = None\<rparr>, db)),
      d_exec = (\<lambda>c q db. (Ok 1, db)),
      d_stat = (\<lambda>db. \<lparr>TotalConns = 0, AcquiredConns = word_of_nat (length db), IdleConns = 0, MaxConns = 20\<rparr>),
      d_close = (\<lambda>db. db),
      d_fmt = show_nat\<rparr>"

lemma list_driver_ok: "pg_driver_ok list_driver set"
proof -
  have "Suc (sum_list db) \<notin> set db" for db :: "nat list"
    using member_le_sum_list [of "Suc (sum_list db)" db] by auto
  then show ?thesis by (auto simp: pg_driver_ok_def list_driver_def)
qed

definition example_pool :: "(nat list, nat) pg_pool" where
  "example_pool = pool_run (pgPoolAdapter list_driver) [Acquire ''a'', Acquire ''b'', Release ''a'']
     \<lparr>pool = [], sessions = Map.empty\<rparr>"

theorem pg_dedicated_connections_witness:
  "pg_driver_ok list_driver set \<and> ran (sessions example_pool) = {2}
   \<and> set (pool example_pool) = {2} \<and> set (pool (pg_close_loop list_driver [''b''] example_pool)) = {}"
proof -
  have s: "sessions example_pool = [''b'' \<mapsto> 2]"
    by (simp add: example_pool_def pgPoolAdapter_def pg_AcquireSession_def pg_ReleaseSession_def
        list_driver_def fun_eq_iff)
  from pg_dedicated_connections [OF list_driver_ok _ example_pool_def, of "[''b'']"] s
  show ?thesis by (simp add: list_driver_ok)
qed

theorem pg_ExecSQL_result_witness:
  "pg_ExecSQL list_driver ''s'' ''SELECT'' \<lparr>pool = [1], sessions = [''s'' \<mapsto> 1]\<rparr> =
    (Ok \<lparr>q_Columns = [''a'', ''b''], q_Rows = [[''7'', ''NULL'']], q_RowsAffected = 0\<rparr>,
     \<lparr>pool = [1], sessions = [''s'' \<mapsto> 1]\<rparr>)"
proof -
  have h: "sessions \<lparr>pool = [1 :: nat], sessions = [''s'' \<mapsto> (1 :: nat)]\<rparr> ''s'' = Some 1"
    "d_query list_driver 1 ''SELECT'' (pool \<lparr>pool = [1 :: nat], sessions = [''s'' \<mapsto> (1 :: nat)]\<rparr>) =
     (Ok \<lparr>r_fields = [''a'', ''b''], r_values = [Ok [Some 7, None]], r_err = None\<rparr>, [1])"
    by (simp_all add: list_driver_def)
  from pg_ExecSQL_result [OF h, of "[[Some 7, None]]" "EOF" "[]"]
  show ?thesis by (simp add: list_driver_def show_nat.simps)
qed

end
