(* ===== verification/MyPool.thy ===== *)
theory MyPool
  imports PoolCore
begin

text \<open>
  The model of \<^verbatim>\<open>pkg/mysqlpool/pool.go\<close>: the MySQL connection pool, which is itself a handler
  \<open>Pool\<close>, and the translation of a \<^verbatim>\<open>mysql://\<close> URL to the driver's own DSN form. The database
  behind \<^verbatim>\<open>database/sql\<close> is the parameter \<open>my_driver\<close>. A scanned value is SQL NULL, a
  \<open>[]byte\<close> or a value of the driver whose \<open>%v\<close> text is \<open>m_fmt\<close>. Each method is one step
  on the state here; the two that run a statement leave the manager's mutex before they use the
  connection, as in the other pool.
\<close>

section \<open>The database the pool uses\<close>

record 'v my_rows =
  s_columns :: "string list result"
  s_scan :: "(byte list + 'v) option list result list"
  s_err :: "goerror option"

record my_stats =
  OpenConnections :: int
  InUse :: int
  Idle :: int

record ('db, 'conn, 'v) my_driver =
  m_conn :: "'db \<Rightarrow> 'conn result \<times> 'db"
  m_release :: "'conn \<Rightarrow> 'db \<Rightarrow> 'db"
  m_query :: "'conn \<Rightarrow> string \<Rightarrow> 'db \<Rightarrow> 'v my_rows result \<times> 'db"
  m_exec :: "'conn \<Rightarrow> string \<Rightarrow> 'db \<Rightarrow> int result result \<times> 'db"
  m_stats :: "'db \<Rightarrow> my_stats"
  m_close :: "'db \<Rightarrow> 'db"
  m_fmt :: "'v \<Rightarrow> string"

text \<open>How the database is opened: \<open>sql.Open\<close>, the two limits, \<open>Ping\<close>.\<close>

record 'db my_boot =
  o_open :: "string \<Rightarrow> 'db result"
  o_limits :: "int \<Rightarrow> int \<Rightarrow> 'db \<Rightarrow> 'db"
  o_ping :: "'db \<Rightarrow> unit result \<times> 'db"

section \<open>The DSN\<close>

primrec index_of :: "char \<Rightarrow> string \<Rightarrow> nat option" where
  "index_of c [] = None"
| "index_of c (x # xs) = (if x = c then Some 0 else map_option Suc (index_of c xs))"

definition last_index_of :: "char \<Rightarrow> string \<Rightarrow> nat option" where
  "last_index_of c s = map_option (\<lambda>i. length s - 1 - i) (index_of c (rev s))"

definition has_prefix :: "string \<Rightarrow> string \<Rightarrow> bool" where
  "has_prefix p s = (take (length p) s = p)"

text \<open>\<open>url.QueryUnescape\<close>: \<open>%XY\<close> is a byte, \<open>+\<close> a blank; \<open>None\<close> is its escape error.\<close>

definition hex_value :: "char \<Rightarrow> nat option" where
  "hex_value c =
     (let n = of_char c in
      if 48 \<le> n \<and> n \<le> 57 then Some (n - 48)
      else if 97 \<le> n \<and> n \<le> 102 then Some (n - 87)
      else if 65 \<le> n \<and> n \<le> 70 then Some (n - 55)
      else None)"

fun QueryUnescape :: "string \<Rightarrow> string option" where
  "QueryUnescape [] = Some []"
| "QueryUnescape (c # s) =
     (if c = CHR ''%'' then
        (case s of
           a # b # r \<Rightarrow>
             (case (hex_value a, hex_value b) of
                (Some x, Some y) \<Rightarrow> map_option (Cons (char_of (16 * x + y))) (QueryUnescape r)
              | _ \<Rightarrow> None)
         | _ \<Rightarrow> None)
      else map_option (Cons (if c = CHR ''+'' then CHR '' '' else c)) (QueryUnescape s))"

text \<open>\<open>parseMySQLDSN\<close>; the quoted DSN at the end of its two error texts is left out.\<close>

definition parseMySQLDSN :: "string \<Rightarrow> string result" where
  "parseMySQLDSN dsn =
     (if \<not> has_prefix ''mysql://'' dsn then Ok dsn
      else
        (let trimmed = drop (length ''mysql://'') dsn in
         case last_index_of CHR ''@'' trimmed of
           None \<Rightarrow> Err (ErrorS ''invalid MySQL DSN: missing '@' separator'')
         | Some atIdx \<Rightarrow>
             (let userInfo = take atIdx trimmed; hostPart = drop (atIdx + 1) trimmed in
              case index_of CHR ''/'' hostPart of
                None \<Rightarrow> Err (ErrorS ''invalid MySQL DSN: missing database name'')
              | Some slashIdx \<Rightarrow>
                  (let hostAndPort = take slashIdx hostPart;
                       dbAndParams = drop (slashIdx + 1) hostPart;
                       (dbName, params) =
                         (case index_of CHR ''?'' dbAndParams of
                            Some qIdx \<Rightarrow> (take qIdx dbAndParams, drop qIdx dbAndParams)
                          | None \<Rightarrow> (dbAndParams, []));
                       hostAndPort =
                         (if index_of CHR '':'' hostAndPort = None then hostAndPort @ '':3306''
                          else hostAndPort);
                       decodedUserInfo =
                         (case QueryUnescape userInfo of Some u \<Rightarrow> u | None \<Rightarrow> userInfo)
                   in Ok (decodedUserInfo @ ''@tcp('' @ hostAndPort @ '')/'' @ dbName @ params)))))"

section \<open>The pool manager\<close>

record ('db, 'conn) my_pool =
  my_db :: "'db option"
  my_sessions :: "string \<Rightarrow> 'conn option"
  my_maxConns :: "32 word"

definition my_New ::
  "'db my_boot \<Rightarrow> ('db, 'conn, 'v) my_driver \<Rightarrow> string \<Rightarrow> 32 word \<Rightarrow> 32 word \<Rightarrow> ('db, 'conn) my_pool result" where
  "my_New b drv rawDSN maxConns minConns =
     rbind (wrap_err ''parse dsn'' (parseMySQLDSN rawDSN)) (\<lambda>dsn.
     rbind (wrap_err ''open db'' (o_open b dsn)) (\<lambda>db.
     let db = o_limits b (sint maxConns) (sint minConns) db in
     (case o_ping b db of
        (Ok _, db') \<Rightarrow> Ok \<lparr>my_db = Some db', my_sessions = Map.empty, my_maxConns = maxConns\<rparr>
      | (Err e, db') \<Rightarrow> Err (Wrap ''ping database'' e)
      | (Panic p, db') \<Rightarrow> Panic p)))"

definition my_AcquireSession ::
  "('db, 'conn, 'v) my_driver \<Rightarrow> string \<Rightarrow> ('db, 'conn) my_pool \<Rightarrow> unit result \<times> ('db, 'conn) my_pool" where
  "my_AcquireSession drv sid pm =
     (case my_sessions pm sid of
        Some _ \<Rightarrow> (Ok (), pm)
      | None \<Rightarrow>
          (case my_db pm of
             None \<Rightarrow> (Panic PNil, pm)
           | Some db \<Rightarrow>
               (case m_conn drv db of
                  (Ok conn, db') \<Rightarrow>
                    (Ok (), pm\<lparr>my_db := Some db', my_sessions := (my_sessions pm)(sid \<mapsto> conn)\<rparr>)
                | (Err e, db') \<Rightarrow> (Err (Wrap ''acquire connection'' e), pm\<lparr>my_db := Some db'\<rparr>)
                | (Panic p, db') \<Rightarrow> (Panic p, pm\<lparr>my_db := Some db'\<rparr>))))"

definition my_ReleaseSession ::
  "('db, 'conn, 'v) my_driver \<Rightarrow> string \<Rightarrow> ('db, 'conn) my_pool \<Rightarrow> ('db, 'conn) my_pool" where
  "my_ReleaseSession drv sid pm =
     (case my_sessions pm sid of
        Some conn \<Rightarrow> pm\<lparr>my_db := map_option (m_release drv conn) (my_db pm),
                        my_sessions := (my_sessions pm)(sid := None)\<rparr>
      | None \<Rightarrow> pm)"

definition my_GetStats :: "('db, 'conn, 'v) my_driver \<Rightarrow> ('db, 'conn) my_pool \<Rightarrow> PoolStats" where
  "my_GetStats drv pm =
     (case my_db pm of
        None \<Rightarrow> \<lparr>TotalConns = 0, AcquiredConns = 0, IdleConns = 0, MaxConns = my_maxConns pm\<rparr>
      | Some db \<Rightarrow>
          (let stats = m_stats drv db in
           \<lparr>TotalConns = word_of_int (OpenConnections stats), AcquiredConns = word_of_int (InUse stats),
            IdleConns = word_of_int (Idle stats), MaxConns = my_maxConns pm\<rparr>))"

text \<open>The loop of \<open>Close\<close>, over the sessions in the order \<open>ids\<close>.\<close>

primrec my_close_loop ::
  "('db, 'conn, 'v) my_driver \<Rightarrow> string list \<Rightarrow> ('db, 'conn) my_pool \<Rightarrow> ('db, 'conn) my_pool" where
  "my_close_loop drv [] pm = pm"
| "my_close_loop drv (sid # ids) pm =
     my_close_loop drv ids
       (case my_sessions pm sid of
          Some conn \<Rightarrow> pm\<lparr>my_db := map_option (m_release drv conn) (my_db pm),
                          my_sessions := (my_sessions pm)(sid := None)\<rparr>
        | None \<Rightarrow> pm)"

definition my_Close ::
  "('db, 'conn, 'v) my_driver \<Rightarrow> string list \<Rightarrow> ('db, 'conn) my_pool \<Rightarrow> ('db, 'conn) my_pool" where
  "my_Close drv ids pm = (let pm = my_close_loop drv ids pm in pm\<lparr>my_db := map_option (m_close drv) (my_db pm)\<rparr>)"

text \<open>One value: \<open>nil\<close> is the text \<open>NULL\<close>, a \<open>[]byte\<close> its bytes, another value its \<open>%v\<close> text.\<close>

definition my_value :: "('v \<Rightarrow> string) \<Rightarrow> (byte list + 'v) option \<Rightarrow> string" where
  "my_value f v = (case v of None \<Rightarrow> ''NULL'' | Some (Inl bs) \<Rightarrow> string_of bs | Some (Inr x) \<Rightarrow> f x)"

fun my_collect ::
  "('v \<Rightarrow> string) \<Rightarrow> (byte list + 'v) option list result list \<Rightarrow> string list list \<Rightarrow> string list list result" where
  "my_collect f [] acc = Ok acc"
| "my_collect f (Ok values # rest) acc = my_collect f rest (acc @ [map (my_value f) values])"
| "my_collect f (Err e # rest) acc = Err (Wrap ''scan row'' e)"
| "my_collect f (Panic p # rest) acc = Panic p"

definition my_getSessionConn :: "string \<Rightarrow> ('db, 'conn) my_pool \<Rightarrow> 'conn result" where
  "my_getSessionConn sid pm =
     (case my_sessions pm sid of None \<Rightarrow> Err (session_not_found sid) | Some conn \<Rightarrow> Ok conn)"

text \<open>A connection in the map without a database does not occur: both come from the same \<open>New\<close>.\<close>

definition my_query_on ::
  "('db, 'conn, 'v) my_driver \<Rightarrow> 'conn \<Rightarrow> string \<Rightarrow> ('db, 'conn) my_pool
    \<Rightarrow> QueryResult result \<times> ('db, 'conn) my_pool" where
  "my_query_on drv conn sql pm =
     (case my_db pm of
        None \<Rightarrow> (Panic PNil, pm)
      | Some db \<Rightarrow>
          (case m_query drv conn sql db of
             (Err e, db') \<Rightarrow> (Err (Wrap ''query failed'' e), pm\<lparr>my_db := Some db'\<rparr>)
           | (Panic p, db') \<Rightarrow> (Panic p, pm\<lparr>my_db := Some db'\<rparr>)
           | (Ok rows, db') \<Rightarrow>
               (rbind (wrap_err ''get columns'' (s_columns rows)) (\<lambda>columns.
                rbind (my_collect (m_fmt drv) (s_scan rows) []) (\<lambda>rs.
                  case s_err rows of
                    Some e \<Rightarrow> Err (Wrap ''rows iteration'' e)
                  | None \<Rightarrow> Ok \<lparr>q_Columns = columns, q_Rows = rs, q_RowsAffected = 0\<rparr>)),
                pm\<lparr>my_db := Some db'\<rparr>)))"

definition my_ExecSQL ::
  "('db, 'conn, 'v) my_driver \<Rightarrow> string \<Rightarrow> string \<Rightarrow> ('db, 'conn) my_pool
    \<Rightarrow> QueryResult result \<times> ('db, 'conn) my_pool" where
  "my_ExecSQL drv sid sql pm =
     (case my_getSessionConn sid pm of
        Err e \<Rightarrow> (Err e, pm)
      | Panic p \<Rightarrow> (Panic p, pm)
      | Ok conn \<Rightarrow> my_query_on drv conn sql pm)"

definition my_command_on ::
  "('db, 'conn, 'v) my_driver \<Rightarrow> 'conn \<Rightarrow> string \<Rightarrow> ('db, 'conn) my_pool
    \<Rightarrow> int result \<times> ('db, 'conn) my_pool" where
  "my_command_on drv conn sql pm =
     (case my_db pm of
        None \<Rightarrow> (Panic PNil, pm)
      | Some db \<Rightarrow>
          (case m_exec drv conn sql db of
             (r, db') \<Rightarrow> (rbind (wrap_err ''exec failed'' r) (\<lambda>n. n), pm\<lparr>my_db := Some db'\<rparr>)))"

definition my_ExecCommand ::
  "('db, 'conn, 'v) my_driver \<Rightarrow> string \<Rightarrow> string \<Rightarrow> ('db, 'conn) my_pool
    \<Rightarrow> int result \<times> ('db, 'conn) my_pool" where
  "my_ExecCommand drv sid sql pm =
     (case my_getSessionConn sid pm of
        Err e \<Rightarrow> (Err e, pm)
      | Panic p \<Rightarrow> (Panic p, pm)
      | Ok conn \<Rightarrow> my_command_on drv conn sql pm)"

lemma my_query_on_sessions [simp]: "my_sessions (snd (my_query_on drv conn sql pm)) = my_sessions pm"
  by (simp add: my_query_on_def split: option.split prod.split result.split)

lemma my_command_on_sessions [simp]: "my_sessions (snd (my_command_on drv conn sql pm)) = my_sessions pm"
  by (simp add: my_command_on_def split: option.split prod.split)

definition mysqlPoolOps :: "('db, 'conn, 'v) my_driver \<Rightarrow> ('db, 'conn) my_pool Pool" where
  "mysqlPoolOps drv =
     \<lparr>AcquireSession = my_AcquireSession drv,
      ReleaseSession = my_ReleaseSession drv,
      GetStats = my_GetStats drv,
      ExecSQL = my_ExecSQL drv,
      ExecCommand = my_ExecCommand drv\<rparr>"

interpretation my: session_pool "mysqlPoolOps drv" "\<lambda>pm. dom (my_sessions pm)" for drv
proof
  fix s p u p'
  show "AcquireSession (mysqlPoolOps drv) s p = (Ok u, p') \<Longrightarrow> dom (my_sessions p') = insert s (dom (my_sessions p))"
    by (auto simp: mysqlPoolOps_def my_AcquireSession_def split: option.splits prod.splits result.splits)
next
  fix s p r p'
  show "AcquireSession (mysqlPoolOps drv) s p = (r, p') \<Longrightarrow> r \<noteq> Ok () \<Longrightarrow> dom (my_sessions p') = dom (my_sessions p)"
    by (auto simp: mysqlPoolOps_def my_AcquireSession_def split: option.splits prod.splits result.splits)
qed (auto simp: mysqlPoolOps_def my_AcquireSession_def my_ReleaseSession_def my_ExecSQL_def
    my_ExecCommand_def my_getSessionConn_def split: option.splits prod.splits result.splits)

section \<open>Translating a DSN\<close>

lemma index_of_None_iff: "index_of c s = None \<longleftrightarrow> c \<notin> set s"
  by (induction s) auto

lemma index_of_first: "c \<notin> set a \<Longrightarrow> index_of c (a @ c # b) = Some (length a)"
  by (induction a) auto

lemma index_of_split: "index_of c s = Some i \<Longrightarrow> s = take i s @ c # drop (Suc i) s"
  by (induction s arbitrary: i) (auto split: if_splits)

lemma last_index_of_None_iff: "last_index_of c s = None \<longleftrightarrow> c \<notin> set s"
  by (simp add: last_index_of_def index_of_None_iff)

lemma last_index_of_last:
  assumes "c \<notin> set b"
  shows "last_index_of c (a @ c # b) = Some (length a)"
proof -
  have "index_of c (rev b @ c # rev a) = Some (length b)"
    using index_of_first [of c "rev b" "rev a"] assms by simp
  then show ?thesis by (simp add: last_index_of_def)
qed

lemma has_prefix_append [simp]: "has_prefix p (p @ s)"
  by (simp add: has_prefix_def)

text \<open>The form of the result, the split at \<open>?\<close> having no effect on it.\<close>

lemma parseMySQLDSN_url:
  assumes "CHR ''@'' \<notin> set host" "CHR ''@'' \<notin> set rest" "CHR ''/'' \<notin> set host"
  shows "parseMySQLDSN (''mysql://'' @ user @ ''@'' @ host @ ''/'' @ rest) =
    Ok ((case QueryUnescape user of Some u \<Rightarrow> u | None \<Rightarrow> user) @ ''@tcp('' @
        (if CHR '':'' \<in> set host then host else host @ '':3306'') @ '')/'' @ rest)"
proof -
  let ?t = "user @ CHR ''@'' # host @ CHR ''/'' # rest"
  have at: "last_index_of CHR ''@'' ?t = Some (length user)"
    by (rule last_index_of_last) (use assms in simp)
  have slash: "index_of CHR ''/'' (host @ CHR ''/'' # rest) = Some (length host)"
    by (rule index_of_first) (rule assms(3))
  have port: "(index_of CHR '':'' host = None) = (CHR '':'' \<notin> set host)"
    by (rule index_of_None_iff)
  have pre: "has_prefix ''mysql://'' (''mysql://'' @ ?t)" by (rule has_prefix_append)
  have drp: "drop (length ''mysql://'') (''mysql://'' @ ?t) = ?t" by simp
  show ?thesis
    using pre drp
    by (auto simp: parseMySQLDSN_def Let_def at slash port split: option.splits)
qed

text \<open>A reference encoder for user names and passwords: every byte is written \<open>%XY\<close>.\<close>

definition percent_encode :: "string \<Rightarrow> string" where
  "percent_encode s = concat (map (\<lambda>c. [CHR ''%'', hex_digit (of_char c div 16), hex_digit (of_char c mod 16)]) s)"

lemma hex_value_hex_digit: "n < 16 \<Longrightarrow> hex_value (hex_digit n) = Some n"
  by (auto simp: hex_value_def hex_digit_def Let_def)

lemma of_char_bound: "(of_char c :: nat) < 256"
  by simp

lemma QueryUnescape_percent: "QueryUnescape (percent_encode s @ t) = map_option ((@) s) (QueryUnescape t)"
proof (induction s)
  case Nil
  then show ?case by (simp add: percent_encode_def option.map_ident)
next
  case (Cons c s)
  have "(of_char c :: nat) div 16 < 16" using of_char_bound [of c] by linarith
  with Cons show ?case
    by (simp add: percent_encode_def hex_value_hex_digit option.map_comp o_def)
qed

lemma percent_encode_safe: "CHR ''@'' \<notin> set (percent_encode s)"
proof -
  have "hex_digit n \<noteq> CHR ''@''" if "n < 16" for n
    using hex_value_hex_digit [OF that] by (auto simp: hex_value_def)
  moreover have "(of_char d :: nat) div 16 < 16" for d using of_char_bound [of d] by linarith
  ultimately show ?thesis
    by (auto simp: percent_encode_def) (metis mod_less_divisor zero_less_numeral)+
qed

text \<open>
  A MySQL URL whose user name and password are percent-encoded yields the driver's DSN for
  exactly that user, password, host, database and parameters, whatever characters the password
  has; the port defaults to 3306.
\<close>

theorem parseMySQLDSN_credentials:
  assumes "CHR ''@'' \<notin> set (host @ rest)" and "CHR ''/'' \<notin> set host"
  shows "parseMySQLDSN (''mysql://'' @ percent_encode user @ '':'' @ percent_encode pass @ ''@'' @
      host @ ''/'' @ rest) =
    Ok (user @ '':'' @ pass @ ''@tcp('' @ (if CHR '':'' \<in> set host then host else host @ '':3306'') @
      '')/'' @ rest)"
proof -
  have "QueryUnescape (percent_encode user @ '':'' @ percent_encode pass) = Some (user @ '':'' @ pass)"
    using QueryUnescape_percent [of pass "[]"] by (simp add: QueryUnescape_percent)
  with parseMySQLDSN_url [of host rest "percent_encode user @ '':'' @ percent_encode pass"] assms
  show ?thesis by simp
qed

text \<open>
  A DSN is refused exactly when it is a \<^verbatim>\<open>mysql://\<close> URL with no \<open>@\<close>, or with no
  \<open>/\<close> after its last \<open>@\<close>; a DSN with another prefix goes to the driver as it is.
\<close>

theorem parseMySQLDSN_errors:
  "(parseMySQLDSN dsn = Ok dsn \<or> has_prefix ''mysql://'' dsn) \<and>
   ((\<exists>e. parseMySQLDSN dsn = Err e) \<longleftrightarrow>
     has_prefix ''mysql://'' dsn \<and>
     \<not> (CHR ''@'' \<in> set (drop 8 dsn) \<and>
      CHR ''/'' \<in> set (takeWhile (\<lambda>c. c \<noteq> CHR ''@'') (rev (drop 8 dsn)))))"
proof -
  let ?t = "drop 8 dsn"
  have tail: "set (takeWhile (\<lambda>c. c \<noteq> CHR ''@'') (rev ?t)) = set (drop (i + 1) ?t)"
    if "last_index_of CHR ''@'' ?t = Some i" for i
  proof -
    have "CHR ''@'' \<in> set ?t" using that last_index_of_None_iff [of "CHR ''@''" ?t] by simp
    then obtain a b where t: "?t = a @ CHR ''@'' # b" and b: "CHR ''@'' \<notin> set b"
      by (blast dest: split_list_last)
    have "takeWhile (\<lambda>c. c \<noteq> CHR ''@'') (rev b @ CHR ''@'' # rev a) = rev b"
      using b by (subst takeWhile_append2) auto
    then have "takeWhile (\<lambda>c. c \<noteq> CHR ''@'') (rev ?t) = rev b" by (simp add: t)
    moreover have "i = length a" using that last_index_of_last [OF b, of a] t by simp
    ultimately show ?thesis by (simp add: t)
  qed
  have len: "length ''mysql://'' = 8" by simp
  show ?thesis
  proof (cases "last_index_of CHR ''@'' ?t")
    case None
    then show ?thesis
      unfolding parseMySQLDSN_def Let_def len using last_index_of_None_iff [of "CHR ''@''" ?t] by auto
  next
    case (Some i)
    have here: "CHR ''@'' \<in> set ?t" using Some last_index_of_None_iff [of "CHR ''@''" ?t] by simp
    show ?thesis
      unfolding parseMySQLDSN_def Let_def len tail [OF Some]
      using Some here index_of_None_iff [of "CHR ''/''" "drop (i + 1) ?t"]
      by (cases "index_of CHR ''/'' (drop (i + 1) ?t)") (simp_all del: drop_drop split: prod.splits)
  qed
qed

section \<open>Every session has a connection of its own\<close>

text \<open>What \<^verbatim>\<open>database/sql\<close> documents of \<open>Conn\<close> and \<open>Close\<close>, over the connections it has given out.\<close>

definition my_driver_ok :: "('db, 'conn, 'v) my_driver \<Rightarrow> ('db \<Rightarrow> 'conn set) \<Rightarrow> bool" where
  "my_driver_ok drv out \<longleftrightarrow>
     (\<forall>db. case m_conn drv db of
        (Ok c, db') \<Rightarrow> c \<notin> out db \<and> out db' = insert c (out db)
      | (_, db') \<Rightarrow> out db' = out db) \<and>
     (\<forall>c db. out (m_release drv c db) = out db - {c}) \<and>
     (\<forall>c q db. out (snd (m_query drv c q db)) = out db) \<and>
     (\<forall>c q db. out (snd (m_exec drv c q db)) = out db)"

lemma my_driver_okD:
  assumes "my_driver_ok drv out"
  shows "m_conn drv db = (Ok c, db') \<Longrightarrow> c \<notin> out db"
    and "m_conn drv db = (Ok c, db') \<Longrightarrow> out db' = insert c (out db)"
    and "m_conn drv db = (Err e, db') \<Longrightarrow> out db' = out db"
    and "m_conn drv db = (Panic p, db') \<Longrightarrow> out db' = out db"
    and "out (m_release drv c db) = out db - {c}"
    and "m_query drv c q db = (r, db') \<Longrightarrow> out db' = out db"
    and "m_exec drv c q db = (r', db') \<Longrightarrow> out db' = out db"
proof -
  have acq: "case m_conn drv db of
      (Ok c, db') \<Rightarrow> c \<notin> out db \<and> out db' = insert c (out db) | (_, db') \<Rightarrow> out db' = out db"
    using assms by (simp add: my_driver_ok_def)
  show "m_conn drv db = (Ok c, db') \<Longrightarrow> c \<notin> out db"
    "m_conn drv db = (Ok c, db') \<Longrightarrow> out db' = insert c (out db)"
    "m_conn drv db = (Err e, db') \<Longrightarrow> out db' = out db"
    "m_conn drv db = (Panic p, db') \<Longrightarrow> out db' = out db"
    using acq by simp_all
  show "out (m_release drv c db) = out db - {c}" using assms by (simp add: my_driver_ok_def)
  have "out (snd (m_query drv c q db)) = out db" "out (snd (m_exec drv c q db)) = out db"
    using assms by (simp_all add: my_driver_ok_def)
  then show "m_query drv c q db = (r, db') \<Longrightarrow> out db' = out db"
    "m_exec drv c q db = (r', db') \<Longrightarrow> out db' = out db" by simp_all
qed

definition my_inv :: "('db \<Rightarrow> 'conn set) \<Rightarrow> ('db, 'conn) my_pool \<Rightarrow> bool" where
  "my_inv out pm = (case my_db pm of None \<Rightarrow> False | Some db \<Rightarrow> dedicated (my_sessions pm) (out db))"

lemma my_acquire_inv:
  "my_driver_ok drv out \<Longrightarrow> my_inv out pm \<Longrightarrow> my_inv out (snd (my_AcquireSession drv sid pm))"
  by (auto simp: my_AcquireSession_def my_inv_def my_driver_okD(2-4) intro: dedicated_insert
      split: option.splits prod.splits result.splits dest: my_driver_okD(1))

lemma my_release_inv:
  "my_driver_ok drv out \<Longrightarrow> my_inv out pm \<Longrightarrow> my_inv out (my_ReleaseSession drv sid pm)"
  by (auto simp: my_ReleaseSession_def my_inv_def my_driver_okD(5) intro: dedicated_remove
      split: option.splits)

lemma my_query_on_inv:
  "my_driver_ok drv out \<Longrightarrow> my_inv out pm \<Longrightarrow> my_inv out (snd (my_query_on drv conn q pm))"
  by (auto simp: my_query_on_def my_inv_def dest: my_driver_okD(6)
      split: option.splits prod.splits result.splits)

lemma my_command_on_inv:
  "my_driver_ok drv out \<Longrightarrow> my_inv out pm \<Longrightarrow> my_inv out (snd (my_command_on drv conn q pm))"
  by (auto simp: my_command_on_def my_inv_def dest: my_driver_okD(7) split: option.splits prod.splits)

lemma my_query_inv:
  "my_driver_ok drv out \<Longrightarrow> my_inv out pm \<Longrightarrow> my_inv out (snd (my_ExecSQL drv sid q pm))"
  by (simp add: my_ExecSQL_def my_query_on_inv split: result.split)

lemma my_command_inv:
  "my_driver_ok drv out \<Longrightarrow> my_inv out pm \<Longrightarrow> my_inv out (snd (my_ExecCommand drv sid q pm))"
  by (simp add: my_ExecCommand_def my_command_on_inv split: result.split)

lemma my_step_inv:
  "my_driver_ok drv out \<Longrightarrow> my_inv out pm \<Longrightarrow> my_inv out (pool_step (mysqlPoolOps drv) x pm)"
  by (cases x) (simp_all add: mysqlPoolOps_def my_acquire_inv my_release_inv my_query_inv my_command_inv)

lemma my_run_inv:
  "my_driver_ok drv out \<Longrightarrow> my_inv out pm \<Longrightarrow> my_inv out (pool_run (mysqlPoolOps drv) xs pm)"
  by (induction xs arbitrary: pm) (simp_all add: my_step_inv)

lemma my_close_loop_is_run:
  "my_close_loop drv ids pm = pool_run (mysqlPoolOps drv) (map Release ids) pm"
  by (induction ids arbitrary: pm) (simp_all add: mysqlPoolOps_def my_ReleaseSession_def)

lemma my_run_Release_dom:
  "dom (my_sessions (pool_run (mysqlPoolOps drv) (map Release ids) pm)) = dom (my_sessions pm) - set ids"
  by (induction ids arbitrary: pm) (auto simp: my.release_holds)

text \<open>
  Whatever sequence of acquires, releases and statements a MySQL pool has gone through, no
  two sessions share a connection, the connections taken from \<^verbatim>\<open>database/sql\<close> are exactly those
  of the open sessions, and closing the pool gives every one of them back.
\<close>

theorem my_dedicated_connections:
  assumes "my_driver_ok drv out" and "out db = {}"
    and "pm = pool_run (mysqlPoolOps drv) xs \<lparr>my_db = Some db, my_sessions = Map.empty, my_maxConns = n\<rparr>"
  shows "inj_on (my_sessions pm) (dom (my_sessions pm)) \<and> map_option out (my_db pm) = Some (ran (my_sessions pm))
    \<and> (set ids = dom (my_sessions pm) \<longrightarrow> map_option out (my_db (my_close_loop drv ids pm)) = Some {})"
proof -
  have inv: "my_inv out pm"
    using my_run_inv [OF assms(1), of "\<lparr>my_db = Some db, my_sessions = Map.empty, my_maxConns = n\<rparr>" xs] assms
    by (simp add: my_inv_def)
  have "map_option out (my_db (my_close_loop drv ids pm)) = Some {}" if "set ids = dom (my_sessions pm)"
  proof -
    have "my_inv out (my_close_loop drv ids pm)"
      using my_run_inv [OF assms(1) inv] by (simp add: my_close_loop_is_run)
    moreover have "dom (my_sessions (my_close_loop drv ids pm)) = {}"
      using that by (simp add: my_close_loop_is_run my_run_Release_dom)
    ultimately show ?thesis by (auto simp: my_inv_def dest: dedicated_dom_empty split: option.splits)
  qed
  with inv show ?thesis by (auto simp: my_inv_def dedicated_def split: option.splits)
qed

section \<open>Results of queries\<close>

lemma my_collect_ok: "my_collect f (map Ok vss) acc = Ok (acc @ map (map (my_value f)) vss)"
  by (induction vss arbitrary: acc) auto

lemma my_collect_error:
  "my_collect f (map Ok vss @ Err e # rest) acc = Err (Wrap ''scan row'' e)"
  by (induction vss arbitrary: acc) auto

text \<open>
  A query on an open session returns every row MySQL gives, in order, byte strings as they
  are, other values as their \<open>%v\<close> text and \<open>nil\<close> as \<open>NULL\<close>; a row that cannot be scanned or an
  error after the last row fails the whole query.
\<close>

theorem my_ExecSQL_result:
  assumes "my_sessions pm sid = Some conn" and "my_db pm = Some d"
    and "m_query drv conn sql d = (Ok \<lparr>s_columns = Ok cols, s_scan = vs, s_err = e\<rparr>, db)"
  shows "(vs = map Ok vss \<and> e = None \<longrightarrow>
      my_ExecSQL drv sid sql pm =
        (Ok \<lparr>q_Columns = cols,
             q_Rows = map (map (case_option ''NULL'' (case_sum string_of (m_fmt drv)))) vss,
             q_RowsAffected = 0\<rparr>,
         pm\<lparr>my_db := Some db\<rparr>))
    \<and> (vs = map Ok vss @ Err x # rest \<longrightarrow>
      my_ExecSQL drv sid sql pm = (Err (Wrap ''scan row'' x), pm\<lparr>my_db := Some db\<rparr>))
    \<and> (vs = map Ok vss \<and> e = Some x \<longrightarrow>
      my_ExecSQL drv sid sql pm = (Err (Wrap ''rows iteration'' x), pm\<lparr>my_db := Some db\<rparr>))"
  using assms
  by (auto simp: my_ExecSQL_def my_query_on_def my_getSessionConn_def my_collect_ok my_collect_error my_value_def
      split: option.split sum.split)

section \<open>Witnesses\<close>

theorem parseMySQLDSN_credentials_witness:
  "parseMySQLDSN (''mysql://'' @ percent_encode ''root'' @ '':'' @ percent_encode ''p@ss/+'' @ ''@'' @
      ''db.local'' @ ''/'' @ ''app?tls=true'') =
    Ok (''root:p@ss/+@tcp(db.local:3306)/app?tls=true'')"
  using parseMySQLDSN_credentials [of "''db.local''" "''app?tls=true''" "''root''" "''p@ss/+''"] by simp

text \<open>A small driver, as for the PostgreSQL pool: its state lists the connections in use.\<close>

definition my_list_driver :: "(nat list, nat, nat) my_driver" where
  "my_list_driver =
     \<lparr>m_conn = (\<lambda>db. (Ok (Suc (sum_list db)), Suc (sum_list db) # db)),
      m_release = (\<lambda>c db. filter (\<lambda>x. x \<noteq> c) db),
      m_query = (\<lambda>c q db. (Ok \<lparr>s_columns = Ok [''a'', ''b'', ''c''],
                              s_scan = [Ok [Some (Inl (bytes_of ''hi'')), Some (Inr 7), None]], s_err = None\<rparr>, db)),
      m_exec = (\<lambda>c q db. (Ok (Ok 1), db)),
      m_stats = (\<lambda>db. \<lparr>OpenConnections = int (length db), InUse = int (length db), Idle = 0\<rparr>),
      m_close = (\<lambda>db. db),
      m_fmt = show_nat\<rparr>"

lemma my_list_driver_ok: "my_driver_ok my_list_driver set"
proof -
  have "Suc (sum_list db) \<notin> set db" for db :: "nat list"
    using member_le_sum_list [of "Suc (sum_list db)" db] by auto
  then show ?thesis by (auto simp: my_driver_ok_def my_list_driver_def)
qed

definition my_example_pool :: "(nat list, nat) my_pool" where
  "my_example_pool = pool_run (mysqlPoolOps my_list_driver) [Acquire ''a'', Acquire ''b'', Release ''a'']
     \<lparr>my_db = Some [], my_sessions = Map.empty, my_maxConns = 20\<rparr>"

theorem my_dedicated_connections_witness:
  "my_driver_ok my_list_driver set \<and> my_db my_example_pool = Some [2] \<and>
   map_option set (my_db my_example_pool) = Some (ran (my_sessions my_example_pool)) \<and>
   map_option set (my_db (my_close_loop my_list_driver [''b''] my_example_pool)) = Some {}"
proof -
  have s: "my_sessions my_example_pool = [''b'' \<mapsto> 2]" "my_db my_example_pool = Some [2]"
    by (simp_all add: my_example_pool_def mysqlPoolOps_def my_AcquireSession_def my_ReleaseSession_def
        my_list_driver_def fun_eq_iff)
  from my_dedicated_connections [OF my_list_driver_ok _ my_example_pool_def, of "[''b'']"] s
  show ?thesis by (simp add: my_list_driver_ok)
qed

theorem my_ExecSQL_result_witness:
  "my_ExecSQL my_list_driver ''s'' ''SELECT''
      \<lparr>my_db = Some [1], my_sessions = [''s'' \<mapsto> 1], my_maxConns = 20\<rparr> =
    (Ok \<lparr>q_Columns = [''a'', ''b'', ''c''], q_Rows = [[''hi'', ''7'', ''NULL'']], q_RowsAffected = 0\<rparr>,
     \<lparr>my_db = Some [1], my_sessions = [''s'' \<mapsto> 1], my_maxConns = 20\<rparr>)"
proof -
  let ?pm = "\<lparr>my_db = Some [1 :: nat], my_sessions = [''s'' \<mapsto> (1 :: nat)], my_maxConns = 20\<rparr>"
  have h: "my_sessions ?pm ''s'' = Some 1" "my_db ?pm = Some [1]"
    "m_query my_list_driver 1 ''SELECT'' [1] =
     (Ok \<lparr>s_columns = Ok [''a'', ''b'', ''c''],
          s_scan = [Ok [Some (Inl (bytes_of ''hi'')), Some (Inr 7), None]], s_err = None\<rparr>, [1])"
    by (simp_all add: my_list_driver_def)
  from my_ExecSQL_result [OF h, of "[[Some (Inl (bytes_of ''hi'')), Some (Inr 7), None]]" "EOF" "[]"]
  show ?thesis by (simp add: my_list_driver_def show_nat.simps)
qed

end
