(* ===== verification/Server.thy ===== *)
theory Server
  imports Handler PgPool MyPool
begin

text \<open>
  The server as \<^verbatim>\<open>cmd/server/main.go\<close> puts it together: the handler over the PostgreSQL pool's
  adapter and the MySQL pool. The handler's session bookkeeping, proved against the pools'
  contract, is instantiated here with the two pool managers, and with what their drivers document
  it becomes a statement about database connections.
\<close>

definition server_pools ::
  "('db, 'c, 'v) pg_driver \<Rightarrow> ('mdb, 'mc, 'mv) my_driver \<Rightarrow> (('db, 'c) pg_pool, ('mdb, 'mc) my_pool) pools" where
  "server_pools pd md = \<lparr>pg_ops = pgPoolAdapter pd, my_ops = mysqlPoolOps md\<rparr>"

interpretation server: handler_pools "server_pools pd md" "\<lambda>pm. dom (sessions pm)" "\<lambda>pm. dom (my_sessions pm)"
  for pd md
proof -
  have "session_pool (pg_ops (server_pools pd md)) (\<lambda>pm. dom (sessions pm))"
    using pg.session_pool_axioms by (simp add: server_pools_def)
  moreover have "session_pool (my_ops (server_pools pd md)) (\<lambda>pm. dom (my_sessions pm))"
    using my.session_pool_axioms by (simp add: server_pools_def)
  ultimately show "handler_pools (server_pools pd md) (\<lambda>pm. dom (sessions pm)) (\<lambda>pm. dom (my_sessions pm))"
    by (rule handler_pools.intro)
qed

section \<open>Sessions and database connections\<close>

text \<open>
  C3: Whatever calls a server has handled since it started, with ids that \<^verbatim>\<open>uuid.New\<close> never
  repeats, every open session has a database connection of its own in the pool of its protocol,
  and the connections taken from the two drivers are exactly those of the open sessions: closing
  a session returns its connection, and no failed or refused call keeps one.
\<close>

theorem server_connections:
  assumes "pg_driver_ok pd out" "out db = {}" "my_driver_ok md mout" "mout mdb = {}"
    and "NewHandler \<lparr>pool = db, sessions = Map.empty\<rparr>
           (Some \<lparr>my_db = Some mdb, my_sessions = Map.empty, my_maxConns = n\<rparr>) key rnd = Ok h0"
    and "fresh_ids cs" "h = handler_run (server_pools pd md) cs h0"
  shows "dom (sessions (pgPool h)) = {sid. sessionPools h sid = Some UsePg}
    \<and> inj_on (sessions (pgPool h)) (dom (sessions (pgPool h)))
    \<and> ran (sessions (pgPool h)) = out (pool (pgPool h))
    \<and> (\<exists>m mdb'. mysqlPool h = Some m \<and> my_db m = Some mdb' \<and>
        dom (my_sessions m) = {sid. sessionPools h sid = Some UseMy} \<and>
        inj_on (my_sessions m) (dom (my_sessions m)) \<and> ran (my_sessions m) = mout mdb')"
proof -
  note new = NewHandler_OkD [OF assms(5)]
  have "session_inv (\<lambda>pm. dom (sessions pm)) (\<lambda>pm. dom (my_sessions pm)) h0"
    using new by (simp add: session_inv_def my_held_def)
  then have inv: "session_inv (\<lambda>pm. dom (sessions pm)) (\<lambda>pm. dom (my_sessions pm)) h"
    unfolding assms(7) by (rule server.handler_run_inv) (use assms(6) new in simp_all)
  obtain xs ys where xs: "pgPool h = pool_run (pgPoolAdapter pd) xs (pgPool h0)"
    and ys: "mysqlPool h = map_option (pool_run (mysqlPoolOps md) ys) (mysqlPool h0)"
    using via_handler_run [of "server_pools pd md" h0 cs] assms(7) by (auto simp: via_def server_pools_def)
  have "pg_inv out (pgPool h)"
    using pg_run_inv [OF assms(1)] assms(2) xs new by (simp add: pg_inv_def)
  moreover obtain m where m: "mysqlPool h = Some m" "my_inv mout m"
    using my_run_inv [OF assms(3)] assms(4) ys new by (auto simp: my_inv_def)
  moreover obtain mdb' where "my_db m = Some mdb'" using m(2) by (auto simp: my_inv_def split: option.splits)
  ultimately show ?thesis
    using inv by (simp add: session_inv_def my_held_def pg_inv_def my_inv_def dedicated_def)
qed

text \<open>
  A query on a session that was closed reaches no database: the server answers it with
  \<open>session not found\<close> and leaves both pools as they are.
\<close>

theorem closed_session:
  assumes "session_inv (\<lambda>pm. dom (sessions pm)) (\<lambda>pm. dom (my_sessions pm)) h"
    and "h' = snd (CloseSession (server_pools pd md) sid h)"
  shows "executeSQL (server_pools pd md) sid sql (sqlCommandType sql) h' =
      (Err (ErrorS (''session '' @ sid @ '' not found'')), h')
    \<and> sessionPools h' sid = None \<and> stmts h' sid = None"
  using server.closed_session_query [OF assms(1), of pd md sid sql "sqlCommandType sql"] assms(2)
  by (simp add: session_not_found_def CloseSession_def Let_def)

section \<open>Witnesses\<close>

definition server_key :: "byte list" where
  "server_key = Sum256 (bytes_of ''k'')"

definition example_server :: "((nat list, nat) pg_pool, (nat list, nat) my_pool) Handler" where
  "example_server =
     \<lparr>pgPool = \<lparr>pool = [], sessions = Map.empty\<rparr>,
      mysqlPool = Some \<lparr>my_db = Some [], my_sessions = Map.empty, my_maxConns = 20\<rparr>,
      encKey = server_key, stmts = Map.empty, sessionPools = Map.empty, entropy = example_entropy\<rparr>"

definition example_body :: "byte list" where
  "example_body = message (server_key) (replicate 12 1) []"

definition example_calls :: "call list" where
  "example_calls = [Create ''session-1'' example_body ''pg'', Create ''session-2'' example_body ''mysql'', Close ''session-2'']"

lemma good_server_key [simp]: "good_key server_key"
  by (simp add: good_key_def server_key_def)

lemma Decrypt_example_body [simp]: "Decrypt example_body (server_key) = Ok []"
  by (simp add: example_body_def Decrypt_message)

lemma NewHandler_example:
  "NewHandler \<lparr>pool = [], sessions = Map.empty\<rparr>
     (Some \<lparr>my_db = Some [], my_sessions = Map.empty, my_maxConns = 20\<rparr>) ''k'' example_entropy = Ok example_server"
  by (simp add: NewHandler_def DeriveKey_def example_server_def server_key_def)

theorem server_connections_witness:
  "\<exists>h. h = handler_run (server_pools list_driver my_list_driver) example_calls example_server
    \<and> dom (sessions (pgPool h)) = {''session-1''} \<and> ran (sessions (pgPool h)) = set (pool (pgPool h))"
proof -
  have fresh: "fresh_ids example_calls" by (simp add: fresh_ids_def example_calls_def)
  let ?h = "handler_run (server_pools list_driver my_list_driver) example_calls example_server"
  have p: "sessionPools ?h = [''session-1'' \<mapsto> UsePg]"
    by (simp add: example_calls_def CreateSession_def CloseSession_def server_pools_def pool_acquire_def
        pool_release_def pgPoolAdapter_def mysqlPoolOps_def pg_AcquireSession_def my_AcquireSession_def
        my_ReleaseSession_def list_driver_def my_list_driver_def example_server_def poolForProtocol_def
        log_id_def slice_def fun_eq_iff)
  from server_connections [OF list_driver_ok _ my_list_driver_ok _ NewHandler_example fresh refl]
  show ?thesis by (auto simp: p)
qed

theorem closed_session_witness:
  "executeSQL (server_pools list_driver my_list_driver) ''session-2'' ''SELECT 1'' (sqlCommandType ''SELECT 1'')
     (snd (CloseSession (server_pools list_driver my_list_driver) ''session-2'' example_server)) =
   (Err (ErrorS ''session session-2 not found''),
    snd (CloseSession (server_pools list_driver my_list_driver) ''session-2'' example_server))"
proof -
  have "session_inv (\<lambda>pm. dom (sessions pm)) (\<lambda>pm. dom (my_sessions pm)) example_server"
    by (simp add: session_inv_def my_held_def example_server_def)
  from closed_session [where pd = list_driver and md = my_list_driver and sid = "''session-2''", OF this refl]
  show ?thesis by simp
qed

end
