(* ===== verification/Interleaving.thy ===== *)
theory Interleaving
  imports Server
begin

text \<open>
  Requests handled at the same time. The frameworks run every request in a goroutine of its own;
  the handler's mutex and the mutex of each pool are held only inside the sections below. A
  \<open>system\<close> is the handler they share, where each goroutine stands between two sections, the ids
  that were ever made or named, and the last answer each goroutine gave; a step is one section of
  one goroutine. A statement is one step from the moment it has its connection: what is not
  protected by any mutex is that the connection is still the session's by then. How long a section
  holds its mutex is not seen here; that of \<open>AcquireSession\<close> is the subject of \<open>PoolMutex\<close>.
\<close>

section \<open>The sections of a request\<close>

type_synonym ('db, 'c, 'mdb, 'mc) server = "(('db, 'c) pg_pool, ('mdb, 'mc) my_pool) Handler"

text \<open>The connection a pool holds for a session, of either of the two pools.\<close>

definition session_conn :: "pool_ref \<Rightarrow> string \<Rightarrow> ('db, 'c, 'mdb, 'mc) server \<Rightarrow> ('c + 'mc) option" where
  "session_conn ref sid h =
     (case ref of
        UsePg \<Rightarrow> map_option Inl (pg_GetSessionConn sid (pgPool h))
      | UseMy \<Rightarrow>
          (case mysqlPool h of
             None \<Rightarrow> None
           | Some m \<Rightarrow> map_option Inr (my_sessions m sid)))"

text \<open>\<open>CreateSession\<close> records the session after it has its connection.\<close>

definition create_record :: "string \<Rightarrow> pool_ref \<Rightarrow> ('p, 'm) Handler \<Rightarrow> ('p, 'm) Handler" where
  "create_record sid ref h = h\<lparr>sessionPools := (sessionPools h)(sid \<mapsto> ref)\<rparr>"

text \<open>\<open>CloseSession\<close> looks the session up, releases it in the pools it found, then forgets it.\<close>

definition close_lookup :: "string \<Rightarrow> ('p, 'm) Handler \<Rightarrow> pool_ref list" where
  "close_lookup sid h = (case sessionPools h sid of Some ref \<Rightarrow> [ref] | None \<Rightarrow> [UsePg, UseMy])"

definition close_forget :: "string \<Rightarrow> ('p, 'm) Handler \<Rightarrow> ('p, 'm) Handler" where
  "close_forget sid h = h\<lparr>stmts := (stmts h)(sid := None), sessionPools := (sessionPools h)(sid := None)\<rparr>"

definition parse_store :: "string \<Rightarrow> string \<Rightarrow> ('p, 'm) Handler \<Rightarrow> ('p, 'm) Handler" where
  "parse_store sid sql h = h\<lparr>stmts := (stmts h)(sid \<mapsto> sql)\<rparr>"

text \<open>A statement on the connection the goroutine was given.\<close>

definition runs_command :: "string \<Rightarrow> bool" where
  "runs_command sql \<longleftrightarrow>
     sqlCommandType sql \<in> set [''INSERT'', ''UPDATE'', ''DELETE'', ''CREATE'', ''ALTER'', ''DROP'', ''TRUNCATE'',
       ''SET'', ''BEGIN'', ''COMMIT'', ''ROLLBACK'', ''GRANT'', ''REVOKE'', ''COPY'', ''VACUUM'']"

definition query_response :: "QueryResult result \<Rightarrow> QueryResponse result" where
  "query_response r =
     rbind r (\<lambda>q. Ok \<lparr>Columns = q_Columns q, Rows = q_Rows q, RowsAffected = q_RowsAffected q, Error = []\<rparr>)"

definition command_response :: "int result \<Rightarrow> QueryResponse result" where
  "command_response r = rbind r (\<lambda>n. Ok (empty_response\<lparr>RowsAffected := n\<rparr>))"

definition statement_on ::
  "('db, 'c, 'v) pg_driver \<Rightarrow> ('mdb, 'mc, 'mv) my_driver \<Rightarrow> 'c + 'mc \<Rightarrow> string
    \<Rightarrow> ('db, 'c, 'mdb, 'mc) server \<Rightarrow> QueryResponse result \<times> ('db, 'c, 'mdb, 'mc) server" where
  "statement_on pd md conn sql h =
     (case conn of
        Inl c \<Rightarrow>
          if runs_command sql
          then (case pg_command_on pd c sql (pgPool h) of (r, p) \<Rightarrow> (command_response r, h\<lparr>pgPool := p\<rparr>))
          else (case pg_query_on pd c sql (pgPool h) of (r, p) \<Rightarrow> (query_response r, h\<lparr>pgPool := p\<rparr>))
      | Inr c \<Rightarrow>
          (case mysqlPool h of
             None \<Rightarrow> (Panic PNil, h)
           | Some m \<Rightarrow>
               if runs_command sql
               then (case my_command_on md c sql m of (r, p) \<Rightarrow> (command_response r, h\<lparr>mysqlPool := Some p\<rparr>))
               else (case my_query_on md c sql m of (r, p) \<Rightarrow> (query_response r, h\<lparr>mysqlPool := Some p\<rparr>))))"

lemma executeSQL_commanded:
  "executeSQL I sid sql (sqlCommandType sql) h =
     (if runs_command sql then executeCommand I sid sql h else executeQuery I sid sql h)"
  by (auto simp: executeSQL_def runs_command_def)

text \<open>The sections one after the other are the one step of \<open>executeSQL\<close>.\<close>

lemma executeSQL_sections:
  "executeSQL (server_pools pd md) sid sql (sqlCommandType sql) h =
     (case session_conn (getSessionPool sid h) sid h of
        Some conn \<Rightarrow> statement_on pd md conn sql h
      | None \<Rightarrow>
          if getSessionPool sid h = UseMy \<and> mysqlPool h = None then (Panic PNil, h)
          else (Err (session_not_found sid), h))"
proof (cases "getSessionPool sid h")
  case UsePg
  then show ?thesis
    by (cases "sessions (pgPool h) sid")
      (simp_all add: executeSQL_commanded executeQuery_def executeCommand_def pool_query_def pool_command_def
        server_pools_def pgPoolAdapter_def pg_ExecSQL_def pg_ExecCommand_def session_conn_def pg_GetSessionConn_def
        statement_on_def query_response_def command_response_def split: prod.split)
next
  case UseMy
  show ?thesis
  proof (cases "mysqlPool h")
    case None
    then show ?thesis using UseMy
      by (simp add: executeSQL_commanded executeQuery_def executeCommand_def pool_query_def pool_command_def
        session_conn_def)
  next
    case (Some m)
    then show ?thesis using UseMy
      by (cases "my_sessions m sid")
        (simp_all add: executeSQL_commanded executeQuery_def executeCommand_def pool_query_def pool_command_def
          server_pools_def mysqlPoolOps_def my_ExecSQL_def my_ExecCommand_def session_conn_def my_getSessionConn_def
          statement_on_def query_response_def command_response_def split: prod.split)
  qed
qed

section \<open>Steps\<close>

datatype 'conn phase =
    Idle
  | Creating string pool_ref \<comment> \<open>holds a connection, the session is not recorded yet\<close>
  | Releasing string "pool_ref list" \<comment> \<open>the pools still to be told\<close>
  | Routing string string \<comment> \<open>has a statement, before \<open>getSessionPool\<close>\<close>
  | Connecting pool_ref string string \<comment> \<open>before the pool looks the connection up\<close>
  | Running 'conn pool_ref string string
  | Replying "string option" QueryResponse \<comment> \<open>the text of an error of \<open>Encrypt\<close>; \<open>None\<close> when it is ignored\<close>

text \<open>What a request is answered with.\<close>

datatype answer = ToCreate "string result" | ToAsk "byte list result" | ToClose "unit result"

record ('db, 'c, 'mdb, 'mc) system =
  shared :: "('db, 'c, 'mdb, 'mc) server"
  phases :: "nat \<Rightarrow> ('c + 'mc) phase"
  named :: "string set"
  answers :: "nat \<Rightarrow> answer option" \<comment> \<open>the last answer each goroutine gave\<close>

definition goes ::
  "nat \<Rightarrow> ('c + 'mc) phase \<Rightarrow> ('db, 'c, 'mdb, 'mc) server \<Rightarrow> ('db, 'c, 'mdb, 'mc) system
    \<Rightarrow> ('db, 'c, 'mdb, 'mc) system" where
  "goes i p h s = s\<lparr>shared := h, phases := (phases s)(i := p)\<rparr>"

definition names :: "string \<Rightarrow> ('db, 'c, 'mdb, 'mc) system \<Rightarrow> ('db, 'c, 'mdb, 'mc) system" where
  "names sid s = s\<lparr>named := insert sid (named s)\<rparr>"

definition tells :: "nat \<Rightarrow> answer \<Rightarrow> ('db, 'c, 'mdb, 'mc) system \<Rightarrow> ('db, 'c, 'mdb, 'mc) system" where
  "tells i a s = s\<lparr>answers := (answers s)(i \<mapsto> a)\<rparr>"

text \<open>Nobody can name the id of a session before its creation has answered.\<close>

definition known :: "string \<Rightarrow> ('db, 'c, 'mdb, 'mc) system \<Rightarrow> bool" where
  "known sid s \<longleftrightarrow> (\<forall>i ref. phases s i \<noteq> Creating sid ref)"

definition after_statement :: "QueryResponse result \<Rightarrow> 'conn phase" where
  "after_statement r =
     (case r of
        Ok response \<Rightarrow> Replying (Some ''encrypt response'') response
      | Err e \<Rightarrow> Replying (Some ''encrypt response'') (empty_response\<lparr>Error := error_text e\<rparr>)
      | Panic p \<Rightarrow> Idle)"

definition tells_panic ::
  "nat \<Rightarrow> QueryResponse result \<Rightarrow> ('db, 'c, 'mdb, 'mc) system \<Rightarrow> ('db, 'c, 'mdb, 'mc) system" where
  "tells_panic i r s = (case r of Panic p \<Rightarrow> tells i (ToAsk (Panic p)) s | _ \<Rightarrow> s)"

definition bind_answer :: "string \<Rightarrow> ('p, 'm) Handler \<Rightarrow> 'conn phase" where
  "bind_answer sid h =
     (case cachedSQL sid h of
        None \<Rightarrow> Replying None (empty_response\<lparr>Error := no_statement\<rparr>)
      | Some _ \<Rightarrow> Replying (Some ''encrypt bind response'') empty_response)"

definition send_reply ::
  "string option \<Rightarrow> QueryResponse \<Rightarrow> ('p, 'm) Handler \<Rightarrow> byte list result \<times> ('p, 'm) Handler" where
  "send_reply how response h =
     (case how of Some prefix \<Rightarrow> reply prefix response h | None \<Rightarrow> reply_ignoring response h)"

text \<open>What a request is checked for before its first section.\<close>

definition create_check :: "byte list \<Rightarrow> string \<Rightarrow> ('p, 'm) Handler \<Rightarrow> pool_ref result" where
  "create_check body protocol h =
     rbind (wrap_err ''decrypt'' (Decrypt body (encKey h))) (\<lambda>_.
       case poolForProtocol protocol h of
         None \<Rightarrow> Err (ErrorS (''unsupported protocol: '' @ protocol))
       | Some ref \<Rightarrow> Ok ref)"

definition query_check :: "string \<Rightarrow> byte list \<Rightarrow> ('p, 'm) Handler \<Rightarrow> QueryRequest result" where
  "query_check sid body h =
     rbind (wrap_err ''decrypt'' (Decrypt body (encKey h))) (\<lambda>decrypted.
     rbind (wrap_err ''unmarshal request'' (Unmarshal_request decrypted)) (\<lambda>req.
     rbind (log_id sid) (\<lambda>_. Ok req)))"

definition without_conn :: "pool_ref \<Rightarrow> string \<Rightarrow> ('p, 'm) Handler \<Rightarrow> QueryResponse result" where
  "without_conn ref sid h =
     (if ref = UseMy \<and> mysqlPool h = None then Panic PNil else Err (session_not_found sid))"

text \<open>
  One rule per section, and two for the requests refused before their first. A creation makes an
  id that was never named; a request names an id, of a session or not. The driver's answer to an
  acquire is taken at once: the code waits for it with the pool's mutex held, so every other
  request that needs the pool waits too.
\<close>

inductive section_step ::
  "('db, 'c, 'v) pg_driver \<Rightarrow> ('mdb, 'mc, 'mv) my_driver
    \<Rightarrow> ('db, 'c, 'mdb, 'mc) system \<Rightarrow> ('db, 'c, 'mdb, 'mc) system \<Rightarrow> bool"
  for pd md where
  create_refused: "phases s i = Idle \<Longrightarrow> create_check body protocol (shared s) = r \<Longrightarrow> \<forall>ref. r \<noteq> Ok ref \<Longrightarrow>
    section_step pd md s (tells i (ToCreate (rbind r (\<lambda>_. Ok sid))) s)"
| acquire: "phases s i = Idle \<Longrightarrow> sid \<notin> named s \<Longrightarrow> poolForProtocol protocol (shared s) = Some ref \<Longrightarrow>
    pool_acquire (server_pools pd md) ref sid (shared s) = (Ok (), h) \<Longrightarrow>
    section_step pd md s (names sid (goes i (Creating sid ref) h s))"
| acquire_fails: "phases s i = Idle \<Longrightarrow> sid \<notin> named s \<Longrightarrow> poolForProtocol protocol (shared s) = Some ref \<Longrightarrow>
    pool_acquire (server_pools pd md) ref sid (shared s) = (r, h) \<Longrightarrow> r \<noteq> Ok () \<Longrightarrow>
    section_step pd md s
      (tells i (ToCreate (rbind (wrap_err ''acquire connection'' r) (\<lambda>_. Ok sid))) (names sid (goes i Idle h s)))"
| recorded: "phases s i = Creating sid ref \<Longrightarrow>
    section_step pd md s
      (tells i (ToCreate (rbind (log_id sid) (\<lambda>_. Ok sid))) (goes i Idle (create_record sid ref (shared s)) s))"
| close: "phases s i = Idle \<Longrightarrow> known sid s \<Longrightarrow>
    section_step pd md s (names sid (goes i (Releasing sid (close_lookup sid (shared s))) (shared s) s))"
| release: "phases s i = Releasing sid (ref # refs) \<Longrightarrow>
    section_step pd md s (goes i (Releasing sid refs) (pool_release (server_pools pd md) ref sid (shared s)) s)"
| forget: "phases s i = Releasing sid [] \<Longrightarrow>
    section_step pd md s
      (tells i (ToClose (rbind (log_id sid) (\<lambda>_. Ok ()))) (goes i Idle (close_forget sid (shared s)) s))"
| query_refused: "phases s i = Idle \<Longrightarrow> query_check sid body (shared s) = r \<Longrightarrow> \<forall>req. r \<noteq> Ok req \<Longrightarrow>
    section_step pd md s (tells i (ToAsk (rbind r (\<lambda>_. Ok []))) s)"
| parsed: "phases s i = Idle \<Longrightarrow> known sid s \<Longrightarrow>
    section_step pd md s
      (names sid (goes i (Replying (Some ''encrypt parse response'') empty_response) (parse_store sid sql (shared s)) s))"
| bound: "phases s i = Idle \<Longrightarrow> known sid s \<Longrightarrow>
    section_step pd md s (names sid (goes i (bind_answer sid (shared s)) (shared s) s))"
| described: "phases s i = Idle \<Longrightarrow> known sid s \<Longrightarrow>
    prefix \<in> {''encrypt describe response'', ''encrypt sync response''} \<Longrightarrow>
    section_step pd md s (names sid (goes i (Replying (Some prefix) empty_response) (shared s) s))"
| unparsed: "phases s i = Idle \<Longrightarrow> known sid s \<Longrightarrow> cachedSQL sid (shared s) = None \<Longrightarrow>
    section_step pd md s (names sid (tells i (ToAsk (Err (ErrorS no_statement))) s))"
| execute: "phases s i = Idle \<Longrightarrow> known sid s \<Longrightarrow> cachedSQL sid (shared s) = Some sql \<Longrightarrow>
    section_step pd md s (names sid (goes i (Routing sid sql) (shared s) s))"
| statement: "phases s i = Idle \<Longrightarrow> known sid s \<Longrightarrow>
    section_step pd md s (names sid (goes i (Routing sid sql) (shared s) s))"
| route: "phases s i = Routing sid sql \<Longrightarrow>
    section_step pd md s (goes i (Connecting (getSessionPool sid (shared s)) sid sql) (shared s) s)"
| connect: "phases s i = Connecting ref sid sql \<Longrightarrow> session_conn ref sid (shared s) = Some conn \<Longrightarrow>
    section_step pd md s (goes i (Running conn ref sid sql) (shared s) s)"
| no_session: "phases s i = Connecting ref sid sql \<Longrightarrow> session_conn ref sid (shared s) = None \<Longrightarrow>
    without_conn ref sid (shared s) = r \<Longrightarrow>
    section_step pd md s (tells_panic i r (goes i (after_statement r) (shared s) s))"
| run: "phases s i = Running conn ref sid sql \<Longrightarrow> statement_on pd md conn sql (shared s) = (r, h) \<Longrightarrow>
    section_step pd md s (tells_panic i r (goes i (after_statement r) h s))"
| replied: "phases s i = Replying how response \<Longrightarrow> send_reply how response (shared s) = (r, h) \<Longrightarrow>
    section_step pd md s (tells i (ToAsk r) (goes i Idle h s))"

definition starts :: "('db, 'c, 'mdb, 'mc) server \<Rightarrow> ('db, 'c, 'mdb, 'mc) system" where
  "starts h = \<lparr>shared = h, phases = (\<lambda>_. Idle), named = {}, answers = Map.empty\<rparr>"

inductive interleaved ::
  "('db, 'c, 'v) pg_driver \<Rightarrow> ('mdb, 'mc, 'mv) my_driver \<Rightarrow> ('db, 'c, 'mdb, 'mc) server
    \<Rightarrow> ('db, 'c, 'mdb, 'mc) system \<Rightarrow> bool"
  for pd md h where
  start: "interleaved pd md h (starts h)"
| further: "interleaved pd md h s \<Longrightarrow> section_step pd md s s' \<Longrightarrow> interleaved pd md h s'"

lemma goes_simps [simp]:
  "shared (goes i p h s) = h" "phases (goes i p h s) = (phases s)(i := p)" "named (goes i p h s) = named s"
  "shared (names sid s) = shared s" "phases (names sid s) = phases s" "named (names sid s) = insert sid (named s)"
  "shared (starts h) = h" "phases (starts h) i = Idle" "named (starts h) = {}"
  "shared (tells i a s) = shared s" "phases (tells i a s) = phases s" "named (tells i a s) = named s"
  "shared (tells_panic i q s) = shared s" "phases (tells_panic i q s) = phases s" "named (tells_panic i q s) = named s"
  by (simp_all add: goes_def names_def starts_def tells_def tells_panic_def split: result.split)

section \<open>Sections and connections\<close>

lemma session_conn_simps [simp]:
  "session_conn ref sid (create_record s r h) = session_conn ref sid h"
  "session_conn ref sid (close_forget s h) = session_conn ref sid h"
  "session_conn ref sid (parse_store s q h) = session_conn ref sid h"
  by (simp_all add: session_conn_def create_record_def close_forget_def parse_store_def split: pool_ref.split)

lemma sessionPools_simps [simp]:
  "sessionPools (create_record s r h) = (sessionPools h)(s \<mapsto> r)"
  "sessionPools (close_forget s h) = (sessionPools h)(s := None)"
  "sessionPools (parse_store s q h) = sessionPools h"
  by (simp_all add: create_record_def close_forget_def parse_store_def)

lemma create_record_pools [simp]:
  "pgPool (create_record s r h) = pgPool h" "mysqlPool (create_record s r h) = mysqlPool h"
  by (simp_all add: create_record_def)

lemma session_conn_send_reply:
  "send_reply how response h = (r, h') \<Longrightarrow> session_conn ref sid h' = session_conn ref sid h"
  by (auto simp: send_reply_def reply_def reply_ignoring_def session_conn_def split: prod.splits pool_ref.split option.splits)

lemma send_reply_keeps:
  "send_reply how response h = (r, h') \<Longrightarrow>
   pgPool h' = pgPool h \<and> mysqlPool h' = mysqlPool h \<and> sessionPools h' = sessionPools h"
  by (auto simp: send_reply_def reply_def reply_ignoring_def split: prod.splits option.splits)

lemma session_conn_statement_on:
  assumes "statement_on pd md conn sql h = (r, h')"
  shows "session_conn ref sid h' = session_conn ref sid h" "sessionPools h' = sessionPools h"
proof -
  have "session_conn ref sid (snd (statement_on pd md conn sql h)) = session_conn ref sid h \<and>
    sessionPools (snd (statement_on pd md conn sql h)) = sessionPools h"
    by (simp add: statement_on_def session_conn_def pg_GetSessionConn_def case_prod_unfold
        split: sum.split pool_ref.split option.split)
  with assms show "session_conn ref sid h' = session_conn ref sid h" "sessionPools h' = sessionPools h"
    by simp_all
qed

lemma session_conn_release:
  "session_conn r t (pool_release (server_pools pd md) ref sid h) =
     (if r = ref \<and> t = sid then None else session_conn r t h)"
  by (auto simp: session_conn_def pool_release_def server_pools_def pgPoolAdapter_def mysqlPoolOps_def
      pg_ReleaseSession_def my_ReleaseSession_def pg_GetSessionConn_def split: pool_ref.split option.split)

lemma session_conn_acquire:
  assumes "pool_acquire (server_pools pd md) ref sid h = (Ok (), h')" and "session_conn ref sid h = None"
  obtains conn where "\<And>r t. session_conn r t h' = (if r = ref \<and> t = sid then Some conn else session_conn r t h)"
proof (cases ref)
  case UsePg
  with assms obtain c db where "h' = h\<lparr>pgPool := (pgPool h)\<lparr>pool := db, sessions := (sessions (pgPool h))(sid \<mapsto> c)\<rparr>\<rparr>"
    by (auto simp: pool_acquire_def server_pools_def pgPoolAdapter_def pg_AcquireSession_def session_conn_def
        pg_GetSessionConn_def split: option.splits prod.splits result.splits)
  with UsePg show ?thesis
    by (intro that [of "Inl c"]) (auto simp: session_conn_def pg_GetSessionConn_def split: pool_ref.split)
next
  case UseMy
  with assms obtain m c m' where m: "mysqlPool h = Some m" "h' = h\<lparr>mysqlPool := Some m'\<rparr>"
      "my_sessions m' = (my_sessions m)(sid \<mapsto> c)"
    by (auto simp: pool_acquire_def server_pools_def mysqlPoolOps_def my_AcquireSession_def session_conn_def
        split: option.splits prod.splits result.splits)
  with UseMy show ?thesis
    by (intro that [of "Inr c"]) (auto simp: session_conn_def split: pool_ref.split)
qed

lemma session_conn_acquire_fails:
  assumes "pool_acquire (server_pools pd md) ref sid h = (r, h')" and "r \<noteq> Ok ()"
  shows "session_conn q t h' = session_conn q t h"
  using assms
  by (cases ref)
    (auto simp: pool_acquire_def server_pools_def pgPoolAdapter_def mysqlPoolOps_def pg_AcquireSession_def
      my_AcquireSession_def session_conn_def pg_GetSessionConn_def
      split: option.splits prod.splits result.splits pool_ref.split)

section \<open>The sessions, kept between sections\<close>

text \<open>
  How the pools' connections \<open>C\<close>, the handler's record \<open>P\<close> of the sessions, the phases \<open>T\<close> and
  the ids \<open>N\<close> agree between any two sections. A connection without a recorded session belongs to
  a creation on its way, a recorded session without a connection to a close on its way, and a
  running statement's connection is its session's unless the session has lost it.
\<close>

definition conns_recorded where
  "conns_recorded C P T N \<longleftrightarrow>
     (\<forall>ref sid. C ref sid \<noteq> None \<longrightarrow> sid \<in> N \<and> (P sid = Some ref \<or> (\<exists>i. T i = Creating sid ref)))"

definition records_connected where
  "records_connected C P T N \<longleftrightarrow>
     (\<forall>ref sid. P sid = Some ref \<longrightarrow>
        sid \<in> N \<and> (C ref sid \<noteq> None \<or> (\<exists>i refs. T i = Releasing sid refs \<and> ref \<notin> set refs)))"

definition creations_apart where
  "creations_apart C P T N \<longleftrightarrow>
     (\<forall>i sid ref. T i = Creating sid ref \<longrightarrow> sid \<in> N \<and> P sid = None \<and> C ref sid \<noteq> None \<and>
        (\<forall>j ref'. T j = Creating sid ref' \<longrightarrow> j = i) \<and> (\<forall>j refs. T j \<noteq> Releasing sid refs))"

definition releases_due where
  "releases_due C P T N \<longleftrightarrow>
     (\<forall>i sid refs. T i = Releasing sid refs \<longrightarrow> sid \<in> N \<and> distinct refs \<and>
        (\<forall>ref. P sid = Some ref \<longrightarrow> ref \<in> set refs \<or> C ref sid = None))"

definition statements_placed where
  "statements_placed C T N \<longleftrightarrow>
     (\<forall>i conn ref sid sql. T i = Running conn ref sid sql \<longrightarrow>
        sid \<in> N \<and> (C ref sid = Some conn \<or> C ref sid = None))"

definition book where
  "book C P T N \<longleftrightarrow> conns_recorded C P T N \<and> records_connected C P T N \<and> creations_apart C P T N \<and>
     releases_due C P T N \<and> statements_placed C T N"

lemmas book_defs = book_def conns_recorded_def records_connected_def creations_apart_def releases_due_def
  statements_placed_def

lemma bookD:
  assumes "book C P T N"
  shows "C ref sid \<noteq> None \<Longrightarrow> sid \<in> N"
    and "C ref sid \<noteq> None \<Longrightarrow> P sid = Some ref \<or> (\<exists>i. T i = Creating sid ref)"
    and "P sid = Some ref \<Longrightarrow> sid \<in> N"
    and "P sid = Some ref \<Longrightarrow> C ref sid \<noteq> None \<or> (\<exists>i refs. T i = Releasing sid refs \<and> ref \<notin> set refs)"
    and "T i = Creating sid ref \<Longrightarrow> sid \<in> N \<and> P sid = None \<and> C ref sid \<noteq> None"
    and "T i = Creating sid ref \<Longrightarrow> T j = Creating sid ref' \<Longrightarrow> j = i"
    and "T i = Creating sid ref \<Longrightarrow> T j \<noteq> Releasing sid refs"
    and "T i = Releasing sid refs \<Longrightarrow> sid \<in> N"
    and "T i = Releasing sid refs \<Longrightarrow> distinct refs"
    and "T i = Releasing sid refs \<Longrightarrow> P sid = Some ref \<Longrightarrow> ref \<in> set refs \<or> C ref sid = None"
    and "T i = Running conn ref sid sql \<Longrightarrow> sid \<in> N \<and> (C ref sid = Some conn \<or> C ref sid = None)"
proof -
  have "conns_recorded C P T N" "records_connected C P T N" "creations_apart C P T N" "releases_due C P T N"
    "statements_placed C T N"
    using assms by (simp_all add: book_def)
  note b = this
  show "C ref sid \<noteq> None \<Longrightarrow> sid \<in> N"
    "C ref sid \<noteq> None \<Longrightarrow> P sid = Some ref \<or> (\<exists>i. T i = Creating sid ref)"
    using b(1) unfolding conns_recorded_def by blast+
  show "P sid = Some ref \<Longrightarrow> sid \<in> N"
    "P sid = Some ref \<Longrightarrow> C ref sid \<noteq> None \<or> (\<exists>i refs. T i = Releasing sid refs \<and> ref \<notin> set refs)"
    using b(2) unfolding records_connected_def by blast+
  show "T i = Creating sid ref \<Longrightarrow> sid \<in> N \<and> P sid = None \<and> C ref sid \<noteq> None"
    "T i = Creating sid ref \<Longrightarrow> T j = Creating sid ref' \<Longrightarrow> j = i"
    "T i = Creating sid ref \<Longrightarrow> T j \<noteq> Releasing sid refs"
    using b(3) unfolding creations_apart_def by blast+
  show "T i = Releasing sid refs \<Longrightarrow> sid \<in> N" "T i = Releasing sid refs \<Longrightarrow> distinct refs"
    "T i = Releasing sid refs \<Longrightarrow> P sid = Some ref \<Longrightarrow> ref \<in> set refs \<or> C ref sid = None"
    using b(4) unfolding releases_due_def by (metis, metis, metis)
  show "T i = Running conn ref sid sql \<Longrightarrow> sid \<in> N \<and> (C ref sid = Some conn \<or> C ref sid = None)"
    using b(5) unfolding statements_placed_def by metis
qed

lemma book_start: "book (\<lambda>_ _. None) Map.empty (\<lambda>_. Idle) {}"
  by (simp add: book_defs)

lemma book_named:
  assumes "book C P T N"
  shows "book C P T (insert sid N)"
proof -
  have "conns_recorded C P T (insert sid N)" "records_connected C P T (insert sid N)"
    using assms by (simp_all add: book_def conns_recorded_def records_connected_def)
  moreover have "creations_apart C P T (insert sid N)" "releases_due C P T (insert sid N)"
    "statements_placed C T (insert sid N)"
    using assms by (simp_all add: book_def creations_apart_def releases_due_def statements_placed_def)
  ultimately show ?thesis by (simp add: book_def)
qed

lemma statements_frame:
  assumes st: "statements_placed C T N" and N: "N \<subseteq> N'"
    and C: "\<And>ref sid. sid \<in> N \<Longrightarrow> C' ref sid = C ref sid \<or> C' ref sid = None"
    and p: "\<And>conn ref sid sql. p = Running conn ref sid sql \<Longrightarrow> sid \<in> N' \<and> C' ref sid = Some conn"
  shows "statements_placed C' (T(i := p)) N'"
  unfolding statements_placed_def
proof (intro allI impI)
  fix j conn ref sid sql assume h: "(T(i := p)) j = Running conn ref sid sql"
  show "sid \<in> N' \<and> (C' ref sid = Some conn \<or> C' ref sid = None)"
  proof (cases "j = i")
    case True
    with h p show ?thesis by simp
  next
    case False
    with h have "T j = Running conn ref sid sql" by simp
    then have "sid \<in> N" "C ref sid = Some conn \<or> C ref sid = None"
      using st unfolding statements_placed_def by metis+
    then show ?thesis using N C [of sid ref] by auto
  qed
qed

lemma book_acquire:
  assumes b: "book C P T N" and idle: "T i = Idle" and fresh: "sid \<notin> N"
  shows "book (\<lambda>r t. if r = ref \<and> t = sid then Some conn else C r t) P (T(i := Creating sid ref)) (insert sid N)"
    (is "book ?C P ?T ?N")
proof -
  have p: "P sid = None" and cr: "T j \<noteq> Creating sid r" and re: "T j \<noteq> Releasing sid rs" for r j rs
    using bookD(3,5,8) [OF b] fresh by (meson not_None_eq, blast+)
  have "conns_recorded ?C P ?T ?N"
    unfolding conns_recorded_def
  proof (intro allI impI)
    fix r t assume h: "?C r t \<noteq> None"
    show "t \<in> ?N \<and> (P t = Some r \<or> (\<exists>j. ?T j = Creating t r))"
    proof (cases "r = ref \<and> t = sid")
      case False
      with h have "C r t \<noteq> None" by simp
      then show ?thesis using bookD(1,2) [OF b] idle by (metis fun_upd_other insertI2 phase.distinct(1))
    qed auto
  qed
  moreover have "records_connected ?C P ?T ?N"
    unfolding records_connected_def
  proof (intro allI impI)
    fix t r assume h: "P t = Some r"
    then have "t \<noteq> sid" using p by auto
    then show "t \<in> ?N \<and> (?C r t \<noteq> None \<or> (\<exists>j rs. ?T j = Releasing t rs \<and> r \<notin> set rs))"
      using bookD(3,4) [OF b h] idle by (metis fun_upd_other insertI2 phase.distinct(3))
  qed
  moreover have "creations_apart ?C P ?T ?N"
    using bookD(5-7) [OF b] p cr re by (auto simp: creations_apart_def)
  moreover have "releases_due ?C P ?T ?N"
    using bookD(8-10) [OF b] re by (auto simp: releases_due_def)
  moreover have "statements_placed ?C ?T ?N"
    by (rule statements_frame [of C T N]) (use b fresh in \<open>auto simp: book_def\<close>)
  ultimately show ?thesis by (simp add: book_def)
qed


lemma book_record:
  assumes b: "book C P T N" and i: "T i = Creating sid ref"
  shows "book C (P(sid \<mapsto> ref)) (T(i := Idle)) N"
    (is "book C ?P ?T N")
proof -
  note this_one = bookD(5-7) [OF b i]
  have "conns_recorded C ?P ?T N"
    unfolding conns_recorded_def
  proof (intro allI impI)
    fix r t assume h: "C r t \<noteq> None"
    have "?P t = Some r \<or> (\<exists>j. ?T j = Creating t r)"
    proof (cases "t = sid")
      case True
      then show ?thesis using bookD(2) [OF b h] this_one i by (metis fun_upd_same option.distinct(1) phase.inject(1))
    next
      case False
      then show ?thesis using bookD(2) [OF b h] i by (metis fun_upd_other phase.inject(1))
    qed
    with bookD(1) [OF b h] show "t \<in> N \<and> (?P t = Some r \<or> (\<exists>j. ?T j = Creating t r))" by simp
  qed
  moreover have "records_connected C ?P ?T N"
    unfolding records_connected_def
  proof (intro allI impI)
    fix r t assume h: "?P t = Some r"
    show "t \<in> N \<and> (C r t \<noteq> None \<or> (\<exists>j rs. ?T j = Releasing t rs \<and> r \<notin> set rs))"
    proof (cases "t = sid")
      case True
      with h this_one show ?thesis by auto
    next
      case False
      with h have "P t = Some r" by simp
      then show ?thesis using bookD(3,4) [OF b] i by (metis fun_upd_other phase.distinct(13))
    qed
  qed
  moreover have "creations_apart C ?P ?T N"
    using bookD(5-7) [OF b] i by (auto simp: creations_apart_def)
  moreover have "releases_due C ?P ?T N"
    using bookD(8-10) [OF b] this_one(3) by (auto simp: releases_due_def)
  moreover have "statements_placed C ?T N"
    by (rule statements_frame [of C T N]) (use b in \<open>auto simp: book_def\<close>)
  ultimately show ?thesis by (simp add: book_def)
qed

lemma book_close:
  assumes b: "book C P T N" and idle: "T i = Idle" and known: "\<And>j r. T j \<noteq> Creating sid r"
    and refs: "distinct refs" "\<And>r. P sid = Some r \<Longrightarrow> r \<in> set refs"
  shows "book C P (T(i := Releasing sid refs)) (insert sid N)"
    (is "book C P ?T ?N")
proof -
  have "conns_recorded C P ?T ?N"
    unfolding conns_recorded_def
    using bookD(1,2) [OF b] idle by (metis fun_upd_other insertI2 phase.distinct(1))
  moreover have "records_connected C P ?T ?N"
    unfolding records_connected_def
    using bookD(3,4) [OF b] idle by (metis fun_upd_other insertI2 phase.distinct(3))
  moreover have "creations_apart C P ?T ?N"
    using bookD(5-7) [OF b] known by (auto simp: creations_apart_def)
  moreover have "releases_due C P ?T ?N"
    using bookD(8-10) [OF b] refs by (auto simp: releases_due_def)
  moreover have "statements_placed C ?T ?N"
    by (rule statements_frame [of C T N]) (use b in \<open>auto simp: book_def\<close>)
  ultimately show ?thesis by (simp add: book_def)
qed

lemma book_release:
  assumes b: "book C P T N" and i: "T i = Releasing sid (ref # refs)"
  shows "book (\<lambda>r t. if r = ref \<and> t = sid then None else C r t) P (T(i := Releasing sid refs)) N"
    (is "book ?C P ?T N")
proof -
  have notin: "ref \<notin> set refs" using bookD(9) [OF b i] by simp
  have "conns_recorded ?C P ?T N"
    unfolding conns_recorded_def
    using bookD(1,2) [OF b] i by (metis fun_upd_other phase.distinct(13))
  moreover have "records_connected ?C P ?T N"
    unfolding records_connected_def
  proof (intro allI impI)
    fix r t assume h: "P t = Some r"
    have "?C r t \<noteq> None \<or> (\<exists>j rs. ?T j = Releasing t rs \<and> r \<notin> set rs)"
    proof (cases "r = ref \<and> t = sid")
      case True
      with notin have "?T i = Releasing t refs \<and> r \<notin> set refs" by simp
      then show ?thesis by blast
    next
      case False
      show ?thesis
      proof (cases "C r t = None")
        case True
        then obtain j rs where j: "T j = Releasing t rs" "r \<notin> set rs" using bookD(4) [OF b h] by blast
        show ?thesis
        proof (cases "j = i")
          case True
          with i j have "rs = ref # refs" "t = sid" by simp_all
          with j have "?T i = Releasing t refs \<and> r \<notin> set refs" by simp
          then show ?thesis by blast
        next
          case False
          with j have "?T j = Releasing t rs \<and> r \<notin> set rs" by simp
          then show ?thesis by blast
        qed
      qed (use False in auto)
    qed
    with bookD(3) [OF b h] show "t \<in> N \<and> (?C r t \<noteq> None \<or> (\<exists>j rs. ?T j = Releasing t rs \<and> r \<notin> set rs))"
      by simp
  qed
  moreover have "creations_apart ?C P ?T N"
    using bookD(5-7) [OF b] i by (auto simp: creations_apart_def)
  moreover have "releases_due ?C P ?T N"
    using bookD(8-10) [OF b] bookD(8-10) [OF b i] by (auto simp: releases_due_def)
  moreover have "statements_placed ?C ?T N"
    by (rule statements_frame [of C T N]) (use b in \<open>auto simp: book_def\<close>)
  ultimately show ?thesis by (simp add: book_def)
qed

lemma book_forget:
  assumes b: "book C P T N" and i: "T i = Releasing sid []"
  shows "book C (P(sid := None)) (T(i := Idle)) N"
    (is "book C ?P ?T N")
proof -
  have "conns_recorded C ?P ?T N"
    unfolding conns_recorded_def
  proof (intro allI impI)
    fix r t assume h: "C r t \<noteq> None"
    have "t \<noteq> sid" using bookD(2) [OF b h] bookD(7) [OF b] bookD(10) [OF b i, of r] h i by auto
    then have "?P t = P t" by simp
    then show "t \<in> N \<and> (?P t = Some r \<or> (\<exists>j. ?T j = Creating t r))"
      using bookD(1,2) [OF b h] i by (metis fun_upd_other phase.distinct(13))
  qed
  moreover have "records_connected C ?P ?T N"
    unfolding records_connected_def
  proof (intro allI impI)
    fix r t assume "?P t = Some r"
    then have h: "t \<noteq> sid" "P t = Some r" by (auto split: if_splits)
    then show "t \<in> N \<and> (C r t \<noteq> None \<or> (\<exists>j rs. ?T j = Releasing t rs \<and> r \<notin> set rs))"
      using bookD(3,4) [OF b h(2)] i by (metis fun_upd_other phase.inject(2))
  qed
  moreover have "creations_apart C ?P ?T N"
    using bookD(5-7) [OF b] by (auto simp: creations_apart_def)
  moreover have "releases_due C ?P ?T N"
    using bookD(8-10) [OF b] by (auto simp: releases_due_def)
  moreover have "statements_placed C ?T N"
    by (rule statements_frame [of C T N]) (use b in \<open>auto simp: book_def\<close>)
  ultimately show ?thesis by (simp add: book_def)
qed

text \<open>Every other move: neither end of it is a creation or a close on its way.\<close>

fun underway :: "'conn phase \<Rightarrow> bool" where
  "underway (Creating sid ref) = True"
| "underway (Releasing sid refs) = True"
| "underway _ = False"

lemma book_moves:
  assumes b: "book C P T N" and i: "\<not> underway (T i)" and p: "\<not> underway p"
    and run: "\<And>conn ref sid sql. p = Running conn ref sid sql \<Longrightarrow> C ref sid = Some conn"
  shows "book C P (T(i := p)) N"
    (is "book C P ?T N")
proof -
  have no: "T i \<noteq> Creating sid ref" "T i \<noteq> Releasing sid refs" "p \<noteq> Creating sid ref" "p \<noteq> Releasing sid refs"
    for sid ref refs using i p by auto
  have "conns_recorded C P ?T N"
    unfolding conns_recorded_def using bookD(1,2) [OF b] no by (metis fun_upd_other)
  moreover have "records_connected C P ?T N"
    unfolding records_connected_def using bookD(3,4) [OF b] no by (metis fun_upd_other)
  moreover have "creations_apart C P ?T N"
    using bookD(5-7) [OF b] no by (auto simp: creations_apart_def)
  moreover have "releases_due C P ?T N"
    using bookD(8-10) [OF b] no by (auto simp: releases_due_def)
  moreover have "statements_placed C ?T N"
    by (rule statements_frame [of C T N]) (use b bookD(1) [OF b] run in \<open>auto simp: book_def\<close>)
  ultimately show ?thesis by (simp add: book_def)
qed

section \<open>The invariant of the server\<close>

definition conns_ok ::
  "('db \<Rightarrow> 'c set) \<Rightarrow> ('mdb \<Rightarrow> 'mc set) \<Rightarrow> ('db, 'c, 'mdb, 'mc) server \<Rightarrow> bool" where
  "conns_ok out mout h \<longleftrightarrow>
     pg_inv out (pgPool h) \<and> (\<forall>m. mysqlPool h = Some m \<longrightarrow> my_inv mout m)"

definition system_inv ::
  "('db \<Rightarrow> 'c set) \<Rightarrow> ('mdb \<Rightarrow> 'mc set) \<Rightarrow> ('db, 'c, 'mdb, 'mc) system \<Rightarrow> bool" where
  "system_inv out mout s \<longleftrightarrow>
     conns_ok out mout (shared s) \<and>
     book (\<lambda>ref sid. session_conn ref sid (shared s)) (sessionPools (shared s)) (phases s) (named s)"

lemma conns_ok_simps [simp]:
  "conns_ok out mout (create_record sid ref h) = conns_ok out mout h"
  "conns_ok out mout (close_forget sid h) = conns_ok out mout h"
  "conns_ok out mout (parse_store sid sql h) = conns_ok out mout h"
  by (simp_all add: conns_ok_def create_record_def close_forget_def parse_store_def)

lemma conns_ok_reply: "send_reply how response h = (r, h') \<Longrightarrow> conns_ok out mout h' = conns_ok out mout h"
  by (simp add: conns_ok_def send_reply_keeps)

lemma system_inv_tells [simp]:
  "system_inv out mout (tells i a s) = system_inv out mout s"
  "system_inv out mout (tells_panic i r s) = system_inv out mout s"
  by (simp_all add: system_inv_def)

lemma not_underway_bind [simp]: "\<not> underway (bind_answer sid h)" "bind_answer sid h \<noteq> Running conn ref t sql"
  by (simp_all add: bind_answer_def split: option.split)

lemma conns_ok_steps:
  assumes "pg_driver_ok pd out" "my_driver_ok md mout" "conns_ok out mout h"
  shows "conns_ok out mout (snd (pool_acquire (server_pools pd md) ref sid h))"
    and "conns_ok out mout (pool_release (server_pools pd md) ref sid h)"
    and "conns_ok out mout (snd (statement_on pd md conn sql h))"
  using assms
  by (auto simp: conns_ok_def pool_acquire_def pool_release_def statement_on_def server_pools_def
      pgPoolAdapter_def mysqlPoolOps_def case_prod_unfold pg_acquire_inv my_acquire_inv pg_release_inv
      my_release_inv pg_query_on_inv my_query_on_inv pg_command_on_inv my_command_on_inv
      split: pool_ref.split option.split sum.split)

lemma not_underway [simp]: "\<not> underway (after_statement r)"
  by (simp add: after_statement_def split: result.split)

lemma not_running [simp]: "after_statement r \<noteq> Running conn ref sid sql"
  by (simp add: after_statement_def split: result.split)

lemma close_lookup_covers:
  "distinct (close_lookup sid h)" "sessionPools h sid = Some ref \<Longrightarrow> ref \<in> set (close_lookup sid h)"
  by (simp_all add: close_lookup_def split: option.split)

lemma section_step_inv:
  assumes drv: "pg_driver_ok pd out" "my_driver_ok md mout"
    and "section_step pd md s s'" and inv: "system_inv out mout s"
  shows "system_inv out mout s'"
proof -
  have ok: "conns_ok out mout (shared s)"
    and b: "book (\<lambda>ref sid. session_conn ref sid (shared s)) (sessionPools (shared s)) (phases s) (named s)"
    using inv by (simp_all add: system_inv_def)
  have stays: "system_inv out mout (goes i p h s)"
    if "\<not> underway (phases s i)" "\<not> underway p" "conns_ok out mout h"
      "\<And>r t. session_conn r t h = session_conn r t (shared s)" "sessionPools h = sessionPools (shared s)"
      "\<And>conn ref sid sql. p = Running conn ref sid sql \<Longrightarrow> session_conn ref sid (shared s) = Some conn"
    for i p h
    using book_moves [OF b that(1,2)] that by (simp add: system_inv_def)
  have named: "system_inv out mout (names sid s')" if "system_inv out mout s'" for s' sid
    using that book_named by (auto simp: system_inv_def)
  from assms(3) show ?thesis
  proof cases
    case (acquire i sid protocol ref h)
    have none: "session_conn ref sid (shared s) = None" using bookD(1) [OF b] acquire(3) by blast
    obtain conn where
      c: "\<And>r t. session_conn r t h = (if r = ref \<and> t = sid then Some conn else session_conn r t (shared s))"
      by (rule session_conn_acquire [OF acquire(5) none]) (rule that)
    have p: "sessionPools h = sessionPools (shared s)" using acquire(5) by (rule pool_acquire_sessionPools)
    have "conns_ok out mout h" using conns_ok_steps(1) [OF drv ok, of ref sid] acquire(5) by simp
    then show ?thesis
      using book_acquire [OF b acquire(2,3), of ref conn] acquire(1) c p by (simp add: system_inv_def)
  next
    case (acquire_fails i sid protocol ref r h)
    have "conns_ok out mout h" using conns_ok_steps(1) [OF drv ok, of ref sid] acquire_fails(5) by simp
    then show ?thesis
      unfolding acquire_fails(1)
      unfolding system_inv_tells
      by (intro named stays)
        (simp_all add: acquire_fails session_conn_acquire_fails [OF acquire_fails(5,6)]
          pool_acquire_sessionPools [OF acquire_fails(5)])
  next
    case (recorded i sid ref)
    then show ?thesis using book_record [OF b recorded(2)] ok by (simp add: system_inv_def)
  next
    case (close i sid)
    then show ?thesis
      using book_close [OF b close(2) _ close_lookup_covers, of sid] ok by (simp add: system_inv_def known_def)
  next
    case (release i sid ref refs)
    then show ?thesis
      using book_release [OF b release(2)] conns_ok_steps(2) [OF drv ok, of ref sid]
      by (simp add: system_inv_def session_conn_release)
  next
    case (forget i sid)
    then show ?thesis using book_forget [OF b forget(2)] ok by (simp add: system_inv_def)
  next
    case (parsed i sid sql)
    then show ?thesis by (auto intro!: named stays simp: ok)
  next
    case (run i conn ref sid sql r h)
    have "conns_ok out mout h" using conns_ok_steps(3) [OF drv ok, of conn sql] run(3) by simp
    then show ?thesis
      unfolding run(1) system_inv_tells
      by (intro stays) (simp_all add: run session_conn_statement_on [OF run(3)])
  next
    case (replied i how response r h)
    then show ?thesis
      unfolding replied(1) system_inv_tells
      by (intro stays)
        (simp_all add: session_conn_send_reply [OF replied(3)] conns_ok_reply [OF replied(3)] ok send_reply_keeps [OF replied(3)])
  next
    case (unparsed i sid)
    then show ?thesis using inv by (auto intro!: named)
  next
    case (create_refused i body protocol r sid)
    then show ?thesis using inv by simp
  next
    case (query_refused i sid body r)
    then show ?thesis using inv by simp
  qed (auto intro!: named stays simp: ok)
qed

lemma interleaved_inv:
  assumes "interleaved pd md h s" "pg_driver_ok pd out" "my_driver_ok md mout" "conns_ok out mout h"
    and "sessionPools h = Map.empty" "\<And>ref sid. session_conn ref sid h = None"
  shows "system_inv out mout s"
  using assms
proof (induction rule: interleaved.induct)
  case start
  then show ?case using book_start by (simp add: system_inv_def starts_def)
next
  case (further s s')
  then show ?case using section_step_inv by blast
qed

lemma system_inv_quiet:
  assumes "system_inv out mout s" and quiet: "\<And>i. \<not> underway (phases s i)"
  shows "session_inv (\<lambda>pm. dom (sessions pm)) (\<lambda>pm. dom (my_sessions pm)) (shared s)"
proof -
  have b: "book (\<lambda>ref sid. session_conn ref sid (shared s)) (sessionPools (shared s)) (phases s) (named s)"
    using assms(1) by (simp add: system_inv_def)
  have "phases s i \<noteq> Creating sid ref" "phases s i \<noteq> Releasing sid refs" for i sid ref refs
    using quiet [of i] by auto
  then have c: "session_conn ref sid (shared s) \<noteq> None \<longleftrightarrow> sessionPools (shared s) sid = Some ref" for ref sid
    using bookD(2,4) [OF b] by blast
  have "dom (sessions (pgPool (shared s))) = {sid. session_conn UsePg sid (shared s) \<noteq> None}"
    "my_held (\<lambda>pm. dom (my_sessions pm)) (mysqlPool (shared s)) = {sid. session_conn UseMy sid (shared s) \<noteq> None}"
    by (auto simp: session_conn_def pg_GetSessionConn_def my_held_def split: option.split)
  then show ?thesis unfolding session_inv_def c by blast
qed

text \<open>Where a server starts: \<open>NewHandler\<close> over two pools that have given out no connection.\<close>

definition starts_empty where
  "starts_empty out mout h \<longleftrightarrow>
     sessions (pgPool h) = Map.empty \<and> out (pool (pgPool h)) = {} \<and> sessionPools h = Map.empty \<and>
     (\<forall>m. mysqlPool h = Some m \<longrightarrow> my_sessions m = Map.empty \<and> map_option mout (my_db m) = Some {})"

lemma starts_empty_inv:
  assumes "starts_empty out mout h"
  shows "conns_ok out mout h" "sessionPools h = Map.empty" "session_conn ref sid h = None"
  using assms
  by (auto simp: starts_empty_def conns_ok_def pg_inv_def my_inv_def session_conn_def pg_GetSessionConn_def
      split: pool_ref.split option.split)

section \<open>What holds of every interleaving\<close>

text \<open>
  C16: However the sections of any number of concurrent requests are interleaved, no two sessions of a
  pool ever share a connection and the connections taken from the drivers are exactly those the
  pools hold for a session; and whenever no creation and no close is on its way, those sessions
  are exactly the ones the handler has recorded for the pool.
\<close>

theorem interleaved_sessions:
  assumes "pg_driver_ok pd out" "my_driver_ok md mout" "starts_empty out mout h0"
    and "interleaved pd md h0 s" "h = shared s"
  shows "inj_on (sessions (pgPool h)) (dom (sessions (pgPool h)))
    \<and> ran (sessions (pgPool h)) = out (pool (pgPool h))
    \<and> (\<forall>m. mysqlPool h = Some m \<longrightarrow>
        inj_on (my_sessions m) (dom (my_sessions m)) \<and> map_option mout (my_db m) = Some (ran (my_sessions m)))
    \<and> ((\<forall>i. \<not> underway (phases s i)) \<longrightarrow>
        dom (sessions (pgPool h)) = {sid. sessionPools h sid = Some UsePg} \<and>
        (\<forall>m. mysqlPool h = Some m \<longrightarrow> dom (my_sessions m) = {sid. sessionPools h sid = Some UseMy}))"
proof -
  have inv: "system_inv out mout s"
    by (rule interleaved_inv [OF assms(4,1,2)]) (use assms(3) in \<open>simp_all add: starts_empty_inv\<close>)
  then have ok: "conns_ok out mout h" using assms(5) by (simp add: system_inv_def)
  have quiet: "dom (sessions (pgPool h)) = {sid. sessionPools h sid = Some UsePg} \<and>
      (\<forall>m. mysqlPool h = Some m \<longrightarrow> dom (my_sessions m) = {sid. sessionPools h sid = Some UseMy})"
    if "\<forall>i. \<not> underway (phases s i)"
    using system_inv_quiet [OF inv] that assms(5) by (simp add: session_inv_def my_held_def split: option.splits)
  have "inj_on (my_sessions m) (dom (my_sessions m)) \<and> map_option mout (my_db m) = Some (ran (my_sessions m))"
    if "mysqlPool h = Some m" for m
    using ok that by (simp add: conns_ok_def my_inv_def dedicated_def split: option.splits)
  then show ?thesis using ok quiet by (simp add: conns_ok_def pg_inv_def dedicated_def)
qed

text \<open>
  C17: A statement that runs on a connection while its session is open runs on that session's
  connection, which is taken from the driver and belongs to no other session, whatever other
  requests do meanwhile.
\<close>

theorem running_statement:
  assumes "pg_driver_ok pd out" "my_driver_ok md mout" "starts_empty out mout h0"
    and "interleaved pd md h0 s" "phases s i = Running conn ref sid sql"
    and "session_conn ref sid (shared s) \<noteq> None"
  shows "session_conn ref sid (shared s) = Some conn
    \<and> (\<forall>c. conn = Inl c \<longrightarrow> c \<in> out (pool (pgPool (shared s))))
    \<and> (\<forall>ref' sid'. session_conn ref' sid' (shared s) = Some conn \<longrightarrow> ref' = ref \<and> sid' = sid)"
proof -
  have inv: "system_inv out mout s"
    by (rule interleaved_inv [OF assms(4,1,2)]) (use assms(3) in \<open>simp_all add: starts_empty_inv\<close>)
  then have b: "book (\<lambda>ref sid. session_conn ref sid (shared s)) (sessionPools (shared s)) (phases s) (named s)"
    and ok: "conns_ok out mout (shared s)" by (simp_all add: system_inv_def)
  have own: "session_conn ref sid (shared s) = Some conn" using bookD(11) [OF b assms(5)] assms(6) by simp
  have pg: "inj_on (sessions (pgPool (shared s))) (dom (sessions (pgPool (shared s))))"
    "ran (sessions (pgPool (shared s))) = out (pool (pgPool (shared s)))"
    using ok by (simp_all add: conns_ok_def pg_inv_def dedicated_def)
  have my: "inj_on (my_sessions m) (dom (my_sessions m))" if "mysqlPool (shared s) = Some m" for m
    using ok that by (auto simp: conns_ok_def my_inv_def dedicated_def split: option.splits)
  have "c \<in> out (pool (pgPool (shared s)))" if "conn = Inl c" for c
    using own that pg(2) by (auto simp: session_conn_def pg_GetSessionConn_def ran_def split: pool_ref.splits option.splits)
  moreover have "ref' = ref \<and> sid' = sid" if "session_conn ref' sid' (shared s) = Some conn" for ref' sid'
    using own that inj_onD [OF pg(1)] inj_onD [OF my]
    by (fastforce simp: session_conn_def pg_GetSessionConn_def dom_def split: pool_ref.splits option.splits)
  ultimately show ?thesis using own by blast
qed

section \<open>A request that runs alone\<close>

lemma goes_goes [simp]:
  "goes i p h (goes i q h' s) = goes i p h s"
  "goes i p h (names sid s) = names sid (goes i p h s)"
  "goes i p h (tells j a s) = tells j a (goes i p h s)"
  "names sid (tells j a s) = tells j a (names sid s)"
  by (simp_all add: goes_def names_def tells_def)

text \<open>The system after goroutine \<open>i\<close> has given the answer \<open>a\<close> and left the handler as \<open>h\<close>.\<close>

definition answered ::
  "nat \<Rightarrow> answer \<Rightarrow> ('db, 'c, 'mdb, 'mc) server \<Rightarrow> string set \<Rightarrow> ('db, 'c, 'mdb, 'mc) system
    \<Rightarrow> ('db, 'c, 'mdb, 'mc) system" where
  "answered i a h N s = s\<lparr>shared := h, named := N, answers := (answers s)(i \<mapsto> a)\<rparr>"

lemma goes_answered:
  "phases s i = Idle \<Longrightarrow> tells i a (names sid (goes i Idle h s)) = answered i a h (insert sid (named s)) s"
  "phases s i = Idle \<Longrightarrow> tells i a s = answered i a (shared s) (named s) s"
  by (simp_all add: goes_def names_def tells_def answered_def fun_upd_idem)

lemma send_reply_simps [simp]:
  "send_reply (Some prefix) response h = reply prefix response h"
  "send_reply None response h = reply_ignoring response h"
  by (simp_all add: send_reply_def)

lemma replies:
  assumes "phases s i = Replying how response" "send_reply how response (shared s) = (r, h)"
  shows "(section_step pd md)\<^sup>*\<^sup>* s (tells i (ToAsk r) (goes i Idle h s))"
  using section_step.replied [OF assms] by (rule r_into_rtranclp)

text \<open>A statement that has its response, sends it or panics.\<close>

definition statement_sent ::
  "QueryResponse result \<Rightarrow> ('db, 'c, 'mdb, 'mc) server \<Rightarrow> byte list result \<times> ('db, 'c, 'mdb, 'mc) server" where
  "statement_sent r h =
     (case r of
        Ok response \<Rightarrow> reply ''encrypt response'' response h
      | Err e \<Rightarrow> reply ''encrypt response'' (empty_response\<lparr>Error := error_text e\<rparr>) h
      | Panic p \<Rightarrow> (Panic p, h))"

lemma after_alone:
  assumes "statement_sent r h = (a, h')"
  shows "(section_step pd md)\<^sup>*\<^sup>* (tells_panic i r (goes i (after_statement r) h s)) (tells i (ToAsk a) (goes i Idle h' s))"
proof (cases r)
  case (Panic p)
  then show ?thesis using assms by (simp add: after_statement_def tells_panic_def statement_sent_def)
qed (use assms replies [of "goes i (after_statement r) h s" i "Some ''encrypt response''" _ a h' pd md]
    in \<open>simp_all add: after_statement_def tells_panic_def statement_sent_def\<close>)

lemma execute_and_reply_sent:
  "execute_and_reply I sid sql h = (case executeSQL I sid sql (sqlCommandType sql) h of (r, h') \<Rightarrow> statement_sent r h')"
  by (simp add: execute_and_reply_def statement_sent_def split: prod.split result.split)

lemma running_alone:
  assumes "phases s i = Running conn ref sid sql" "statement_on pd md conn sql (shared s) = (r, h)"
    and "statement_sent r h = (a, h')"
  shows "(section_step pd md)\<^sup>*\<^sup>* s (tells i (ToAsk a) (goes i Idle h' s))"
  using section_step.run [OF assms(1,2)] after_alone [OF assms(3)] by (rule converse_rtranclp_into_rtranclp)

lemma connecting_alone:
  assumes "phases s i = Connecting ref sid sql"
    and "(case session_conn ref sid (shared s) of
        Some conn \<Rightarrow> statement_on pd md conn sql (shared s)
      | None \<Rightarrow> (without_conn ref sid (shared s), shared s)) = (r, h)"
    and "statement_sent r h = (a, h')"
  shows "(section_step pd md)\<^sup>*\<^sup>* s (tells i (ToAsk a) (goes i Idle h' s))"
proof (cases "session_conn ref sid (shared s)")
  case None
  then have r: "without_conn ref sid (shared s) = r" "h = shared s" using assms(2) by (simp only: option.case prod.inject)+
  show ?thesis
    using section_step.no_session [OF assms(1) None r(1), of pd md] after_alone [OF assms(3), of pd md i s] unfolding r(2)
    by (rule converse_rtranclp_into_rtranclp)
next
  case (Some conn)
  then have "section_step pd md s (goes i (Running conn ref sid sql) (shared s) s)"
    using assms(1) by (intro section_step.connect)
  moreover have "(section_step pd md)\<^sup>*\<^sup>* (goes i (Running conn ref sid sql) (shared s) s)
      (tells i (ToAsk a) (goes i Idle h' (goes i (Running conn ref sid sql) (shared s) s)))"
    using assms(2,3) Some by (intro running_alone) simp_all
  ultimately show ?thesis by (simp add: converse_rtranclp_into_rtranclp)
qed

lemma statement_alone:
  assumes "phases s i = Routing sid sql" "execute_and_reply (server_pools pd md) sid sql (shared s) = (a, h')"
  shows "(section_step pd md)\<^sup>*\<^sup>* s (tells i (ToAsk a) (goes i Idle h' s))"
proof -
  let ?ref = "getSessionPool sid (shared s)"
  let ?s1 = "goes i (Connecting ?ref sid sql) (shared s) s"
  obtain r h where e: "executeSQL (server_pools pd md) sid sql (sqlCommandType sql) (shared s) = (r, h)" by fastforce
  have "(section_step pd md)\<^sup>*\<^sup>* ?s1 (tells i (ToAsk a) (goes i Idle h' ?s1))"
  proof (rule connecting_alone)
    show "(case session_conn ?ref sid (shared ?s1) of
        Some conn \<Rightarrow> statement_on pd md conn sql (shared ?s1)
      | None \<Rightarrow> (without_conn ?ref sid (shared ?s1), shared ?s1)) = (r, h)"
      using e by (cases "session_conn ?ref sid (shared s)") (auto simp: executeSQL_sections without_conn_def split: if_splits)
    show "statement_sent r h = (a, h')" using assms(2) e by (simp add: execute_and_reply_sent)
  qed simp
  with section_step.route [OF assms(1), of pd md] show ?thesis by (simp add: converse_rtranclp_into_rtranclp)
qed

lemma create_alone:
  assumes idle: "phases s i = Idle" and fresh: "sid \<notin> named s"
    and c: "CreateSession (server_pools pd md) sid body protocol (shared s) = (a, h')"
  shows "\<exists>N. (section_step pd md)\<^sup>*\<^sup>* s (answered i (ToCreate a) h' N s)"
proof (cases "create_check body protocol (shared s)")
  case (Ok ref)
  then obtain p where ok: "Decrypt body (encKey (shared s)) = Ok p" "poolForProtocol protocol (shared s) = Some ref"
    by (auto simp: create_check_def rbind_eq_Ok_iff split: option.splits)
  obtain r h where ac: "pool_acquire (server_pools pd md) ref sid (shared s) = (r, h)" by fastforce
  show ?thesis
  proof (cases "r = Ok ()")
    case True
    let ?t = "names sid (goes i (Creating sid ref) h s)"
    have "section_step pd md s ?t" using section_step.acquire [OF idle fresh ok(2)] ac True by simp
    moreover have "section_step pd md ?t
        (tells i (ToCreate (rbind (log_id sid) (\<lambda>_. Ok sid))) (names sid (goes i Idle (create_record sid ref h) s)))"
      using section_step.recorded [of ?t i sid ref pd md] by simp
    moreover have "a = rbind (log_id sid) (\<lambda>_. Ok sid)" "h' = create_record sid ref h"
      using c ac True ok by (simp_all add: CreateSession_def create_record_def Let_def)
    ultimately show ?thesis using goes_answered(1) [OF idle]
      by (metis converse_rtranclp_into_rtranclp r_into_rtranclp)
  next
    case False
    have "section_step pd md s
        (tells i (ToCreate (rbind (wrap_err ''acquire connection'' r) (\<lambda>_. Ok sid))) (names sid (goes i Idle h s)))"
      using section_step.acquire_fails [OF idle fresh ok(2) ac False] .
    moreover have "a = rbind (wrap_err ''acquire connection'' r) (\<lambda>_. Ok sid)" "h' = h"
      using c ac False ok by (cases r; simp add: CreateSession_def)+
    ultimately show ?thesis using goes_answered(1) [OF idle] by (metis r_into_rtranclp)
  qed
next
  case (Err e)
  then have "a = rbind (create_check body protocol (shared s)) (\<lambda>_. Ok sid)" "h' = shared s"
    using c by (cases "Decrypt body (encKey (shared s))"; auto simp: CreateSession_def create_check_def split: option.splits)+
  with section_step.create_refused [OF idle refl, of body protocol pd md sid] Err show ?thesis
    using goes_answered(2) [OF idle] by (metis r_into_rtranclp result.distinct(1))
next
  case (Panic p)
  then have "a = rbind (create_check body protocol (shared s)) (\<lambda>_. Ok sid)" "h' = shared s"
    using c by (cases "Decrypt body (encKey (shared s))"; auto simp: CreateSession_def create_check_def split: option.splits)+
  with section_step.create_refused [OF idle refl, of body protocol pd md sid] Panic show ?thesis
    using goes_answered(2) [OF idle] by (metis r_into_rtranclp result.distinct(3))
qed

lemma releases_alone:
  assumes "phases s i = Releasing sid refs"
  shows "(section_step pd md)\<^sup>*\<^sup>* s
    (tells i (ToClose (rbind (log_id sid) (\<lambda>_. Ok ())))
      (goes i Idle (close_forget sid (fold (\<lambda>ref. pool_release (server_pools pd md) ref sid) refs (shared s))) s))"
  using assms
proof (induction refs arbitrary: s)
  case Nil
  then show ?case using section_step.forget [of s i sid pd md] by (simp add: r_into_rtranclp)
next
  case (Cons ref refs)
  let ?t = "goes i (Releasing sid refs) (pool_release (server_pools pd md) ref sid (shared s)) s"
  have "section_step pd md s ?t" using section_step.release [OF Cons.prems] .
  with Cons.IH [of ?t] show ?case by (simp add: converse_rtranclp_into_rtranclp)
qed

lemma close_alone:
  assumes idle: "phases s i = Idle" and "known sid s"
    and c: "CloseSession (server_pools pd md) sid (shared s) = (a, h')"
  shows "\<exists>N. (section_step pd md)\<^sup>*\<^sup>* s (answered i (ToClose a) h' N s)"
proof -
  let ?t = "names sid (goes i (Releasing sid (close_lookup sid (shared s))) (shared s) s)"
  have "h' = close_forget sid (fold (\<lambda>ref. pool_release (server_pools pd md) ref sid) (close_lookup sid (shared s)) (shared s))"
    "a = rbind (log_id sid) (\<lambda>_. Ok ())"
    using c by (auto simp: CloseSession_def close_forget_def close_lookup_def Let_def split: option.splits)
  moreover have "section_step pd md s ?t" using section_step.close [OF assms(1,2)] .
  ultimately have "(section_step pd md)\<^sup>*\<^sup>* s (tells i (ToClose a) (names sid (goes i Idle h' s)))"
    using releases_alone [of ?t i sid "close_lookup sid (shared s)" pd md]
    by (simp add: converse_rtranclp_into_rtranclp)
  then show ?thesis using goes_answered(1) [OF idle] by metis
qed

text \<open>A query that is answered after one section, and one that runs a statement.\<close>

lemma reply_alone:
  assumes idle: "phases s i = Idle" and "section_step pd md s (names sid (goes i (Replying how response) h s))"
    and "send_reply how response h = (a, h')"
  shows "\<exists>N. (section_step pd md)\<^sup>*\<^sup>* s (answered i (ToAsk a) h' N s)"
proof -
  have "(section_step pd md)\<^sup>*\<^sup>* s (tells i (ToAsk a) (names sid (goes i Idle h' s)))"
    using assms(2) replies [of "names sid (goes i (Replying how response) h s)" i how response a h' pd md] assms(3)
    by (simp add: converse_rtranclp_into_rtranclp)
  then show ?thesis using goes_answered(1) [OF idle] by metis
qed

lemma execution_alone:
  assumes idle: "phases s i = Idle" and known: "known sid s"
    and "execute_and_reply (server_pools pd md) sid sql (shared s) = (a, h')"
  shows "\<exists>N. (section_step pd md)\<^sup>*\<^sup>* s (answered i (ToAsk a) h' N s)"
proof -
  let ?t = "names sid (goes i (Routing sid sql) (shared s) s)"
  have "(section_step pd md)\<^sup>*\<^sup>* s (tells i (ToAsk a) (names sid (goes i Idle h' s)))"
    using section_step.statement [OF assms(1,2), of pd md sql] statement_alone [of ?t i sid sql pd md a h'] assms(3)
    by (simp add: converse_rtranclp_into_rtranclp)
  then show ?thesis using goes_answered(1) [OF idle] by metis
qed

lemma ask_alone:
  assumes idle: "phases s i = Idle" and known: "known sid s"
    and q: "HandleQuery (server_pools pd md) sid body (shared s) = (a, h')"
  shows "\<exists>N. (section_step pd md)\<^sup>*\<^sup>* s (answered i (ToAsk a) h' N s)"
proof (cases "\<exists>req. query_check sid body (shared s) = Ok req")
  case False
  then have "a = rbind (query_check sid body (shared s)) (\<lambda>_. Ok [])" "h' = shared s"
    using q by (auto simp: HandleQuery_def query_check_def split: result.splits)
  with section_step.query_refused [OF idle refl, of sid body pd md] False show ?thesis
    using goes_answered(2) [OF idle] by (metis r_into_rtranclp)
next
  case True
  then obtain req where req: "query_check sid body (shared s) = Ok req" by blast
  have by_type: "(a, h') =
     (if Type req = byte_of CHR ''P'' then
        send_reply (Some ''encrypt parse response'') empty_response (parse_store sid (SQL req) (shared s))
      else if Type req = byte_of CHR ''B'' then
        (case cachedSQL sid (shared s) of
           None \<Rightarrow> send_reply None (empty_response\<lparr>Error := no_statement\<rparr>) (shared s)
         | Some _ \<Rightarrow> send_reply (Some ''encrypt bind response'') empty_response (shared s))
      else if Type req = byte_of CHR ''D'' then send_reply (Some ''encrypt describe response'') empty_response (shared s)
      else if Type req = byte_of CHR ''S'' then send_reply (Some ''encrypt sync response'') empty_response (shared s)
      else if Type req = byte_of CHR ''E'' then
        (case cachedSQL sid (shared s) of
           None \<Rightarrow> (Err (ErrorS no_statement), shared s)
         | Some sql \<Rightarrow> execute_and_reply (server_pools pd md) sid sql (shared s))
      else execute_and_reply (server_pools pd md) sid (SQL req) (shared s))"
    unfolding q [symmetric] HandleQuery_def req [unfolded query_check_def] parse_store_def
    by (simp split: option.split)
  have unparsed: ?thesis if "cachedSQL sid (shared s) = None" "(a, h') = (Err (ErrorS no_statement), shared s)"
  proof -
    have "goes i Idle (shared s) s = s" using idle by (simp add: goes_def fun_upd_idem)
    then show ?thesis
      using section_step.unparsed [OF idle known that(1), of pd md] that(2) goes_answered(1) [OF idle, of _ sid "shared s"]
      by (metis goes_goes(4) prod.inject r_into_rtranclp)
  qed
  have parsed: ?thesis if "send_reply (Some ''encrypt parse response'') empty_response (parse_store sid (SQL req) (shared s)) = (a, h')"
    using reply_alone [OF idle section_step.parsed [OF idle known] that] .
  have bound: ?thesis if "goes i (bind_answer sid (shared s)) (shared s) s = goes i (Replying how response) (shared s) s" "send_reply how response (shared s) = (a, h')" for how response
    by (rule reply_alone [OF idle _ that(2), where sid = sid]) (use section_step.bound [OF idle known, of pd md] that(1) in simp)
  have described: ?thesis if "prefix \<in> {''encrypt describe response'', ''encrypt sync response''}"
      "send_reply (Some prefix) empty_response (shared s) = (a, h')" for prefix
    using reply_alone [OF idle section_step.described [OF idle known that(1)] that(2)] .
  have executed: ?thesis if "execute_and_reply (server_pools pd md) sid sql (shared s) = (a, h')" for sql
    by (rule execution_alone [OF idle known that])
  consider (P) "Type req = byte_of CHR ''P''" | (B) "Type req = byte_of CHR ''B''"
    | (D) "Type req = byte_of CHR ''D''" | (S) "Type req = byte_of CHR ''S''" | (E) "Type req = byte_of CHR ''E''"
    | (Q) "Type req \<notin> {byte_of CHR ''P'', byte_of CHR ''B'', byte_of CHR ''D'', byte_of CHR ''S'', byte_of CHR ''E''}"
    by blast
  then show ?thesis
  proof cases
    case P
    with by_type parsed show ?thesis by simp
  next
    case B
    note by_type = by_type [unfolded B byte_of_eq_iff, simplified]
    show ?thesis
    proof (cases "cachedSQL sid (shared s)")
      case None
      with by_type bound [of None "empty_response\<lparr>Error := no_statement\<rparr>"] show ?thesis by (simp add: bind_answer_def)
    next
      case (Some sql)
      with by_type bound [of "Some ''encrypt bind response''" empty_response] show ?thesis by (simp add: bind_answer_def)
    qed
  next
    case D
    with by_type [unfolded D byte_of_eq_iff, simplified] show ?thesis
      by (intro described [of "''encrypt describe response''"]) simp_all
  next
    case S
    with by_type [unfolded S byte_of_eq_iff, simplified] show ?thesis
      by (intro described [of "''encrypt sync response''"]) simp_all
  next
    case E
    with by_type [unfolded E byte_of_eq_iff, simplified] unparsed executed show ?thesis
      by (cases "cachedSQL sid (shared s)") simp_all
  next
    case Q
    with by_type executed show ?thesis by simp
  qed
qed

text \<open>
  A request that has begun has one next section, whatever the others do: the goroutine's own steps
  are those of \<open>next_section\<close>.
\<close>

definition next_section ::
  "('db, 'c, 'v) pg_driver \<Rightarrow> ('mdb, 'mc, 'mv) my_driver \<Rightarrow> nat
    \<Rightarrow> ('db, 'c, 'mdb, 'mc) system \<Rightarrow> ('db, 'c, 'mdb, 'mc) system" where
  "next_section pd md i s =
     (case phases s i of
        Idle \<Rightarrow> s
      | Creating sid ref \<Rightarrow>
          tells i (ToCreate (rbind (log_id sid) (\<lambda>_. Ok sid))) (goes i Idle (create_record sid ref (shared s)) s)
      | Releasing sid [] \<Rightarrow>
          tells i (ToClose (rbind (log_id sid) (\<lambda>_. Ok ()))) (goes i Idle (close_forget sid (shared s)) s)
      | Releasing sid (ref # refs) \<Rightarrow>
          goes i (Releasing sid refs) (pool_release (server_pools pd md) ref sid (shared s)) s
      | Routing sid sql \<Rightarrow> goes i (Connecting (getSessionPool sid (shared s)) sid sql) (shared s) s
      | Connecting ref sid sql \<Rightarrow>
          (case session_conn ref sid (shared s) of
             Some conn \<Rightarrow> goes i (Running conn ref sid sql) (shared s) s
           | None \<Rightarrow>
               let r = without_conn ref sid (shared s)
               in tells_panic i r (goes i (after_statement r) (shared s) s))
      | Running conn ref sid sql \<Rightarrow>
          (case statement_on pd md conn sql (shared s) of
             (r, h) \<Rightarrow> tells_panic i r (goes i (after_statement r) h s))
      | Replying how response \<Rightarrow>
          (case send_reply how response (shared s) of (r, h) \<Rightarrow> tells i (ToAsk r) (goes i Idle h s)))"

lemma next_section_only:
  assumes "section_step pd md s s'" and "phases s i \<noteq> Idle" and "phases s' i \<noteq> phases s i"
  shows "s' = next_section pd md i s"
  using assms by cases (auto simp: next_section_def Let_def split: if_splits)

lemma begun_request_determined:
  assumes "phases s i \<noteq> Idle" and "section_step pd md s t" "phases t i \<noteq> phases s i"
    and "section_step pd md s t'" "phases t' i \<noteq> phases s i"
  shows "t' = t"
  using next_section_only assms by metis

text \<open>The answer of the one-step model to a call.\<close>

fun call_answer :: "('p, 'm) pools \<Rightarrow> call \<Rightarrow> ('p, 'm) Handler \<Rightarrow> answer" where
  "call_answer I (Create sid body protocol) h = ToCreate (fst (CreateSession I sid body protocol h))"
| "call_answer I (Ask sid body) h = ToAsk (fst (HandleQuery I sid body h))"
| "call_answer I (Close sid) h = ToClose (fst (CloseSession I sid h))"

fun names_known :: "call \<Rightarrow> ('db, 'c, 'mdb, 'mc) system \<Rightarrow> bool" where
  "names_known (Create sid body protocol) s \<longleftrightarrow> sid \<notin> named s"
| "names_known (Ask sid body) s \<longleftrightarrow> known sid s"
| "names_known (Close sid) s \<longleftrightarrow> known sid s"


text \<open>
  However requests are interleaved, each of them can go on to its end on its own, with every other
  goroutine left where it stands: between two sections no mutex is held.
\<close>

theorem request_ends: "\<exists>h A. (section_step pd md)\<^sup>*\<^sup>* s ((goes i Idle h s)\<lparr>answers := A\<rparr>)"
proof -
  have tells: "tells i a t = t\<lparr>answers := (answers t)(i \<mapsto> a)\<rparr>" for a t by (simp add: tells_def)
  show ?thesis
  proof (cases "phases s i")
    case Idle
    then have "(goes i Idle (shared s) s)\<lparr>answers := answers s\<rparr> = s" by (simp add: goes_def fun_upd_idem)
    then show ?thesis by (metis rtranclp.rtrancl_refl)
  next
    case (Creating sid ref)
    from section_step.recorded [OF this, of pd md] show ?thesis unfolding tells by (blast intro: r_into_rtranclp)
  next
    case (Connecting ref sid sql)
    obtain r h where "(case session_conn ref sid (shared s) of
        Some conn \<Rightarrow> statement_on pd md conn sql (shared s)
      | None \<Rightarrow> (without_conn ref sid (shared s), shared s)) = (r, h)" by fastforce
    moreover obtain a h' where "statement_sent r h = (a, h')" by fastforce
    ultimately show ?thesis using connecting_alone [OF Connecting] unfolding tells by blast
  next
    case (Releasing sid refs)
    from releases_alone [OF this, of pd md] show ?thesis unfolding tells by blast
  next
    case (Routing sid sql)
    obtain a h' where "execute_and_reply (server_pools pd md) sid sql (shared s) = (a, h')" by fastforce
    then show ?thesis using statement_alone [OF Routing] unfolding tells by blast
  next
    case (Running conn ref sid sql)
    obtain r h where "statement_on pd md conn sql (shared s) = (r, h)" by fastforce
    moreover obtain a h' where "statement_sent r h = (a, h')" by fastforce
    ultimately show ?thesis using running_alone [OF Running] unfolding tells by blast
  next
    case (Replying how response)
    obtain r h where "send_reply how response (shared s) = (r, h)" by fastforce
    then show ?thesis using replies [OF Replying] unfolding tells by blast
  qed
qed

section \<open>Witnesses\<close>

text \<open>
  One goroutine creates a session and runs a statement in it; another closes the session when the
  statement already has its connection.
\<close>

definition open_server :: "(nat list, nat, nat list, nat) server" where
  "open_server = create_record ''session-1'' UsePg
     (example_server\<lparr>pgPool := \<lparr>pool = [1], sessions = [''session-1'' \<mapsto> 1]\<rparr>\<rparr>)"

definition example_open :: "(nat list, nat, nat list, nat) system" where
  "example_open = tells 0 (ToCreate (Ok ''session-1'')) (names ''session-1'' (goes 0 Idle open_server (starts example_server)))"

definition example_running :: "(nat list, nat, nat list, nat) system" where
  "example_running = goes 0 (Running (Inl 1) UsePg ''session-1'' ''SELECT 1'') open_server example_open"

definition example_released :: "(nat list, nat, nat list, nat) system" where
  "example_released = goes 1 (Releasing ''session-1'' [])
     (open_server\<lparr>pgPool := \<lparr>pool = [], sessions = Map.empty\<rparr>\<rparr>) example_running"

lemma example_starts_empty: "starts_empty set set example_server"
  by (simp add: starts_empty_def example_server_def)

lemma names_again [simp]: "sid \<in> named s \<Longrightarrow> names sid s = s"
  by (simp add: names_def insert_absorb)

lemma open_server_simps [simp]:
  "session_conn UsePg ''session-1'' open_server = Some (Inl 1)" "getSessionPool ''session-1'' open_server = UsePg"
  "close_lookup ''session-1'' open_server = [UsePg]"
  "shared example_open = open_server" "phases example_open i = Idle" "named example_open = {''session-1''}"
  by (simp_all add: open_server_def session_conn_def pg_GetSessionConn_def getSessionPool_def close_lookup_def
      example_open_def)

lemma example_open_interleaved: "interleaved list_driver my_list_driver example_server example_open"
proof -
  let ?h = "example_server\<lparr>pgPool := \<lparr>pool = [1], sessions = [''session-1'' \<mapsto> (1 :: nat)]\<rparr>\<rparr>"
  let ?s = "names ''session-1'' (goes 0 (Creating ''session-1'' UsePg) ?h (starts example_server))"
  have "section_step list_driver my_list_driver (starts example_server) ?s"
    by (rule section_step.acquire [where protocol = "''pg''"])
      (simp_all add: poolForProtocol_def pool_acquire_def server_pools_def pgPoolAdapter_def pg_AcquireSession_def
        list_driver_def example_server_def)
  moreover have "section_step list_driver my_list_driver ?s example_open"
    using section_step.recorded [of ?s 0 "''session-1''" UsePg list_driver my_list_driver]
    by (simp add: example_open_def open_server_def log_id_def slice_def)
  ultimately show ?thesis by (blast intro: interleaved.start interleaved.further)
qed

lemma example_running_interleaved: "interleaved list_driver my_list_driver example_server example_running"
proof -
  let ?s = "\<lambda>p. goes 0 p open_server example_open"
  have "section_step list_driver my_list_driver example_open (?s (Routing ''session-1'' ''SELECT 1''))"
    using section_step.statement [of example_open 0 "''session-1''" list_driver my_list_driver "''SELECT 1''"]
    by (simp add: known_def)
  moreover have "section_step list_driver my_list_driver (?s (Routing ''session-1'' ''SELECT 1''))
      (?s (Connecting UsePg ''session-1'' ''SELECT 1''))"
    using section_step.route [of "?s (Routing ''session-1'' ''SELECT 1'')" 0 "''session-1''" "''SELECT 1''"] by simp
  moreover have "section_step list_driver my_list_driver (?s (Connecting UsePg ''session-1'' ''SELECT 1'')) example_running"
    using section_step.connect [of "?s (Connecting UsePg ''session-1'' ''SELECT 1'')" 0 UsePg "''session-1''" "''SELECT 1''" "Inl 1"]
    by (simp add: example_running_def)
  ultimately show ?thesis using example_open_interleaved by (blast intro: interleaved.further)
qed

lemma example_released_interleaved: "interleaved list_driver my_list_driver example_server example_released"
proof -
  let ?s = "names ''session-1'' (goes 1 (Releasing ''session-1'' [UsePg]) open_server example_running)"
  have "section_step list_driver my_list_driver example_running ?s"
    using section_step.close [of example_running 1 "''session-1''" list_driver my_list_driver]
    by (simp add: known_def example_running_def)
  moreover have "section_step list_driver my_list_driver ?s example_released"
    using section_step.release [of ?s 1 "''session-1''" UsePg "[]" list_driver my_list_driver]
    by (simp add: example_released_def example_running_def pool_release_def server_pools_def pgPoolAdapter_def
        pg_ReleaseSession_def open_server_def create_record_def list_driver_def)
  ultimately show ?thesis using example_running_interleaved by (blast intro: interleaved.further)
qed

theorem interleaved_sessions_witness:
  "sessions (pgPool open_server) ''session-1'' = Some 1 \<and> ran (sessions (pgPool open_server)) = set (pool (pgPool open_server))
   \<and> dom (sessions (pgPool open_server)) = {sid. sessionPools open_server sid = Some UsePg}"
  using interleaved_sessions [OF list_driver_ok my_list_driver_ok example_starts_empty example_open_interleaved refl]
  by (simp add: open_server_def)

theorem running_statement_witness:
  "phases example_running 0 = Running (Inl 1) UsePg ''session-1'' ''SELECT 1''
   \<and> session_conn UsePg ''session-1'' (shared example_running) = Some (Inl 1)
   \<and> 1 \<in> set (pool (pgPool (shared example_running)))"
proof -
  have h: "phases example_running 0 = Running (Inl 1) UsePg ''session-1'' ''SELECT 1''"
    "session_conn UsePg ''session-1'' (shared example_running) \<noteq> None"
    by (simp_all add: example_running_def)
  from running_statement [OF list_driver_ok my_list_driver_ok example_starts_empty example_running_interleaved h]
  show ?thesis using h by simp
qed


text \<open>
  The exception \<open>running_statement\<close> leaves: a statement may run on a connection that a close of
  its session has already given back to the driver.
\<close>

theorem released_while_running:
  "interleaved list_driver my_list_driver example_server example_released
   \<and> phases example_released 0 = Running (Inl 1) UsePg ''session-1'' ''SELECT 1''
   \<and> 1 \<notin> set (pool (pgPool (shared example_released)))"
  using example_released_interleaved by (simp add: example_released_def example_running_def)

end
