(* ===== verification/PoolMutex.thy ===== *)
theory PoolMutex
  imports Prelude
begin

text \<open>
  The mutex of a pool, \<^verbatim>\<open>pm.mu\<close> of \<^verbatim>\<open>pkg/pgpool/pool.go\<close>, which \<^verbatim>\<open>pkg/mysqlpool/pool.go\<close> has alike,
  under calls from many goroutines. \<open>AcquireSession\<close> keeps it while it waits for a connection of
  the driver's pool, so here, other than in \<open>Interleaving\<close>, waiting is a state of its own. Of the
  driver's pool only the number of connections it could still give out matters.
\<close>

section \<open>The calls of a pool\<close>

datatype pool_call = PAcquire string | PRelease string | PLookup string | PClose

text \<open>A call waits for the mutex, has it, or has returned, with or without success.\<close>

datatype call_state = NoCall | Waits pool_call | Holds pool_call | Returned bool

record mutex_state =
  writer :: "nat option"
  readers :: "nat set"
  idle :: nat
  conns :: "string set"
  calls :: "nat \<Rightarrow> call_state"

definition is_lookup :: "pool_call \<Rightarrow> bool" where
  "is_lookup c \<longleftrightarrow> (case c of PLookup _ \<Rightarrow> True | _ \<Rightarrow> False)"

definition returns :: "nat \<Rightarrow> bool \<Rightarrow> mutex_state \<Rightarrow> mutex_state" where
  "returns i b s =
     s\<lparr>writer := (if writer s = Some i then None else writer s), readers := readers s - {i},
       calls := (calls s)(i := Returned b)\<rparr>"

definition gives_back :: "string \<Rightarrow> mutex_state \<Rightarrow> mutex_state" where
  "gives_back sid s = (if sid \<in> conns s then s\<lparr>idle := idle s + 1, conns := conns s - {sid}\<rparr> else s)"

definition closes_pool :: "mutex_state \<Rightarrow> mutex_state" where
  "closes_pool s = s\<lparr>idle := idle s + card (conns s), conns := {}\<rparr>"

text \<open>
  A writer needs the mutex for itself, a reader only no writer. \<open>GivesUp\<close> is the end of the context
  of a call that waits for a connection: its client has gone.
\<close>

datatype mutex_action = Moves nat | GivesUp nat

inductive mutex_step :: "mutex_action \<Rightarrow> mutex_state \<Rightarrow> mutex_state \<Rightarrow> bool" where
  enters: "calls s i \<in> {NoCall, Returned b} \<Longrightarrow> mutex_step (Moves i) s (s\<lparr>calls := (calls s)(i := Waits c)\<rparr>)"
| locks: "calls s i = Waits c \<Longrightarrow> \<not> is_lookup c \<Longrightarrow> writer s = None \<Longrightarrow> readers s = {} \<Longrightarrow>
    mutex_step (Moves i) s (s\<lparr>writer := Some i, calls := (calls s)(i := Holds c)\<rparr>)"
| rlocks: "calls s i = Waits (PLookup sid) \<Longrightarrow> writer s = None \<Longrightarrow>
    mutex_step (Moves i) s (s\<lparr>readers := insert i (readers s), calls := (calls s)(i := Holds (PLookup sid))\<rparr>)"
| exists: "calls s i = Holds (PAcquire sid) \<Longrightarrow> sid \<in> conns s \<Longrightarrow> mutex_step (Moves i) s (returns i True s)"
| acquires: "calls s i = Holds (PAcquire sid) \<Longrightarrow> sid \<notin> conns s \<Longrightarrow> 0 < idle s \<Longrightarrow>
    mutex_step (Moves i) s (returns i True (s\<lparr>idle := idle s - 1, conns := insert sid (conns s)\<rparr>))"
| gives_up: "calls s i = Holds (PAcquire sid) \<Longrightarrow> sid \<notin> conns s \<Longrightarrow> mutex_step (GivesUp i) s (returns i False s)"
| releases: "calls s i = Holds (PRelease sid) \<Longrightarrow> mutex_step (Moves i) s (returns i True (gives_back sid s))"
| looks_up: "calls s i = Holds (PLookup sid) \<Longrightarrow> mutex_step (Moves i) s (returns i (sid \<in> conns s) s)"
| closes: "calls s i = Holds PClose \<Longrightarrow> mutex_step (Moves i) s (returns i True (closes_pool s))"

inductive mutex_run :: "mutex_action list \<Rightarrow> mutex_state \<Rightarrow> mutex_state \<Rightarrow> bool" where
  ends: "mutex_run [] s s"
| steps: "mutex_step a s t \<Longrightarrow> mutex_run as t u \<Longrightarrow> mutex_run (a # as) s u"

inductive_simps mutex_run_simps [simp]:
  "mutex_run [] s t"
  "mutex_run (a # as) s t"

definition opened :: "nat \<Rightarrow> mutex_state" where
  "opened n = \<lparr>writer = None, readers = {}, idle = n, conns = {}, calls = (\<lambda>_. NoCall)\<rparr>"

definition mutex_reachable :: "nat \<Rightarrow> mutex_state \<Rightarrow> bool" where
  "mutex_reachable n s \<longleftrightarrow> (\<exists>as. mutex_run as (opened n) s)"

section \<open>The invariant\<close>

text \<open>The mutex excludes, and every connection of the driver's pool is idle or some session's.\<close>

definition excludes :: "mutex_state \<Rightarrow> bool" where
  "excludes s \<longleftrightarrow>
     (\<forall>i c. calls s i = Holds c \<longrightarrow> (if is_lookup c then i \<in> readers s else writer s = Some i)) \<and>
     (writer s \<noteq> None \<longrightarrow> readers s = {})"

definition accounted :: "nat \<Rightarrow> mutex_state \<Rightarrow> bool" where
  "accounted n s \<longleftrightarrow> finite (conns s) \<and> idle s + card (conns s) = n"

lemma is_lookup_simps [simp]:
  "is_lookup (PLookup sid)" "\<not> is_lookup (PAcquire sid)" "\<not> is_lookup (PRelease sid)" "\<not> is_lookup PClose"
  by (simp_all add: is_lookup_def)

lemma excludes_returns:
  assumes "excludes s" "calls t = calls s" "writer t = writer s" "readers t = readers s"
  shows "excludes (returns i b t)"
  using assms by (auto simp: excludes_def returns_def split: if_splits; blast)

lemma gives_back_fields [simp]:
  "calls (gives_back sid s) = calls s" "writer (gives_back sid s) = writer s" "readers (gives_back sid s) = readers s"
  by (simp_all add: gives_back_def)

lemma closes_pool_fields [simp]:
  "calls (closes_pool s) = calls s" "writer (closes_pool s) = writer s" "readers (closes_pool s) = readers s"
  by (simp_all add: closes_pool_def)

lemma excludes_step: "mutex_step a s t \<Longrightarrow> excludes s \<Longrightarrow> excludes t"
proof (induction rule: mutex_step.induct)
  case (enters s i b c)
  then show ?case by (auto simp: excludes_def)
next
  case (locks s i c)
  then show ?case by (auto simp: excludes_def split: if_splits)
next
  case (rlocks s i sid)
  then show ?case by (auto simp: excludes_def split: if_splits)
qed (erule excludes_returns; simp)+

lemma card_one_less: "finite A \<Longrightarrow> x \<in> A \<Longrightarrow> Suc (card A - Suc 0) = card A"
  by (metis One_nat_def card_Suc_Diff1 card_Diff_singleton)

lemma accounted_step: "mutex_step a s t \<Longrightarrow> accounted n s \<Longrightarrow> accounted n t"
  by (induction rule: mutex_step.induct)
    (auto simp: accounted_def returns_def gives_back_def closes_pool_def card_one_less)

lemma mutex_run_inv:
  "mutex_run as s t \<Longrightarrow> excludes s \<Longrightarrow> accounted n s \<Longrightarrow> excludes t \<and> accounted n t"
  by (induction rule: mutex_run.induct) (auto dest: excludes_step accounted_step)

lemma mutex_reachable_inv: "mutex_reachable n s \<Longrightarrow> excludes s \<and> accounted n s"
  unfolding mutex_reachable_def using mutex_run_inv
  by (fastforce simp: excludes_def accounted_def opened_def)

section \<open>A pool without a free connection\<close>

text \<open>What holds while one call waits for a connection.\<close>

definition waits_inside :: "nat \<Rightarrow> string \<Rightarrow> string set \<Rightarrow> mutex_state \<Rightarrow> bool" where
  "waits_inside i sid C s \<longleftrightarrow>
     excludes s \<and> calls s i = Holds (PAcquire sid) \<and> idle s = 0 \<and> conns s = C \<and> sid \<notin> C"

lemma waits_inside_others:
  assumes "waits_inside i sid C s" "calls s j = Holds c"
  shows "j = i"
proof -
  have "writer s = Some i" "readers s = {}" using assms(1) by (auto simp: waits_inside_def excludes_def)
  moreover have "if is_lookup c then j \<in> readers s else writer s = Some j"
    using assms unfolding waits_inside_def excludes_def by blast
  ultimately show ?thesis by (simp split: if_splits)
qed

lemma waits_inside_step:
  assumes "mutex_step a s t" "waits_inside i sid C s" "a \<noteq> GivesUp i"
  shows "waits_inside i sid C t"
proof -
  have ex: "excludes t" using excludes_step [OF assms(1)] assms(2) by (simp add: waits_inside_def)
  have w: "writer s = Some i" using assms(2) by (auto simp: waits_inside_def excludes_def)
  have own: "calls s i = Holds (PAcquire sid)" "idle s = 0" "sid \<notin> conns s" "conns s = C"
    using assms(2) by (simp_all add: waits_inside_def)
  from assms(1) show ?thesis
  proof cases
    case (enters j b c)
    then show ?thesis using ex own by (auto simp: waits_inside_def)
  next
    case (exists j sid')
    then show ?thesis using waits_inside_others [OF assms(2)] own by auto
  next
    case (acquires j sid')
    then show ?thesis using own by simp
  next
    case (gives_up j sid')
    then show ?thesis using waits_inside_others [OF assms(2)] assms(3) by auto
  next
    case (releases j sid')
    then show ?thesis using waits_inside_others [OF assms(2)] own by auto
  next
    case (looks_up j sid')
    then show ?thesis using waits_inside_others [OF assms(2)] own by auto
  next
    case (closes j)
    then show ?thesis using waits_inside_others [OF assms(2)] own by auto
  qed (use w in simp_all)
qed

lemma waits_inside_run:
  "mutex_run as s t \<Longrightarrow> waits_inside i sid C s \<Longrightarrow> GivesUp i \<notin> set as \<Longrightarrow> waits_inside i sid C t"
  by (induction rule: mutex_run.induct) (auto dest: waits_inside_step)

text \<open>
  C19: When the driver has no connection left, a new session's \<open>AcquireSession\<close> waits for one with
  the pool's mutex held, so nothing can give one back: until the context of that very call ends, no
  run, whatever calls it makes, lets any other call get past the mutex. No session is released, no
  statement finds its connection, and all connections stay with the sessions that have them.
\<close>

theorem exhausted_pool_stuck:
  assumes "mutex_reachable n s" "calls s i = Holds (PAcquire sid)" "sid \<notin> conns s" "card (conns s) = n"
    and "mutex_run as s t" "GivesUp i \<notin> set as"
  shows "conns t = conns s \<and> idle t = 0 \<and> calls t i = Holds (PAcquire sid)
    \<and> (\<forall>j c. calls s j = Waits c \<longrightarrow> calls t j = Waits c)
    \<and> (\<forall>j c. calls t j = Holds c \<longrightarrow> j = i)"
proof -
  have "excludes s" "idle s = 0" using mutex_reachable_inv [OF assms(1)] assms(4) by (simp_all add: accounted_def)
  then have start: "waits_inside i sid (conns s) s" using assms(2,3) by (simp add: waits_inside_def)
  note inside = waits_inside_run [OF assms(5) start assms(6)]
  have "calls t j = Waits c" if "calls s j = Waits c" for j c
    using assms(5) start assms(6) that
  proof (induction rule: mutex_run.induct)
    case (steps a s t as u)
    have next': "waits_inside i sid (conns s) t" 
      by (rule waits_inside_step [OF steps.hyps(1) steps.prems(1)]) (use steps.prems(2) in auto)
    have w: "writer s \<noteq> None" using steps.prems(1) by (auto simp: waits_inside_def excludes_def)
    have "calls t j = Waits c"
      using steps.hyps(1) steps.prems(3) w
      by cases (auto simp: returns_def gives_back_def closes_pool_def)
    moreover have "conns t = conns s" using next' by (simp add: waits_inside_def)
    ultimately show ?case using steps next' by auto
  qed simp
  with inside waits_inside_others [OF inside] show ?thesis by (auto simp: waits_inside_def)
qed

section \<open>Witnesses\<close>

text \<open>
  A pool of one connection: one session has it, the next waits for it, and the first session's
  release waits for the mutex.
\<close>

definition one_session :: mutex_state where
  "one_session = \<lparr>writer = None, readers = {}, idle = 0, conns = {''a''}, calls = (\<lambda>_. NoCall)(0 := Returned True)\<rparr>"

definition stuck :: mutex_state where
  "stuck = one_session\<lparr>writer := Some 1, calls := (calls one_session)(1 := Holds (PAcquire ''b''), 2 := Waits (PRelease ''a''))\<rparr>"

lemma stuck_reachable: "mutex_reachable 1 stuck"
proof -
  have "mutex_run [Moves 0, Moves 0, Moves 0] (opened 1) one_session"
  proof -
    let ?s1 = "(opened 1)\<lparr>calls := (\<lambda>_. NoCall)(0 := Waits (PAcquire ''a''))\<rparr>"
    let ?s2 = "?s1\<lparr>writer := Some 0, calls := (\<lambda>_. NoCall)(0 := Holds (PAcquire ''a''))\<rparr>"
    have "mutex_step (Moves 0) (opened 1) ?s1" using enters [of "opened 1" 0 False "PAcquire ''a''"] by (simp add: opened_def)
    moreover have "mutex_step (Moves 0) ?s1 ?s2" using locks [of ?s1 0 "PAcquire ''a''"] by (simp add: opened_def)
    moreover have "mutex_step (Moves 0) ?s2 one_session"
      using acquires [of ?s2 0 "''a''"] by (simp add: opened_def returns_def one_session_def)
    ultimately show ?thesis by (auto simp del: mutex_run_simps intro!: mutex_run.intros)
  qed
  moreover have "mutex_run [Moves 1, Moves 1, Moves 2] one_session stuck"
  proof -
    let ?s1 = "one_session\<lparr>calls := (calls one_session)(1 := Waits (PAcquire ''b''))\<rparr>"
    let ?s2 = "one_session\<lparr>writer := Some 1, calls := (calls one_session)(1 := Holds (PAcquire ''b''))\<rparr>"
    have "mutex_step (Moves 1) one_session ?s1" using enters [of one_session 1 False "PAcquire ''b''"] by (simp add: one_session_def)
    moreover have "mutex_step (Moves 1) ?s1 ?s2" using locks [of ?s1 1 "PAcquire ''b''"] by (simp add: one_session_def)
    moreover have "mutex_step (Moves 2) ?s2 stuck"
      using enters [of ?s2 2 False "PRelease ''a''"] by (simp add: one_session_def stuck_def)
    ultimately show ?thesis by (auto simp del: mutex_run_simps intro!: mutex_run.intros)
  qed
  moreover have "mutex_run (as @ bs) s u" if "mutex_run as s t" "mutex_run bs t u" for as bs s t u
    using that by (induction rule: mutex_run.induct) auto
  ultimately show ?thesis unfolding mutex_reachable_def by blast
qed

theorem exhausted_pool_stuck_witness:
  "\<exists>t. mutex_run [Moves 3] stuck t \<and> calls t 3 = Waits (PLookup ''a'') \<and> calls t 2 = Waits (PRelease ''a'')
     \<and> calls t 1 = Holds (PAcquire ''b'') \<and> conns t = {''a''}"
proof -
  let ?t = "stuck\<lparr>calls := (calls stuck)(3 := Waits (PLookup ''a''))\<rparr>"
  have c: "calls stuck 1 = Holds (PAcquire ''b'')" "calls stuck 2 = Waits (PRelease ''a'')"
    "''b'' \<notin> conns stuck" "card (conns stuck) = 1" "conns stuck = {''a''}"
    by (simp_all add: stuck_def one_session_def)
  have "mutex_step (Moves 3) stuck ?t" using enters [of stuck 3 False] by (simp add: stuck_def one_session_def)
  then have r: "mutex_run [Moves 3] stuck ?t" by (auto simp del: mutex_run_simps intro!: mutex_run.intros)
  from exhausted_pool_stuck [OF stuck_reachable c(1,3,4) r] r c(2,5) show ?thesis
    by (intro exI [of _ ?t]) auto
qed

end
