(* ===== verification/Programs.thy ===== *)
theory Programs
  imports Config Server HttpClient
begin

text \<open>
  The two programs: \<^verbatim>\<open>cmd/server/main.go\<close> up to the handler it serves, and \<^verbatim>\<open>cmd/proxy/main.go\<close>
  up to the proxies it starts. A \<open>log.Fatalf\<close> is an \<open>Err\<close>. What the programs do from then on is in
  \<open>ServerProgram\<close> and \<open>ProxyProgram\<close>.
\<close>

section \<open>The server\<close>

text \<open>
  How the pools are opened and what they run on. The MySQL pool is optional: when it cannot be
  created, the server logs a warning and serves PostgreSQL only.
\<close>

definition open_mysql ::
  "'mdb my_boot \<Rightarrow> ('mdb, 'mc, 'mv) my_driver \<Rightarrow> Config \<Rightarrow> ('mdb, 'mc) my_pool option result" where
  "open_mysql b drv cfg =
     (if ProxyProtocol cfg = ''mysql'' \<or> ProxyProtocol cfg = ''both'' then
        (case my_New b drv (MySQLDSN cfg) (word_of_int (MaxConnections cfg)) (word_of_int (MinConnections cfg)) of
           Ok pm \<Rightarrow> Ok (Some pm)
         | Err e \<Rightarrow> Ok None
         | Panic p \<Rightarrow> Panic p)
      else Ok None)"

definition server_main ::
  "'db pg_boot \<Rightarrow> ('db, 'c, 'v) pg_driver \<Rightarrow> 'mdb my_boot \<Rightarrow> ('mdb, 'mc, 'mv) my_driver \<Rightarrow> config_file \<Rightarrow> string \<Rightarrow> reader
    \<Rightarrow> (('db, 'c) pg_pool, ('mdb, 'mc) my_pool) Handler result" where
  "server_main pb pd mb md f env rnd =
     rbind (wrap_err ''Failed to load config'' (LoadConfig f env)) (\<lambda>cfg.
     if EncryptionKey cfg = [] then
       Err (ErrorS ''Encryption key is required. Set ENCRYPTION_KEY env var or encryption_key in config.json'')
     else
       rbind (wrap_err ''Failed to create PgSQL pool''
         (pg_New pb pd (PostgresDSN cfg) (word_of_int (MaxConnections cfg)) (word_of_int (MinConnections cfg)))) (\<lambda>pg.
       rbind (open_mysql mb md cfg) (\<lambda>my.
       wrap_err ''Failed to create handler'' (NewHandler pg my (EncryptionKey cfg) rnd))))"

section \<open>The proxies\<close>

text \<open>\<open>New\<close> of \<^verbatim>\<open>pkg/pgproxy\<close> and of \<^verbatim>\<open>pkg/mysqlproxy\<close>: an address and a client.\<close>

record Proxy =
  listenAddr :: string
  httpClient :: Client

definition pgproxy_New :: "string \<Rightarrow> string \<Rightarrow> string \<Rightarrow> Proxy result" where
  "pgproxy_New addr url key =
     rbind (wrap_err ''create http client'' (NewClient url key)) (\<lambda>c. Ok \<lparr>listenAddr = addr, httpClient = c\<rparr>)"

definition mysqlproxy_New :: "string \<Rightarrow> string \<Rightarrow> string \<Rightarrow> Proxy result" where
  "mysqlproxy_New addr url key =
     rbind (wrap_err ''create http client'' (NewClient url key)) (\<lambda>c. Ok \<lparr>listenAddr = addr, httpClient = c\<rparr>)"

datatype started = PgProxy Proxy | MySQLProxy Proxy

definition proxy_main :: "config_file \<Rightarrow> string \<Rightarrow> started list result" where
  "proxy_main f env =
     rbind (wrap_err ''Failed to load config'' (LoadConfig f env)) (\<lambda>cfg.
     rbind (wrap_err ''Invalid config'' (Validate cfg)) (\<lambda>_.
     let url = GetServerURL cfg in
     rbind (if ProxyProtocol cfg = ''pg'' \<or> ProxyProtocol cfg = ''both'' then
              rbind (wrap_err ''Failed to create PgSQL proxy'' (pgproxy_New (ProxyAddr cfg) url (EncryptionKey cfg)))
                (\<lambda>p. Ok [PgProxy p])
            else Ok []) (\<lambda>ps.
     rbind (if ProxyProtocol cfg = ''mysql'' \<or> ProxyProtocol cfg = ''both'' then
              rbind (wrap_err ''Failed to create MySQL proxy'' (mysqlproxy_New (MySQLProxyAddr cfg) url (EncryptionKey cfg)))
                (\<lambda>p. Ok [MySQLProxy p])
            else Ok []) (\<lambda>qs. Ok (ps @ qs)))))"

section \<open>What is started\<close>

lemma NewClient_key: "key \<noteq> [] \<Longrightarrow>
  NewClient url key = Ok \<lparr>serverURL = url, httpTimeout = 30 * second, clientKey = Sum256 (bytes_of key), retryAttempts = 0\<rparr>"
  by (simp add: NewClient_def NewClientWithConfig_def DeriveKey_def DefaultClientConfig_def Let_def second_def)

definition proxy_for :: "Config \<Rightarrow> string \<Rightarrow> Proxy" where
  "proxy_for cfg addr =
     \<lparr>listenAddr = addr,
      httpClient = \<lparr>serverURL = GetServerURL cfg, httpTimeout = 30 * second,
                    clientKey = Sum256 (bytes_of (EncryptionKey cfg)), retryAttempts = 0\<rparr>\<rparr>"

text \<open>
  The proxy program starts, for a loaded configuration that passes the check, exactly the
  proxies its protocol setting names, each on its own address and with a client for the server's
  URL and the key's hash; with no setting it starts none and still runs.
\<close>

theorem proxy_main_starts:
  assumes "LoadConfig f env = Ok cfg"
  shows "proxy_main f env =
    (case Validate cfg of
       Ok _ \<Rightarrow>
         Ok ((if ProxyProtocol cfg \<in> {''pg'', ''both''} then [PgProxy (proxy_for cfg (ProxyAddr cfg))] else []) @
             (if ProxyProtocol cfg \<in> {''mysql'', ''both''} then [MySQLProxy (proxy_for cfg (MySQLProxyAddr cfg))] else []))
     | Err e \<Rightarrow> Err (Wrap ''Invalid config'' e)
     | Panic p \<Rightarrow> Panic p)"
proof (cases "Validate cfg")
  case (Ok u)
  then have "EncryptionKey cfg \<noteq> []" by (auto simp: Validate_def split: if_splits)
  from NewClient_key [OF this] Ok assms show ?thesis
    by (simp add: proxy_main_def pgproxy_New_def mysqlproxy_New_def proxy_for_def Let_def)
qed (simp_all add: assms proxy_main_def)

text \<open>
  A proxy and a server that load the same configuration use the same encryption key, and the
  server starts with no session, a PostgreSQL pool without connections, and a MySQL pool only when
  the setting asks for one.
\<close>

theorem server_main_state:
  assumes "server_main pb pd mb md f env rnd = Ok h" and "LoadConfig f env = Ok cfg"
  shows "encKey h = clientKey (httpClient (proxy_for cfg addr)) \<and> good_key (encKey h)
    \<and> sessions (pgPool h) = Map.empty \<and> stmts h = Map.empty \<and> sessionPools h = Map.empty
    \<and> (mysqlPool h = None \<or> ProxyProtocol cfg \<in> {''mysql'', ''both''})"
proof -
  from assms have key: "EncryptionKey cfg \<noteq> []" by (auto simp: server_main_def split: if_splits)
  then obtain pg my where pg: "pg_New pb pd (PostgresDSN cfg) (word_of_int (MaxConnections cfg))
      (word_of_int (MinConnections cfg)) = Ok pg"
    and my: "open_mysql mb md cfg = Ok my" and h: "NewHandler pg my (EncryptionKey cfg) rnd = Ok h"
    using assms by (auto simp: server_main_def rbind_eq_Ok_iff)
  from pg have "sessions pg = Map.empty"
    by (auto simp: pg_New_def Let_def split: result.splits prod.splits)
  moreover from my have "my = None \<or> ProxyProtocol cfg \<in> {''mysql'', ''both''}"
    by (auto simp: open_mysql_def split: if_splits)
  moreover have "encKey h = Sum256 (bytes_of (EncryptionKey cfg))"
    using h key by (auto simp: NewHandler_def DeriveKey_def)
  ultimately show ?thesis using NewHandler_OkD [OF h] by (simp add: proxy_for_def)
qed

section \<open>Witnesses\<close>

lemma default_loaded: "LoadConfig NotExist ''k'' = Ok (DefaultConfig\<lparr>EncryptionKey := ''k''\<rparr>)"
  by (simp add: LoadConfig_def)

theorem proxy_main_starts_witness:
  "\<exists>p. proxy_main NotExist ''k'' = Ok [PgProxy p] \<and> listenAddr p = '':5432''
     \<and> serverURL (httpClient p) = ''http://localhost:8080''"
  using proxy_main_starts [OF default_loaded]
  by (simp add: Validate_def DefaultConfig_def proxy_for_def GetServerURL_def)

definition example_boot :: "nat list pg_boot" where
  "example_boot =
     \<lparr>b_parse = (\<lambda>dsn. Ok \<lparr>cfg_dsn = dsn, cfg_MaxConns = 4, cfg_MinConns = 0\<rparr>), b_open = (\<lambda>_. Ok []), b_ping = (\<lambda>db. (Ok (), db))\<rparr>"

theorem server_main_state_witness:
  "\<forall>mb md rnd. \<exists>h. server_main example_boot list_driver mb md NotExist ''k'' rnd = Ok h
     \<and> encKey h = Sum256 (bytes_of ''k'') \<and> mysqlPool h = None"
proof (intro allI)
  fix mb :: "'mdb my_boot" and md :: "('mdb, 'mc, 'mv) my_driver" and rnd
  have s: "server_main example_boot list_driver mb md NotExist ''k'' rnd =
    Ok \<lparr>pgPool = \<lparr>pool = [], sessions = Map.empty\<rparr>, mysqlPool = None, encKey = Sum256 (bytes_of ''k''),
        stmts = Map.empty, sessionPools = Map.empty, entropy = rnd\<rparr>"
    by (simp add: server_main_def LoadConfig_def DefaultConfig_def pg_New_def example_boot_def Let_def open_mysql_def
        NewHandler_def DeriveKey_def)
  from server_main_state [OF this default_loaded, of "''a''"]
  show "\<exists>h. server_main example_boot list_driver mb md NotExist ''k'' rnd = Ok h
     \<and> encKey h = Sum256 (bytes_of ''k'') \<and> mysqlPool h = None"
    by (simp add: s proxy_for_def DefaultConfig_def)
qed

end
