(* ===== verification/ServerProgram.thy ===== *)
theory ServerProgram
  imports Adapter Programs
begin

text \<open>
  The server program from its start to its end: \<^verbatim>\<open>cmd/server/main.go\<close> with the \<open>serveHTTP\<close> of
  \<^verbatim>\<open>serve_gin.go\<close> and of \<^verbatim>\<open>serve_fiber.go\<close>. The traffic it gets before the signal to stop is a list
  of requests; requests answered at the same time are the subject of \<open>Interleaving\<close>.
\<close>

section \<open>The two servers\<close>

record ServerRequest =
  rq_id :: string \<comment> \<open>the id \<^verbatim>\<open>uuid.New\<close> makes, should the request create a session\<close>
  rq_method :: string
  rq_path :: string \<comment> \<open>without escapes\<close>
  rq_header :: "string \<Rightarrow> string"
  rq_body :: "byte list"

definition gin_serve ::
  "('p, 'm) pools \<Rightarrow> matcher \<Rightarrow> ServerRequest \<Rightarrow> ('p, 'm) Handler \<Rightarrow> Response \<times> ('p, 'm) Handler" where
  "gin_serve I m rq h =
     serve_gin I m (rq_id rq) (rq_method rq) (rq_path rq) (rq_header rq) (Ok (rq_body rq)) h"

definition run_fiber_route ::
  "('p, 'm) pools \<Rightarrow> string \<Rightarrow> route \<Rightarrow> Request \<Rightarrow> byte list \<Rightarrow> ('p, 'm) Handler \<Rightarrow> Response result \<times> ('p, 'm) Handler" where
  "run_fiber_route I sid r c body h =
     (case r of
        Health \<Rightarrow> fiberHealthCheck I c h
      | SessionCreate \<Rightarrow> fiberCreateSession I sid c body h
      | QueryRun \<Rightarrow> fiberHandleQuery I c body h
      | SessionClose \<Rightarrow> fiberCloseSession I c h)"

text \<open>
  What Fiber answers by itself: a request it refuses before it looks for a route (a body above its
  limit, of 4 MiB unless configured), and one no route is for. Its paths are matched by a matcher of
  its own, which by default takes a path in another case or with a slash more for the same route,
  and the body it gives out is decoded as the header \<^verbatim>\<open>Content-Encoding\<close> says.
\<close>

record fiber_app =
  turns_away :: "ServerRequest \<Rightarrow> Response option"
  matches :: matcher
  body_of :: "ServerRequest \<Rightarrow> byte list"
  unrouted :: "ServerRequest \<Rightarrow> Response"

text \<open>
  Fiber answers an error of a handler function with status 500. \<^verbatim>\<open>serve_fiber.go\<close> registers no
  recover middleware, without which Fiber does not stop a panic: it ends the program.
\<close>

definition fiber_serve ::
  "('p, 'm) pools \<Rightarrow> fiber_app \<Rightarrow> ServerRequest \<Rightarrow> ('p, 'm) Handler \<Rightarrow> Response result \<times> ('p, 'm) Handler" where
  "fiber_serve I app rq h =
     (case turns_away app rq of
        Some resp \<Rightarrow> (Ok resp, h)
      | None \<Rightarrow>
     (case find_route (matches app) RegisterFiberRoutes (rq_method rq) (rq_path rq) of
        None \<Rightarrow> (Ok (unrouted app rq), h)
      | Some (r, ps) \<Rightarrow>
          (case run_fiber_route I (rq_id rq) r \<lparr>Header = rq_header rq, Param = ps, Body = Ok (body_of app rq)\<rparr> (body_of app rq) h of
             (Ok resp, h) \<Rightarrow> (Ok resp, h)
           | (Err e, h) \<Rightarrow> (Ok (empty_status 500), h)
           | (Panic p, h) \<Rightarrow> (Panic p, h))))"

fun gin_requests ::
  "('p, 'm) pools \<Rightarrow> matcher \<Rightarrow> ServerRequest list \<Rightarrow> ('p, 'm) Handler \<Rightarrow> Response list \<times> ('p, 'm) Handler" where
  "gin_requests I m [] h = ([], h)"
| "gin_requests I m (rq # rqs) h =
     (case gin_serve I m rq h of (resp, h1) \<Rightarrow>
      case gin_requests I m rqs h1 of (resps, h2) \<Rightarrow> (resp # resps, h2))"

text \<open>The responses Fiber sends, and the panic that ended the program, if one did.\<close>

fun fiber_requests ::
  "('p, 'm) pools \<Rightarrow> fiber_app \<Rightarrow> ServerRequest list \<Rightarrow> ('p, 'm) Handler
    \<Rightarrow> (Response list \<times> panic option) \<times> ('p, 'm) Handler" where
  "fiber_requests I app [] h = (([], None), h)"
| "fiber_requests I app (rq # rqs) h =
     (case fiber_serve I app rq h of
        (Ok resp, h1) \<Rightarrow>
          (case fiber_requests I app rqs h1 of ((resps, p), h2) \<Rightarrow> ((resp # resps, p), h2))
      | (Err e, h1) \<Rightarrow> (([], None), h1)
      | (Panic p, h1) \<Rightarrow> (([], Some p), h1))"

lemma run_routes_agree:
  "run_route I sid r \<lparr>Header = hdr, Param = ps, Body = Ok body\<rparr> h =
   run_fiber_route I sid r \<lparr>Header = hdr, Param = ps, Body = Ok body\<rparr> body h"
  by (simp add: run_route_def run_fiber_route_def ginCreateSession_def fiberCreateSession_def ginHandleQuery_def
      fiberHandleQuery_def ginCloseSession_def fiberCloseSession_def ginHealthCheck_def fiberHealthCheck_def Let_def
      split: route.split)

lemma routes_agree: "gin_routes = RegisterFiberRoutes"
  by (simp add: gin_routes_def RegisterGinRoutes_def RegisterFiberRoutes_def Let_def)

lemma fiber_serve_not_Err: "fiber_serve I app rq h \<noteq> (Err e, h')"
  by (auto simp: fiber_serve_def split: option.splits prod.splits result.splits)

text \<open>
  A request of the API: one of the four routes, with a session id where it needs one, and a body
  that is not encoded.
\<close>

definition api_request :: "ServerRequest \<Rightarrow> bool" where
  "api_request rq \<longleftrightarrow> rq_header rq ''Content-Encoding'' = [] \<and>
     ((rq_method rq, rq_path rq) \<in>
        {(''GET'', ''/api/v1/health''), (''POST'', ''/api/v1/session''), (''POST'', ''/api/v1/query'')}
      \<or> rq_method rq = ''DELETE'' \<and> (\<exists>v. v \<noteq> [] \<and> CHR ''/'' \<notin> set v \<and> rq_path rq = ''/api/v1/session/'' @ v))"

text \<open>What Fiber documents of its matching for the four routes, and of bodies that are not encoded.\<close>

definition fiber_ok :: "fiber_app \<Rightarrow> bool" where
  "fiber_ok app \<longleftrightarrow> matcher_ok (matches app) \<and>
     (\<forall>rq. rq_header rq ''Content-Encoding'' = [] \<longrightarrow> body_of app rq = rq_body rq)"

lemma find_health:
  "matcher_ok m \<Longrightarrow> find_route m gin_routes ''GET'' ''/api/v1/health'' = Some (Health, \<lambda>_. [])"
  by (simp add: gin_routes_patterns matcher_plain)

lemma api_request_routed:
  assumes "matcher_ok m" "matcher_ok m'" "api_request rq"
  shows "\<exists>rps. find_route m gin_routes (rq_method rq) (rq_path rq) = Some rps
    \<and> find_route m' RegisterFiberRoutes (rq_method rq) (rq_path rq) = Some rps"
  using assms(3) find_health [OF assms(1)] find_health [OF assms(2)] find_create [OF assms(1)] find_create [OF assms(2)]
    find_query [OF assms(1)] find_query [OF assms(2)] find_close [OF assms(1)] find_close [OF assms(2)]
  unfolding api_request_def routes_agree [symmetric] by (elim conjE disjE exE insertE emptyE) simp_all

lemma gin_serve_fiber:
  assumes "matcher_ok m" "fiber_ok app" "turns_away app rq = None" "api_request rq"
  shows "gin_serve I m rq h =
     (case fiber_serve I app rq h of (Ok resp, h') \<Rightarrow> (resp, h') | (_, h') \<Rightarrow> (empty_status 500, h'))"
proof -
  obtain r ps where "find_route m gin_routes (rq_method rq) (rq_path rq) = Some (r, ps)"
    "find_route (matches app) RegisterFiberRoutes (rq_method rq) (rq_path rq) = Some (r, ps)"
    using api_request_routed [of m "matches app" rq] assms(1,2,4) by (auto simp: fiber_ok_def)
  moreover have "body_of app rq = rq_body rq" using assms(2,4) by (simp add: fiber_ok_def api_request_def)
  ultimately show ?thesis
    using assms(3)
    by (simp add: gin_serve_def serve_gin_def fiber_serve_def run_routes_agree split: prod.split result.split)
qed

lemma gin_requests_length: "length (fst (gin_requests I m rqs h)) = length rqs"
proof (induction rqs arbitrary: h)
  case (Cons rq rqs)
  obtain resp h1 where "gin_serve I m rq h = (resp, h1)" by fastforce
  moreover obtain resps h2 where "gin_requests I m rqs h1 = (resps, h2)" by fastforce
  ultimately show ?case using Cons.IH [of h1] by simp
qed simp

definition both_take :: "matcher \<Rightarrow> fiber_app \<Rightarrow> ServerRequest list \<Rightarrow> bool" where
  "both_take m app rqs \<longleftrightarrow>
     matcher_ok m \<and> fiber_ok app \<and> list_all (\<lambda>rq. api_request rq \<and> turns_away app rq = None) rqs"

lemma builds_agree_run:
  assumes "fiber_requests I app rqs h = ((resps, p), h')" and "gin_requests I m rqs h = (gresps, g')"
    and "both_take m app rqs"
  shows "(p = None \<longrightarrow> gresps = resps \<and> g' = h')
    \<and> (p \<noteq> None \<longrightarrow> (\<exists>later. gresps = resps @ empty_status 500 # later))
    \<and> length gresps = length rqs"
  using assms
proof (induction rqs arbitrary: h resps gresps)
  case Nil
  then show ?case by simp
next
  case (Cons rq rqs)
  obtain r h1 where s: "fiber_serve I app rq h = (r, h1)" by fastforce
  obtain fr fp f2 where f: "fiber_requests I app rqs h1 = ((fr, fp), f2)" by (metis prod.exhaust)
  have g1: "gin_serve I m rq h = (case r of Ok resp \<Rightarrow> (resp, h1) | _ \<Rightarrow> (empty_status 500, h1))"
    using gin_serve_fiber [of m app rq I h] s Cons.prems(3) by (auto simp: both_take_def split: result.split)
  have rest: "both_take m app rqs" using Cons.prems(3) by (simp add: both_take_def)
  obtain gr g2 where g: "gin_requests I m rqs h1 = (gr, g2)" by fastforce
  show ?case
  proof (cases r)
    case (Ok resp)
    with s f g Cons.prems have e: "resps = resp # fr" "p = fp" "h' = f2" "gresps = resp # gr" "g' = g2"
      by (auto simp: g1)
    with Cons.IH [of h1 fr gr] f g rest show ?thesis by auto
  next
    case (Err e)
    with s fiber_serve_not_Err show ?thesis by metis
  next
    case (Panic q)
    have "length gr = length rqs" using g gin_requests_length by (metis fst_conv)
    with Panic s g Cons.prems(1,2) show ?thesis by (auto simp: g1)
  qed
qed


lemma fiber_requests_append:
  "fiber_requests I app rqs h = ((resps, None), h1) \<Longrightarrow> fiber_requests I app rqs' h1 = ((resps', p), h2) \<Longrightarrow>
   fiber_requests I app (rqs @ rqs') h = ((resps @ resps', p), h2)"
proof (induction rqs arbitrary: h resps)
  case (Cons rq rqs)
  obtain r k where s: "fiber_serve I app rq h = (r, k)" by fastforce
  obtain fr fp f2 where f: "fiber_requests I app rqs k = ((fr, fp), f2)" by (metis prod.exhaust)
  from Cons.prems(1) s f obtain resp where "r = Ok resp" "resps = resp # fr" "fp = None" "f2 = h1"
    using fiber_serve_not_Err [of I app rq h] by (auto split: result.splits)
  with Cons.IH [of k fr] Cons.prems(2) s f show ?case by simp
qed simp

text \<open>
  C21: One request without a key ends a server of the Fiber build: a \<open>DELETE\<close> of a session id of
  fewer than eight characters closes that session, then panics in the log line; neither it nor
  any later request is answered.
\<close>

theorem short_id_ends_fiber:
  assumes "matcher_ok (matches app)" "v \<noteq> []" "CHR ''/'' \<notin> set v" "length v < 8"
    and "rq_method rq = ''DELETE''" "rq_path rq = ''/api/v1/session/'' @ v" "turns_away app rq = None"
    and "fiber_requests I app before h = ((resps, None), h1)"
  shows "\<exists>p. fiber_requests I app (before @ rq # later) h = ((resps, Some p), snd (CloseSession I v h1))"
proof -
  have "find_route (matches app) RegisterFiberRoutes (rq_method rq) (rq_path rq) =
      Some (SessionClose, (\<lambda>_. [])(''session_id'' := v))"
    using find_close [OF assms(1-3)] assms(5,6) by (simp add: routes_agree)
  then obtain p where "fiber_serve I app rq h1 = (Panic p, snd (CloseSession I v h1))"
    using assms(2,4,7)
    by (auto simp: fiber_serve_def run_fiber_route_def fiberCloseSession_def CloseSession_def Let_def log_id_def slice_def
        split: option.split)
  then have "fiber_requests I app (rq # later) h1 = (([], Some p), snd (CloseSession I v h1))" by simp
  from fiber_requests_append [OF assms(8) this] show ?thesis by auto
qed

section \<open>The end of the server\<close>

text \<open>What a request asks of the handler, at most one call.\<close>

definition calls_of :: "matcher \<Rightarrow> ServerRequest \<Rightarrow> call list" where
  "calls_of m rq =
     (case find_route m gin_routes (rq_method rq) (rq_path rq) of
        None \<Rightarrow> []
      | Some (r, ps) \<Rightarrow>
          (case r of
             Health \<Rightarrow> []
           | SessionCreate \<Rightarrow>
               [Create (rq_id rq) (rq_body rq)
                 (if rq_header rq ''X-Protocol'' = [] then ''pg'' else rq_header rq ''X-Protocol'')]
           | QueryRun \<Rightarrow>
               if rq_header rq ''X-Session-ID'' = [] then [] else [Ask (rq_header rq ''X-Session-ID'') (rq_body rq)]
           | SessionClose \<Rightarrow> if ps ''session_id'' = [] then [] else [Close (ps ''session_id'')]))"

lemma gin_functions_calls:
  "snd (ginCreateSession I sid \<lparr>Header = hdr, Param = ps, Body = Ok body\<rparr> h) =
     snd (CreateSession I sid body (if hdr ''X-Protocol'' = [] then ''pg'' else hdr ''X-Protocol'') h)"
  "snd (ginHandleQuery I \<lparr>Header = hdr, Param = ps, Body = Ok body\<rparr> h) =
     (if hdr ''X-Session-ID'' = [] then h else snd (HandleQuery I (hdr ''X-Session-ID'') body h))"
  "snd (ginCloseSession I \<lparr>Header = hdr, Param = ps, Body = Ok body\<rparr> h) =
     (if ps ''session_id'' = [] then h else snd (CloseSession I (ps ''session_id'') h))"
  "snd (ginHealthCheck I c h) = h"
  by (simp_all add: ginCreateSession_def ginHandleQuery_def ginCloseSession_def ginHealthCheck_def Let_def
      split: prod.split result.split)

lemma serve_gin_snd:
  "snd (serve_gin I m sid meth path header body h) =
     (case find_route m gin_routes meth path of
        None \<Rightarrow> h
      | Some (r, ps) \<Rightarrow> snd (run_route I sid r \<lparr>Header = header, Param = ps, Body = body\<rparr> h))"
  by (simp add: serve_gin_def split: option.split prod.split result.split)

lemma gin_serve_calls: "snd (gin_serve I m rq h) = handler_run I (calls_of m rq) h"
proof (cases "find_route m gin_routes (rq_method rq) (rq_path rq)")
  case None
  then show ?thesis by (simp add: gin_serve_def serve_gin_snd calls_of_def)
next
  case (Some rps)
  then obtain r ps where s: "find_route m gin_routes (rq_method rq) (rq_path rq) = Some (r, ps)"
    by (metis surj_pair)
  show ?thesis
    by (cases r) (simp_all add: gin_serve_def serve_gin_snd calls_of_def s run_route_def gin_functions_calls)
qed

lemma handler_run_append: "handler_run I (cs @ ds) h = handler_run I ds (handler_run I cs h)"
  by (induction cs arbitrary: h) simp_all

lemma gin_requests_calls: "snd (gin_requests I m rqs h) = handler_run I (concat (map (calls_of m) rqs)) h"
proof (induction rqs arbitrary: h)
  case (Cons rq rqs)
  obtain resp h1 where s: "gin_serve I m rq h = (resp, h1)" by fastforce
  then have "h1 = handler_run I (calls_of m rq) h" using gin_serve_calls [of I m rq h] by simp
  with Cons.IH [of h1] s show ?case by (simp add: handler_run_append case_prod_unfold)
qed simp

text \<open>
  The deferred calls of \<open>main\<close>, the last one first. \<open>ids\<close> and \<open>mids\<close> are the orders in which the
  two pools range over their sessions.
\<close>

definition server_shutdown ::
  "('db, 'c, 'v) pg_driver \<Rightarrow> ('mdb, 'mc, 'mv) my_driver \<Rightarrow> string list \<Rightarrow> string list
    \<Rightarrow> (('db, 'c) pg_pool, ('mdb, 'mc) my_pool) Handler \<Rightarrow> (('db, 'c) pg_pool, ('mdb, 'mc) my_pool) Handler" where
  "server_shutdown pd md ids mids h =
     (let h = h\<lparr>mysqlPool := map_option (my_Close md mids) (mysqlPool h)\<rparr>
      in h\<lparr>pgPool := pg_Close pd ids (pgPool h)\<rparr>)"

text \<open>
  \<open>main\<close> of the Gin build. When listening fails the program ends at once, without the deferred
  calls; otherwise it serves until the signal comes.
\<close>

definition server_program ::
  "'db pg_boot \<Rightarrow> ('db, 'c, 'v) pg_driver \<Rightarrow> 'mdb my_boot \<Rightarrow> ('mdb, 'mc, 'mv) my_driver \<Rightarrow> config_file \<Rightarrow> string \<Rightarrow> reader
    \<Rightarrow> matcher \<Rightarrow> unit result \<Rightarrow> ServerRequest list \<Rightarrow> string list \<Rightarrow> string list
    \<Rightarrow> (Response list \<times> (('db, 'c) pg_pool, ('mdb, 'mc) my_pool) Handler) result" where
  "server_program pb pd mb md f env rnd m listen rqs ids mids =
     rbind (server_main pb pd mb md f env rnd) (\<lambda>h.
     rbind (wrap_err ''Server error'' listen) (\<lambda>_.
       case gin_requests (server_pools pd md) m rqs h of
         (resps, h) \<Rightarrow> Ok (resps, server_shutdown pd md ids mids h)))"

text \<open>
  \<open>main\<close> of the Fiber build. A panic in the goroutine of a request ends the program there: the
  deferred calls of \<open>main\<close> do not run.
\<close>

definition fiber_program ::
  "'db pg_boot \<Rightarrow> ('db, 'c, 'v) pg_driver \<Rightarrow> 'mdb my_boot \<Rightarrow> ('mdb, 'mc, 'mv) my_driver \<Rightarrow> config_file \<Rightarrow> string \<Rightarrow> reader
    \<Rightarrow> fiber_app \<Rightarrow> unit result \<Rightarrow> ServerRequest list \<Rightarrow> string list \<Rightarrow> string list
    \<Rightarrow> (Response list \<times> (('db, 'c) pg_pool, ('mdb, 'mc) my_pool) Handler) result" where
  "fiber_program pb pd mb md f env rnd app listen rqs ids mids =
     rbind (server_main pb pd mb md f env rnd) (\<lambda>h.
     rbind (wrap_err ''Server error'' listen) (\<lambda>_.
       case fiber_requests (server_pools pd md) app rqs h of
         ((resps, None), h) \<Rightarrow> Ok (resps, server_shutdown pd md ids mids h)
       | ((resps, Some p), h) \<Rightarrow> Panic p))"

text \<open>A run of the Fiber build on requests of the API that does not panic is one of the Gin build.\<close>

theorem programs_agree:
  assumes "fiber_program pb pd mb md f env rnd app listen rqs ids mids = r" "\<not> is_panic r"
    and "both_take m app rqs"
  shows "server_program pb pd mb md f env rnd m listen rqs ids mids = r"
proof (cases "rbind (server_main pb pd mb md f env rnd) (\<lambda>h. rbind (wrap_err ''Server error'' listen) (\<lambda>_. Ok h))")
  case (Ok h)
  obtain resps p h' where fr: "fiber_requests (server_pools pd md) app rqs h = ((resps, p), h')" by (metis prod.exhaust)
  from Ok have "server_main pb pd mb md f env rnd = Ok h" "\<exists>u. listen = Ok u"
    by (auto simp: rbind_eq_Ok_iff)
  moreover from this fr assms(1,2) have "p = None" by (cases p) (auto simp: fiber_program_def)
  moreover obtain gr g where gr: "gin_requests (server_pools pd md) m rqs h = (gr, g)" by fastforce
  ultimately show ?thesis
    using builds_agree_run [OF fr gr assms(3)] fr gr assms(1) by (auto simp: fiber_program_def server_program_def)
qed (use assms in \<open>cases "server_main pb pd mb md f env rnd"; cases listen; simp add: fiber_program_def server_program_def\<close>)+

section \<open>Every connection is given back\<close>

text \<open>
  What the two libraries document of opening and closing: a pool that was just opened has given out
  no connection, and closing one from which none is out leaves it so.
\<close>

definition pg_boot_ok :: "'db pg_boot \<Rightarrow> ('db, 'c, 'v) pg_driver \<Rightarrow> ('db \<Rightarrow> 'c set) \<Rightarrow> bool" where
  "pg_boot_ok b drv out \<longleftrightarrow>
     (\<forall>cfg db u db'. b_open b cfg = Ok db \<longrightarrow> b_ping b db = (Ok u, db') \<longrightarrow> out db' = {}) \<and>
     (\<forall>db. out db = {} \<longrightarrow> out (d_close drv db) = {})"

definition my_boot_ok :: "'db my_boot \<Rightarrow> ('db, 'c, 'v) my_driver \<Rightarrow> ('db \<Rightarrow> 'c set) \<Rightarrow> bool" where
  "my_boot_ok b drv out \<longleftrightarrow>
     (\<forall>dsn db i j u db'. o_open b dsn = Ok db \<longrightarrow> o_ping b (o_limits b i j db) = (Ok u, db') \<longrightarrow> out db' = {}) \<and>
     (\<forall>db. out db = {} \<longrightarrow> out (m_close drv db) = {})"

lemma pg_New_inv: "pg_boot_ok b drv out \<Longrightarrow> pg_New b drv dsn i j = Ok pm \<Longrightarrow> pg_inv out pm"
  by (auto simp: pg_New_def pg_boot_ok_def pg_inv_def Let_def split: result.splits prod.splits if_splits)

lemma my_New_inv:
  assumes "my_boot_ok b drv out" "my_New b drv dsn i j = Ok pm"
  shows "my_inv out pm"
proof -
  from assms(2) obtain d db where db: "o_open b d = Ok db"
    and ping: "(case o_ping b (o_limits b (sint i) (sint j) db) of
        (Ok _, db') \<Rightarrow> Ok \<lparr>my_db = Some db', my_sessions = Map.empty, my_maxConns = i\<rparr>
      | (Err e, db') \<Rightarrow> Err (Wrap ''ping database'' e)
      | (Panic p, db') \<Rightarrow> Panic p) = Ok pm"
    unfolding my_New_def Let_def rbind_eq_Ok_iff wrap_err_eq_Ok_iff by blast
  then obtain u db' where p: "o_ping b (o_limits b (sint i) (sint j) db) = (Ok u, db')"
      "pm = \<lparr>my_db = Some db', my_sessions = Map.empty, my_maxConns = i\<rparr>"
    by (auto split: prod.splits result.splits)
  have "out db' = {}" using assms(1) db p(1) unfolding my_boot_ok_def by blast
  with p(2) show ?thesis by (simp add: my_inv_def)
qed

lemma pg_Close_empty:
  assumes "pg_driver_ok drv out" "pg_boot_ok b drv out" "pg_inv out pm" "set ids = dom (sessions pm)"
  shows "out (pool (pg_Close drv ids pm)) = {} \<and> sessions (pg_Close drv ids pm) = Map.empty"
proof -
  let ?p = "pg_close_loop drv ids pm"
  have d: "dom (sessions ?p) = {}" using assms(4) by (simp add: pg_close_loop_is_run pg_run_Release_dom)
  have "pg_inv out ?p" using pg_run_inv [OF assms(1,3)] by (simp add: pg_close_loop_is_run)
  then have "out (pool ?p) = {}" using d unfolding pg_inv_def by (rule dedicated_dom_empty)
  with d assms(2) show ?thesis by (simp add: pg_Close_def Let_def pg_boot_ok_def)
qed

lemma my_Close_empty:
  assumes "my_driver_ok drv out" "my_boot_ok b drv out" "my_inv out pm" "set ids = dom (my_sessions pm)"
  shows "map_option out (my_db (my_Close drv ids pm)) = Some {} \<and> my_sessions (my_Close drv ids pm) = Map.empty"
proof -
  let ?p = "my_close_loop drv ids pm"
  have d: "dom (my_sessions ?p) = {}" using assms(4) by (simp add: my_close_loop_is_run my_run_Release_dom)
  have "my_inv out ?p" using my_run_inv [OF assms(1,3)] by (simp add: my_close_loop_is_run)
  then obtain db where db: "my_db ?p = Some db" "dedicated (my_sessions ?p) (out db)"
    by (auto simp: my_inv_def split: option.splits)
  have "out db = {}" using db(2) d by (rule dedicated_dom_empty)
  with db d assms(2) show ?thesis by (simp add: my_Close_def Let_def my_boot_ok_def)
qed

lemma open_mysql_inv:
  assumes "my_boot_ok mb md mout" "open_mysql mb md cfg = Ok (Some pm)"
  shows "my_inv mout pm"
  using assms my_New_inv [OF assms(1)]
  by (auto simp: open_mysql_def split: if_splits result.splits)

lemma server_main_inv:
  assumes "pg_boot_ok pb pd out" "my_boot_ok mb md mout" "server_main pb pd mb md f env rnd = Ok h"
  shows "pg_inv out (pgPool h) \<and> (\<forall>my. mysqlPool h = Some my \<longrightarrow> my_inv mout my)"
proof -
  from assms(3) obtain cfg pg my where
      "pg_New pb pd (PostgresDSN cfg) (word_of_int (MaxConnections cfg)) (word_of_int (MinConnections cfg)) = Ok pg"
      "open_mysql mb md cfg = Ok my" "NewHandler pg my (EncryptionKey cfg) rnd = Ok h"
    by (auto simp: server_main_def rbind_eq_Ok_iff split: if_splits)
  then show ?thesis using pg_New_inv [OF assms(1)] open_mysql_inv [OF assms(2)] NewHandler_OkD by metis
qed

lemma handler_run_conns:
  assumes "pg_driver_ok pd out" "my_driver_ok md mout"
    and "pg_inv out (pgPool h)" "\<And>my. mysqlPool h = Some my \<Longrightarrow> my_inv mout my"
  shows "pg_inv out (pgPool (handler_run (server_pools pd md) cs h))"
    and "mysqlPool (handler_run (server_pools pd md) cs h) = Some my \<Longrightarrow> my_inv mout my"
proof -
  obtain xs ys where xs: "pgPool (handler_run (server_pools pd md) cs h) = pool_run (pgPoolAdapter pd) xs (pgPool h)"
    and ys: "mysqlPool (handler_run (server_pools pd md) cs h) = map_option (pool_run (mysqlPoolOps md) ys) (mysqlPool h)"
    using via_handler_run [of "server_pools pd md" h cs] by (auto simp: via_def server_pools_def)
  show "pg_inv out (pgPool (handler_run (server_pools pd md) cs h))"
    using xs pg_run_inv [OF assms(1,3)] by simp
  show "my_inv mout my" if "mysqlPool (handler_run (server_pools pd md) cs h) = Some my"
    using that ys my_run_inv [OF assms(2) assms(4)] by auto
qed

text \<open>
  C20: A server that has stopped leaves nothing behind: whatever requests it was sent, with
  whatever session ids, each got a response, and after the shutdown no connection is out of either
  driver's pool and no session is left.
\<close>

theorem server_leaves_nothing:
  assumes "pg_driver_ok pd out" "my_driver_ok md mout" "pg_boot_ok pb pd out" "my_boot_ok mb md mout"
    and "server_main pb pd mb md f env rnd = Ok h0" "h1 = snd (gin_requests (server_pools pd md) m rqs h0)"
    and "set ids = dom (sessions (pgPool h1))" "\<And>my. mysqlPool h1 = Some my \<Longrightarrow> set mids = dom (my_sessions my)"
  shows "\<exists>resps h. server_program pb pd mb md f env rnd m (Ok ()) rqs ids mids = Ok (resps, h)
    \<and> length resps = length rqs
    \<and> out (pool (pgPool h)) = {} \<and> sessions (pgPool h) = Map.empty
    \<and> (\<forall>my. mysqlPool h = Some my \<longrightarrow> map_option mout (my_db my) = Some {} \<and> my_sessions my = Map.empty)"
proof -
  obtain resps where r: "gin_requests (server_pools pd md) m rqs h0 = (resps, h1)"
    using assms(6) by (metis prod.collapse)
  have "h1 = handler_run (server_pools pd md) (concat (map (calls_of m) rqs)) h0"
    using assms(6) by (simp add: gin_requests_calls)
  moreover have "pg_inv out (pgPool h0)" "\<And>my. mysqlPool h0 = Some my \<Longrightarrow> my_inv mout my"
    using server_main_inv [OF assms(3,4,5)] by simp_all
  ultimately have inv: "pg_inv out (pgPool h1)" "\<And>my. mysqlPool h1 = Some my \<Longrightarrow> my_inv mout my"
    using handler_run_conns [OF assms(1,2)] by metis+
  let ?h = "server_shutdown pd md ids mids h1"
  have "out (pool (pgPool ?h)) = {}" "sessions (pgPool ?h) = Map.empty"
    using pg_Close_empty [OF assms(1,3) inv(1) assms(7)] by (simp_all add: server_shutdown_def)
  moreover have "map_option mout (my_db my) = Some {} \<and> my_sessions my = Map.empty" if my: "mysqlPool ?h = Some my" for my
  proof -
    from my obtain my1 where "mysqlPool h1 = Some my1" "my = my_Close md mids my1"
      by (auto simp: server_shutdown_def)
    then show ?thesis using my_Close_empty [OF assms(2,4) inv(2) assms(8)] by simp
  qed
  moreover have "server_program pb pd mb md f env rnd m (Ok ()) rqs ids mids = Ok (resps, ?h)"
    using assms(5) r by (simp add: server_program_def)
  moreover have "length resps = length rqs" using r gin_requests_length by (metis fst_conv)
  ultimately show ?thesis by blast
qed

section \<open>Witnesses\<close>

definition close_request :: "string \<Rightarrow> ServerRequest" where
  "close_request v = \<lparr>rq_id = [], rq_method = ''DELETE'', rq_path = ''/api/v1/session/'' @ v, rq_header = (\<lambda>_. []), rq_body = []\<rparr>"

definition create_request :: "string \<Rightarrow> ServerRequest" where
  "create_request sid = \<lparr>rq_id = sid, rq_method = ''POST'', rq_path = ''/api/v1/session'', rq_header = (\<lambda>_. []),
     rq_body = example_body\<rparr>"

definition example_fiber :: fiber_app where
  "example_fiber =
     \<lparr>turns_away = (\<lambda>rq. if length (rq_body rq) > 4 * 1024 * 1024 then Some (empty_status 413) else None),
      matches = example_matcher, body_of = rq_body, unrouted = (\<lambda>rq. empty_status 405)\<rparr>"

theorem short_id_ends_fiber_witness:
  "\<exists>p. fiber_requests echo_pools example_fiber [close_request ''abc'', create_request ''session-1''] echo_handler =
     (([], Some p), snd (CloseSession echo_pools ''abc'' echo_handler))"
proof -
  have "rq_method (close_request ''abc'') = ''DELETE''" "rq_path (close_request ''abc'') = ''/api/v1/session/'' @ ''abc''"
    by (simp_all add: close_request_def)
  moreover have "matcher_ok (matches example_fiber)" "turns_away example_fiber (close_request ''abc'') = None"
    using example_matcher_ok by (simp_all add: example_fiber_def close_request_def)
  ultimately show ?thesis
    using short_id_ends_fiber [of example_fiber "''abc''" "close_request ''abc''" echo_pools "[]" echo_handler "[]" echo_handler
        "[create_request ''session-1'']"] by simp
qed


definition example_my_boot :: "nat list my_boot" where
  "example_my_boot = \<lparr>o_open = (\<lambda>_. Ok []), o_limits = (\<lambda>_ _ db. db), o_ping = (\<lambda>db. (Ok (), db))\<rparr>"

lemma example_boots_ok: "pg_boot_ok example_boot list_driver set" "my_boot_ok example_my_boot my_list_driver set"
  by (simp_all add: pg_boot_ok_def my_boot_ok_def example_boot_def example_my_boot_def list_driver_def my_list_driver_def)

definition started_server :: "((nat list, nat) pg_pool, (nat list, nat) my_pool) Handler" where
  "started_server =
     \<lparr>pgPool = \<lparr>pool = [], sessions = Map.empty\<rparr>, mysqlPool = None, encKey = server_key, stmts = Map.empty,
      sessionPools = Map.empty, entropy = example_entropy\<rparr>"

lemma started_server:
  "server_main example_boot list_driver example_my_boot my_list_driver NotExist ''k'' example_entropy = Ok started_server"
  by (simp add: server_main_def LoadConfig_def DefaultConfig_def pg_New_def example_boot_def Let_def open_mysql_def
      NewHandler_def DeriveKey_def started_server_def server_key_def)

theorem server_leaves_nothing_witness:
  "\<exists>resps h. server_program example_boot list_driver example_my_boot my_list_driver NotExist ''k'' example_entropy
      example_matcher (Ok ()) [create_request ''session-1''] [''session-1''] [] = Ok (resps, h)
    \<and> length resps = 1 \<and> pool (pgPool h) = [] \<and> sessions (pgPool h) = Map.empty"
proof -
  let ?I = "server_pools list_driver my_list_driver" and ?rqs = "[create_request ''session-1'']"
  have "snd (gin_requests ?I example_matcher ?rqs started_server) =
      snd (CreateSession ?I ''session-1'' example_body ''pg'' started_server)"
    using find_create [OF example_matcher_ok] 
    by (simp add: gin_requests_calls calls_of_def create_request_def del: gin_requests.simps)
  also have "\<dots> = started_server\<lparr>pgPool := \<lparr>pool = [1], sessions = [''session-1'' \<mapsto> 1]\<rparr>,
      sessionPools := [''session-1'' \<mapsto> UsePg]\<rparr>"
    by (simp add: CreateSession_def started_server_def poolForProtocol_def pool_acquire_def server_pools_def
        pgPoolAdapter_def pg_AcquireSession_def list_driver_def)
  finally have h1: "pgPool (snd (gin_requests ?I example_matcher ?rqs started_server)) = \<lparr>pool = [1], sessions = [''session-1'' \<mapsto> 1]\<rparr>"
    "mysqlPool (snd (gin_requests ?I example_matcher ?rqs started_server)) = None"
    by (simp_all add: started_server_def del: gin_requests.simps)
  have ids: "set [''session-1''] = dom (sessions (pgPool (snd (gin_requests ?I example_matcher ?rqs started_server))))"
    by (simp add: h1 del: gin_requests.simps)
  from server_leaves_nothing [OF list_driver_ok my_list_driver_ok example_boots_ok started_server refl ids, of "[]"]
  show ?thesis by (simp add: h1(2) del: gin_requests.simps) (metis list.size(4) list.size(3) plus_1_eq_Suc)
qed

end
