(* ===== verification/Listener.thy ===== *)
theory Listener
  imports Prelude
begin

text \<open>
  The life of a proxy: \<open>Start\<close> and \<open>Stop\<close> of \<^verbatim>\<open>pkg/pgproxy/proxy.go\<close> and of
  \<^verbatim>\<open>pkg/mysqlproxy/proxy.go\<close>, which are the same but for their log lines. Three kinds of
  goroutines share the proxy: the accept loop, the caller of \<open>Stop\<close>, and one per connection. A
  step is what one of them does between two points where another may come in; a connection is a
  name, and what its goroutine does until it returns is the model of \<open>handleConnection\<close>.
\<close>

section \<open>A proxy and its goroutines\<close>

datatype listening = NoListener | Open | Shut

text \<open>Where \<open>Start\<close> stands; \<open>Accepted c\<close> is before the \<open>wg.Add\<close> of a new connection.\<close>

datatype 'c accepting = Unstarted | Accepting | Accepted 'c | Finished "unit result"

text \<open>Where \<open>Stop\<close> stands; \<open>Stopped\<close> is after its return, and it may be called again.\<close>

datatype stopping = NotCalled | QuitNext | CloseNext | Waiting | Stopped | StopPanicked

text \<open>The order in which \<open>Stop\<close> goes through its points.\<close>

fun stage_no :: "stopping \<Rightarrow> nat" where
  "stage_no NotCalled = 0"
| "stage_no QuitNext = 1"
| "stage_no CloseNext = 2"
| "stage_no Waiting = 3"
| "stage_no Stopped = 4"
| "stage_no StopPanicked = 5"

lemma stage_no_eq_iff [simp]: "stage_no x = stage_no y \<longleftrightarrow> x = y"
  by (cases x; cases y) simp_all

instantiation stopping :: linorder
begin

definition less_eq_stopping :: "stopping \<Rightarrow> stopping \<Rightarrow> bool" where
  "less_eq_stopping x y \<longleftrightarrow> stage_no x \<le> stage_no y"

definition less_stopping :: "stopping \<Rightarrow> stopping \<Rightarrow> bool" where
  "less_stopping x y \<longleftrightarrow> stage_no x < stage_no y"

instance
  by standard (auto simp: less_eq_stopping_def less_stopping_def)

end

datatype 'c goroutine = Acceptor | Stopper | Connection 'c

record 'c proxy_state =
  listener :: listening
  quit :: bool \<comment> \<open>the channel is closed\<close>
  wg :: nat
  accept_loop :: "'c accepting"
  stop_call :: stopping
  serving :: "'c set"
  seen :: "'c set"

definition new_proxy :: "'c proxy_state" where
  "new_proxy = \<lparr>listener = NoListener, quit = False, wg = 0, accept_loop = Unstarted, stop_call = NotCalled,
     serving = {}, seen = {}\<rparr>"

text \<open>
  \<open>accept_error\<close> is any error of \<open>Accept\<close>: that of a closed listener, or one of the system while
  the listener is open. The loop ends only when \<open>quit\<close> is closed by then.
\<close>

inductive proxy_step :: "string \<Rightarrow> 'c goroutine \<Rightarrow> 'c proxy_state \<Rightarrow> 'c proxy_state \<Rightarrow> bool"
  for listenAddr where
  listens: "accept_loop s = Unstarted \<Longrightarrow>
    proxy_step listenAddr Acceptor s (s\<lparr>listener := Open, accept_loop := Accepting\<rparr>)"
| listen_fails: "accept_loop s = Unstarted \<Longrightarrow>
    proxy_step listenAddr Acceptor s (s\<lparr>accept_loop := Finished (Err (Wrap (''listen on '' @ listenAddr) e))\<rparr>)"
| accepts: "accept_loop s = Accepting \<Longrightarrow> listener s = Open \<Longrightarrow> c \<notin> seen s \<Longrightarrow>
    proxy_step listenAddr Acceptor s (s\<lparr>accept_loop := Accepted c, seen := insert c (seen s)\<rparr>)"
| accept_error: "accept_loop s = Accepting \<Longrightarrow>
    proxy_step listenAddr Acceptor s (if quit s then s\<lparr>accept_loop := Finished (Ok ())\<rparr> else s)"
| spawns: "accept_loop s = Accepted c \<Longrightarrow>
    proxy_step listenAddr Acceptor s
      (s\<lparr>accept_loop := Accepting, wg := wg s + 1, serving := insert c (serving s)\<rparr>)"
| connection_ends: "c \<in> serving s \<Longrightarrow>
    proxy_step listenAddr (Connection c) s (s\<lparr>wg := wg s - 1, serving := serving s - {c}\<rparr>)"
| stop_called: "stop_call s \<in> {NotCalled, Stopped} \<Longrightarrow>
    proxy_step listenAddr Stopper s (s\<lparr>stop_call := (if listener s = NoListener then Waiting else QuitNext)\<rparr>)"
| closes_quit: "stop_call s = QuitNext \<Longrightarrow>
    proxy_step listenAddr Stopper s
      (if quit s then s\<lparr>stop_call := StopPanicked\<rparr> else s\<lparr>quit := True, stop_call := CloseNext\<rparr>)"
| closes_listener: "stop_call s = CloseNext \<Longrightarrow>
    proxy_step listenAddr Stopper s (s\<lparr>listener := Shut, stop_call := Waiting\<rparr>)"
| waited: "stop_call s = Waiting \<Longrightarrow> wg s = 0 \<Longrightarrow>
    proxy_step listenAddr Stopper s (s\<lparr>stop_call := Stopped\<rparr>)"

text \<open>A run, with the goroutine of every step; what a proxy can reach is what runs from a new one.\<close>

inductive proxy_run :: "string \<Rightarrow> 'c goroutine list \<Rightarrow> 'c proxy_state \<Rightarrow> 'c proxy_state \<Rightarrow> bool"
  for listenAddr where
  rests: "proxy_run listenAddr [] s s"
| moves: "proxy_step listenAddr g s t \<Longrightarrow> proxy_run listenAddr gs t u \<Longrightarrow> proxy_run listenAddr (g # gs) s u"

inductive_simps proxy_run_simps [simp]:
  "proxy_run a [] s t"
  "proxy_run a (g # gs) s t"

lemma proxy_run_append: "proxy_run a (gs @ hs) s u \<longleftrightarrow> (\<exists>t. proxy_run a gs s t \<and> proxy_run a hs t u)"
  by (induction gs arbitrary: s) auto

section \<open>The invariant\<close>

text \<open>
  The wait group counts the connections being served. Once \<open>Stop\<close> has closed the listener and
  returned, nothing is served but one connection the loop may have accepted and not yet counted.
\<close>

definition counted :: "'c proxy_state \<Rightarrow> bool" where
  "counted s \<longleftrightarrow> finite (serving s) \<and> wg s = card (serving s) \<and> serving s \<subseteq> seen s \<and>
     (\<forall>c. accept_loop s = Accepted c \<longrightarrow> c \<in> seen s - serving s)"

definition staged :: "'c proxy_state \<Rightarrow> bool" where
  "staged s \<longleftrightarrow>
     (accept_loop s = Unstarted \<longrightarrow> listener s = NoListener) \<and>
     (\<forall>e. accept_loop s = Finished (Err e) \<longrightarrow> listener s = NoListener) \<and>
     (\<forall>p. accept_loop s \<noteq> Finished (Panic p)) \<and>
     (listener s = NoListener \<longrightarrow> stop_call s \<noteq> QuitNext \<and> stop_call s \<noteq> CloseNext) \<and>
     (quit s \<longleftrightarrow> listener s = Shut \<or> stop_call s = CloseNext) \<and>
     (accept_loop s = Finished (Ok ()) \<longrightarrow> quit s)"

definition at_most_one_late :: "'c proxy_state \<Rightarrow> bool" where
  "at_most_one_late s \<longleftrightarrow>
     (stop_call s = Stopped \<and> listener s = Shut \<longrightarrow>
        (\<exists>c. serving s \<subseteq> {c}) \<and> (\<forall>c. accept_loop s = Accepted c \<longrightarrow> serving s = {}))"

lemmas proxy_inv_defs = counted_def staged_def at_most_one_late_def

lemma new_proxy_inv: "counted new_proxy" "staged new_proxy" "at_most_one_late new_proxy"
  by (simp_all add: proxy_inv_defs new_proxy_def)

lemma counted_step: "proxy_step a g s t \<Longrightarrow> counted s \<Longrightarrow> counted t"
  by (induction rule: proxy_step.induct) (auto simp: counted_def card_Diff_singleton)

lemma staged_step:
  assumes "proxy_step a g s t" "staged s"
  shows "staged t"
  using assms(1)
proof cases
  case stop_called
  then show ?thesis using assms(2) by (cases "listener s") (auto simp: staged_def)
qed (use assms(2) in \<open>auto simp: staged_def\<close>)

lemma late_step:
  assumes "proxy_step a g s t" "counted s" "at_most_one_late s"
  shows "at_most_one_late t"
  using assms(1)
proof cases
  case (spawns c)
  then show ?thesis using assms(3) by (auto simp: at_most_one_late_def)
next
  case (connection_ends c)
  then show ?thesis using assms(3) unfolding at_most_one_late_def by (simp, blast)
next
  case waited
  then have "serving s = {}" using assms(2) by (metis card_0_eq counted_def)
  then show ?thesis using waited by (simp add: at_most_one_late_def)
qed (use assms(3) in \<open>simp_all add: at_most_one_late_def\<close>)

lemma proxy_run_inv:
  "proxy_run a gs s t \<Longrightarrow> counted s \<Longrightarrow> staged s \<Longrightarrow> at_most_one_late s \<Longrightarrow>
   counted t \<and> staged t \<and> at_most_one_late t"
proof (induction rule: proxy_run.induct)
  case (moves g s t gs u)
  then show ?case using counted_step staged_step late_step by metis
qed simp

text \<open>The states of a proxy: those a run reaches from a new one.\<close>

definition reachable :: "string \<Rightarrow> 'c proxy_state \<Rightarrow> bool" where
  "reachable a s \<longleftrightarrow> (\<exists>gs. proxy_run a gs new_proxy s)"

lemma reachable_inv: "reachable a s \<Longrightarrow> counted s \<and> staged s \<and> at_most_one_late s"
  unfolding reachable_def using proxy_run_inv new_proxy_inv by metis

section \<open>Stopping\<close>

text \<open>
  When \<open>Stop\<close> of a listening proxy has returned, the listener is closed, the accept loop has
  been told to end, and every connection that was counted has been served to its end: at most one
  connection is still there, one that was accepted before the listener was closed and that the
  loop had not yet counted.
\<close>

theorem stop_returned:
  assumes "reachable a s" "stop_call s = Stopped" "listener s = Shut"
  shows "quit s \<and> wg s = card (serving s)
    \<and> (\<exists>late. serving s \<subseteq> {late} \<and> (\<forall>c. accept_loop s = Accepted c \<longrightarrow> serving s = {}))
    \<and> (\<forall>g t. proxy_step a g s t \<longrightarrow> seen t = seen s)"
proof -
  have inv: "counted s" "staged s" "at_most_one_late s" using reachable_inv [OF assms(1)] by simp_all
  have "seen t = seen s" if "proxy_step a g s t" for g t
    using that assms(3) by cases simp_all
  then show ?thesis using inv assms(2,3) by (simp add: counted_def staged_def at_most_one_late_def)
qed

lemma stop_waits_step:
  "proxy_step a g s t \<Longrightarrow> counted s \<Longrightarrow> c \<in> serving s \<Longrightarrow> stop_call s \<noteq> Stopped \<Longrightarrow> g \<noteq> Connection c \<Longrightarrow>
   c \<in> serving t \<and> stop_call t \<noteq> Stopped"
  by (induction rule: proxy_step.induct) (auto simp: counted_def)

text \<open>
  \<open>Stop\<close> does not return while a client stays connected: nothing tells the goroutines of the
  connections to end, so as long as one of them has not, every run leaves \<open>Stop\<close> waiting.
\<close>

theorem stop_waits:
  assumes "reachable a s" "c \<in> serving s" "stop_call s \<noteq> Stopped"
    and "proxy_run a gs s t" "Connection c \<notin> set gs"
  shows "c \<in> serving t \<and> stop_call t \<noteq> Stopped"
proof -
  have "counted s" using reachable_inv [OF assms(1)] by simp
  with assms(4,2,3,5) show ?thesis
  proof (induction rule: proxy_run.induct)
    case (moves g s t gs u)
    then show ?case using stop_waits_step [of a g s t c] counted_step by auto
  qed simp
qed

section \<open>The accept loop\<close>

text \<open>The steps the loop still takes once the listener is closed.\<close>

fun loop_rank :: "'c accepting \<Rightarrow> nat" where
  "loop_rank (Accepted c) = 2"
| "loop_rank Accepting = 1"
| "loop_rank _ = 0"

lemma loop_rank_step:
  "proxy_step a g s t \<Longrightarrow> staged s \<Longrightarrow> listener s = Shut \<Longrightarrow>
   listener t = Shut \<and> loop_rank (accept_loop s) = loop_rank (accept_loop t) + of_bool (g = Acceptor)"
  by (induction rule: proxy_step.induct) (auto simp: staged_def)

lemma loop_rank_run:
  "proxy_run a gs s t \<Longrightarrow> staged s \<Longrightarrow> listener s = Shut \<Longrightarrow>
   staged t \<and> listener t = Shut \<and>
   loop_rank (accept_loop s) = loop_rank (accept_loop t) + length (filter (\<lambda>g. g = Acceptor) gs)"
proof (induction rule: proxy_run.induct)
  case (moves g s t gs u)
  then show ?case using loop_rank_step [of a g s t] staged_step [of a g s t] by auto
qed simp

text \<open>
  C26: Once \<open>Stop\<close> has closed the listener, the accept loop takes at most two more steps, can
  always take the next of them, and \<open>Start\<close> then returns without an error.
\<close>

theorem accept_loop_ends:
  assumes "reachable a s" "listener s = Shut" "proxy_run a gs s t"
  shows "length (filter (\<lambda>g. g = Acceptor) gs) \<le> 2
    \<and> (accept_loop t = Finished (Ok ()) \<or> (\<exists>u. proxy_step a Acceptor t u))
    \<and> (length (filter (\<lambda>g. g = Acceptor) gs) = 2 \<longrightarrow> accept_loop t = Finished (Ok ()))"
proof -
  have run: "staged t" "listener t = Shut"
    "loop_rank (accept_loop s) = loop_rank (accept_loop t) + length (filter (\<lambda>g. g = Acceptor) gs)"
    using loop_rank_run [OF assms(3)] reachable_inv [OF assms(1)] assms(2) by simp_all
  have "loop_rank (accept_loop s) \<le> 2" by (cases "accept_loop s") simp_all
  moreover have "accept_loop t = Finished (Ok ()) \<or> loop_rank (accept_loop t) > 0 \<and> (\<exists>u. proxy_step a Acceptor t u)"
  proof (cases "accept_loop t")
    case Accepting
    then show ?thesis using proxy_step.accept_error by fastforce
  next
    case (Accepted c)
    then show ?thesis using proxy_step.spawns by fastforce
  next
    case Unstarted
    then show ?thesis using run(1,2) by (simp add: staged_def)
  next
    case (Finished r)
    then show ?thesis using run(1,2) by (cases r) (simp_all add: staged_def)
  qed
  ultimately show ?thesis using run(3) by auto
qed

text \<open>An error of an open listener is retried at once, as often as it comes.\<close>

lemma accept_error_retried:
  "accept_loop s = Accepting \<Longrightarrow> \<not> quit s \<Longrightarrow> proxy_run a (replicate n Acceptor) s s"
proof (induction n)
  case (Suc n)
  then show ?case using proxy_step.accept_error [of s a] by auto
qed simp

section \<open>Witnesses\<close>

lemma reachable_new: "reachable a new_proxy"
  unfolding reachable_def by (rule exI [of _ "[]"]) simp

lemma reachable_step:
  assumes "reachable a s" "proxy_step a g s t"
  shows "reachable a t"
proof -
  from assms(1) obtain gs where "proxy_run a gs new_proxy s" unfolding reachable_def by blast
  then have "proxy_run a (gs @ [g]) new_proxy t" using assms(2) by (auto simp: proxy_run_append)
  then show ?thesis unfolding reachable_def by blast
qed

text \<open>
  A proxy that was asked to stop when it had accepted a connection and not yet counted it: \<open>Stop\<close>
  returns, and the connection is served after that.
\<close>

definition accepted_one :: "nat proxy_state" where
  "accepted_one = \<lparr>listener = Open, quit = False, wg = 0, accept_loop = Accepted 1, stop_call = NotCalled,
     serving = {}, seen = {1}\<rparr>"

definition serves_one :: "nat proxy_state" where
  "serves_one = accepted_one\<lparr>accept_loop := Accepting, wg := 1, serving := {1}\<rparr>"

definition stopped_early :: "nat proxy_state" where
  "stopped_early = accepted_one\<lparr>quit := True, listener := Shut, stop_call := Stopped\<rparr>"

lemma accepted_one_reachable: "reachable '':5432'' accepted_one"
proof -
  let ?s = "new_proxy\<lparr>listener := Open, accept_loop := Accepting\<rparr> :: nat proxy_state"
  have "proxy_step '':5432'' Acceptor new_proxy ?s"
    by (rule proxy_step.listens) (simp add: new_proxy_def)
  moreover have "proxy_step '':5432'' Acceptor ?s accepted_one"
    using proxy_step.accepts [of ?s 1 "'':5432''"] by (simp add: new_proxy_def accepted_one_def)
  ultimately show ?thesis using reachable_new reachable_step by blast
qed

lemma stop_steps:
  assumes "reachable a s" "stop_call s = NotCalled" "listener s = Open" "\<not> quit s"
  shows "reachable a (s\<lparr>quit := True, listener := Shut, stop_call := Waiting\<rparr>)"
proof -
  let ?s1 = "s\<lparr>stop_call := QuitNext\<rparr>"
  let ?s2 = "s\<lparr>quit := True, stop_call := CloseNext\<rparr>"
  have "proxy_step a Stopper s ?s1" using proxy_step.stop_called [of s a] assms by simp
  moreover have "proxy_step a Stopper ?s1 ?s2" using proxy_step.closes_quit [of ?s1 a] assms by simp
  moreover have "proxy_step a Stopper ?s2 (s\<lparr>quit := True, listener := Shut, stop_call := Waiting\<rparr>)"
    using proxy_step.closes_listener [of ?s2 a] by simp
  ultimately show ?thesis using assms(1) reachable_step by blast
qed

lemma stopped_early_reachable: "reachable '':5432'' stopped_early"
proof -
  let ?s = "accepted_one\<lparr>quit := True, listener := Shut, stop_call := Waiting\<rparr>"
  have "reachable '':5432'' ?s"
    by (rule stop_steps [OF accepted_one_reachable]) (simp_all add: accepted_one_def)
  moreover have "proxy_step '':5432'' Stopper ?s stopped_early"
    using proxy_step.waited [of ?s "'':5432''"] by (simp add: stopped_early_def accepted_one_def)
  ultimately show ?thesis by (rule reachable_step)
qed

lemma serves_one_reachable: "reachable '':5432'' serves_one"
proof -
  have "proxy_step '':5432'' Acceptor accepted_one serves_one"
    using proxy_step.spawns [of accepted_one 1 "'':5432''"] by (simp add: accepted_one_def serves_one_def)
  with accepted_one_reachable show ?thesis by (rule reachable_step)
qed

text \<open>The one late connection exists.\<close>

theorem late_connection:
  "\<exists>s. reachable '':5432'' s \<and> stop_call s = Stopped \<and> listener s = Shut \<and> serving s = {1 :: nat}"
proof -
  let ?s = "stopped_early\<lparr>accept_loop := Accepting, wg := 1, serving := {1}\<rparr>"
  have "proxy_step '':5432'' Acceptor stopped_early ?s"
    using proxy_step.spawns [of stopped_early 1 "'':5432''"] by (simp add: stopped_early_def accepted_one_def)
  with stopped_early_reachable have "reachable '':5432'' ?s" by (rule reachable_step)
  then show ?thesis by (rule exI [of _ ?s, OF conjI]) (simp add: stopped_early_def)
qed

theorem stop_returned_witness:
  "quit stopped_early \<and> wg stopped_early = card (serving stopped_early)
   \<and> (\<forall>g t. proxy_step '':5432'' g stopped_early t \<longrightarrow> seen t = {1})"
proof -
  have "stop_call stopped_early = Stopped" "listener stopped_early = Shut" "seen stopped_early = {1}"
    by (simp_all add: stopped_early_def accepted_one_def)
  with stop_returned [OF stopped_early_reachable this(1,2)] show ?thesis by simp
qed

theorem stop_waits_witness:
  "\<exists>t. proxy_run '':5432'' [Stopper] serves_one t \<and> stop_call t = QuitNext \<and> stop_call t \<noteq> Stopped \<and> 1 \<in> serving t"
proof -
  let ?t = "serves_one\<lparr>stop_call := QuitNext\<rparr>"
  have r: "proxy_run '':5432'' [Stopper] serves_one ?t"
    using proxy_step.stop_called [of serves_one "'':5432''"] by (simp add: serves_one_def accepted_one_def)
  have "1 \<in> serving serves_one" "stop_call serves_one \<noteq> Stopped" by (simp_all add: serves_one_def accepted_one_def)
  from stop_waits [OF serves_one_reachable this r] r show ?thesis by auto
qed

theorem accept_loop_ends_witness:
  "listener stopped_early = Shut \<and> accept_loop stopped_early = Accepted 1 \<and> (\<exists>u. proxy_step '':5432'' Acceptor stopped_early u)"
proof -
  have l: "listener stopped_early = Shut" "accept_loop stopped_early = Accepted 1"
    by (simp_all add: stopped_early_def accepted_one_def)
  from accept_loop_ends [OF stopped_early_reachable l(1), of "[]" stopped_early] l show ?thesis by simp
qed

end
