(* ===== verification/ProxyProgram.thy ===== *)
theory ProxyProgram
  imports Listener Programs
begin

text \<open>
  The proxy program as a whole: \<open>main\<close> of \<^verbatim>\<open>cmd/proxy/main.go\<close> with the proxies it started, from the
  moment they are created until the program exits. Each proxy is a state of \<open>Listener\<close>; \<open>main\<close>
  waits for a signal and then runs the deferred calls of \<open>Stop\<close>, the last deferred first.
\<close>

section \<open>The program and its steps\<close>

text \<open>
  \<open>Stopping k\<close>: the first \<open>k\<close> proxies are still to be stopped, and \<open>Stop\<close> of the last of them
  runs. \<open>Exited\<close> carries how the program ended: normally, by \<open>log.Fatalf\<close>, or by a panic.
\<close>

datatype main_point = AwaitSignal | Stopping nat | Exited "unit result"

record 'c program =
  running :: "'c proxy_state list"
  main_at :: main_point

definition listen_addr :: "started \<Rightarrow> string" where
  "listen_addr p = (case p of PgProxy q \<Rightarrow> listenAddr q | MySQLProxy q \<Rightarrow> listenAddr q)"

definition started_program :: "started list \<Rightarrow> 'c program" where
  "started_program ps = \<lparr>running = map (\<lambda>_. new_proxy) ps, main_at = AwaitSignal\<rparr>"

text \<open>What a step of a proxy means for the program.\<close>

definition fatal_text :: "started \<Rightarrow> string" where
  "fatal_text p = (case p of PgProxy _ \<Rightarrow> ''[PgSQL Proxy] Error'' | MySQLProxy _ \<Rightarrow> ''[MySQL Proxy] Error'')"

definition program_end :: "started \<Rightarrow> 'c proxy_state \<Rightarrow> main_point \<Rightarrow> main_point" where
  "program_end started p m =
     (case accept_loop p of
        Finished (Err e) \<Rightarrow> Exited (Err (Wrap (fatal_text started) e))
      | _ \<Rightarrow> if stop_call p = StopPanicked then Exited (Panic (PMessage ''close of closed channel'')) else m)"

datatype 'c program_action = Signal | ProxyMoves nat "'c goroutine" | Crashes nat 'c | StopReturns | Exits

definition has_exited :: "'c program \<Rightarrow> bool" where
  "has_exited s \<longleftrightarrow> (case main_at s of Exited _ \<Rightarrow> True | _ \<Rightarrow> False)"

inductive program_step :: "started list \<Rightarrow> 'c program_action \<Rightarrow> 'c program \<Rightarrow> 'c program \<Rightarrow> bool"
  for ps where
  signalled: "main_at s = AwaitSignal \<Longrightarrow>
    program_step ps Signal s (s\<lparr>main_at := Stopping (length (running s))\<rparr>)"
| proxy_moves: "\<not> has_exited s \<Longrightarrow> i < length (running s) \<Longrightarrow>
    (g = Stopper \<longrightarrow> main_at s = Stopping (Suc i) \<and> stop_call (running s ! i) \<noteq> Stopped) \<Longrightarrow>
    proxy_step (listen_addr (ps ! i)) g (running s ! i) p \<Longrightarrow>
    program_step ps (ProxyMoves i g) s (s\<lparr>running := (running s)[i := p], main_at := program_end (ps ! i) p (main_at s)\<rparr>)"
| crashes: "\<not> has_exited s \<Longrightarrow> i < length (running s) \<Longrightarrow> c \<in> serving (running s ! i) \<Longrightarrow>
    program_step ps (Crashes i c) s (s\<lparr>main_at := Exited (Panic reason)\<rparr>)"
| stop_returns: "main_at s = Stopping (Suc i) \<Longrightarrow> stop_call (running s ! i) = Stopped \<Longrightarrow>
    program_step ps StopReturns s (s\<lparr>main_at := Stopping i\<rparr>)"
| exits: "main_at s = Stopping 0 \<Longrightarrow> program_step ps Exits s (s\<lparr>main_at := Exited (Ok ())\<rparr>)"

inductive program_run :: "started list \<Rightarrow> 'c program_action list \<Rightarrow> 'c program \<Rightarrow> 'c program \<Rightarrow> bool"
  for ps where
  ends: "program_run ps [] s s"
| steps: "program_step ps a s t \<Longrightarrow> program_run ps as t u \<Longrightarrow> program_run ps (a # as) s u"

inductive_simps program_run_simps [simp]:
  "program_run ps [] s t"
  "program_run ps (a # as) s t"

definition program_reachable :: "started list \<Rightarrow> 'c program \<Rightarrow> bool" where
  "program_reachable ps s \<longleftrightarrow> (\<exists>as. program_run ps as (started_program ps) s)"

lemma program_run_append:
  "program_run ps (as @ bs) s u \<longleftrightarrow> (\<exists>t. program_run ps as s t \<and> program_run ps bs t u)"
  by (induction as arbitrary: s) auto

section \<open>The invariant\<close>

definition quiet :: "'c proxy_state \<Rightarrow> bool" where
  "quiet p \<longleftrightarrow> (stop_call p \<in> {NotCalled, QuitNext} \<longrightarrow> \<not> quit p)"

definition stage_ok :: "nat \<Rightarrow> main_point \<Rightarrow> 'c proxy_state \<Rightarrow> bool" where
  "stage_ok i m p \<longleftrightarrow>
     (case m of
        AwaitSignal \<Rightarrow> stop_call p = NotCalled \<and> (\<forall>e. accept_loop p \<noteq> Finished (Err e))
      | Stopping k \<Rightarrow> (Suc i < k \<longrightarrow> stop_call p = NotCalled) \<and> (k \<le> i \<longrightarrow> stop_call p = Stopped) \<and>
          stop_call p \<noteq> StopPanicked \<and> (\<forall>e. accept_loop p \<noteq> Finished (Err e))
      | Exited r \<Rightarrow> r = Ok () \<longrightarrow> stop_call p = Stopped)"

definition proxy_ok :: "'c proxy_state \<Rightarrow> bool" where
  "proxy_ok p \<longleftrightarrow> counted p \<and> staged p \<and> at_most_one_late p \<and> quiet p \<and> stop_call p \<noteq> StopPanicked"

definition program_inv :: "started list \<Rightarrow> 'c program \<Rightarrow> bool" where
  "program_inv ps s \<longleftrightarrow> length (running s) = length ps \<and> (\<forall>k. main_at s = Stopping k \<longrightarrow> k \<le> length ps) \<and>
     (\<forall>i < length ps. proxy_ok (running s ! i) \<and> stage_ok i (main_at s) (running s ! i))"

lemma proxy_ok_step:
  assumes "proxy_step a g p q" "proxy_ok p" "g = Stopper \<longrightarrow> stop_call p \<noteq> Stopped"
  shows "proxy_ok q" "stop_call p \<noteq> StopPanicked \<Longrightarrow> stop_call q \<noteq> StopPanicked"
    "g \<noteq> Stopper \<Longrightarrow> stop_call q = stop_call p"
proof -
  have "quiet q \<and> (stop_call p \<noteq> StopPanicked \<longrightarrow> stop_call q \<noteq> StopPanicked) \<and> (g \<noteq> Stopper \<longrightarrow> stop_call q = stop_call p)"
    using assms(1) by cases (use assms(2,3) in \<open>auto simp: proxy_ok_def quiet_def staged_def\<close>)
  then show "proxy_ok q" "stop_call p \<noteq> StopPanicked \<Longrightarrow> stop_call q \<noteq> StopPanicked"
    "g \<noteq> Stopper \<Longrightarrow> stop_call q = stop_call p"
    using assms(2) counted_step [OF assms(1)] staged_step [OF assms(1)] late_step [OF assms(1)]
    by (simp_all add: proxy_ok_def)
qed

lemma program_end_cases:
  "(\<forall>e. accept_loop p \<noteq> Finished (Err e)) \<and> stop_call p \<noteq> StopPanicked \<and> program_end st p m = m
   \<or> (\<exists>r. program_end st p m = Exited r \<and> r \<noteq> Ok ())"
  by (cases "accept_loop p") (auto simp: program_end_def split: result.split)

lemma program_inv_start: "program_inv ps (started_program ps)"
  using new_proxy_inv
  by (auto simp: program_inv_def started_program_def proxy_ok_def quiet_def stage_ok_def new_proxy_def)

lemma program_inv_step:
  assumes "program_step ps a s t" "program_inv ps s"
  shows "program_inv ps t"
  using assms(1)
proof cases
  case (proxy_moves i g p)
  have i: "i < length ps" "proxy_ok (running s ! i)" "stage_ok i (main_at s) (running s ! i)"
    using assms(2) proxy_moves(4) by (simp_all add: program_inv_def)
  have p: "proxy_ok p" "stop_call (running s ! i) \<noteq> StopPanicked \<Longrightarrow> stop_call p \<noteq> StopPanicked"
    "g \<noteq> Stopper \<Longrightarrow> stop_call p = stop_call (running s ! i)"
    using proxy_ok_step [OF proxy_moves(6) i(2)] proxy_moves(5) by auto
  from program_end_cases [of p "ps ! i" "main_at s"]
  show ?thesis
  proof
    assume m: "(\<forall>e. accept_loop p \<noteq> Finished (Err e)) \<and> stop_call p \<noteq> StopPanicked \<and>
      program_end (ps ! i) p (main_at s) = main_at s"
    then have "stage_ok i (main_at s) p"
      using i(3) p(3) proxy_moves(3,5)
      by (cases "g = Stopper") (auto simp: stage_ok_def has_exited_def split: main_point.splits)
    with m p(1) i(1) assms(2) proxy_moves(2) show ?thesis by (auto simp: program_inv_def nth_list_update)
  next
    assume "\<exists>r. program_end (ps ! i) p (main_at s) = Exited r \<and> r \<noteq> Ok ()"
    with p(1) i(1) assms(2) proxy_moves(2) show ?thesis by (auto simp: program_inv_def stage_ok_def nth_list_update)
  qed
next
  case (stop_returns k)
  then show ?thesis using assms(2) by (auto simp: program_inv_def stage_ok_def less_Suc_eq le_less Suc_le_eq)
qed (use assms(2) in \<open>auto simp: program_inv_def stage_ok_def split: main_point.splits\<close>)

lemma program_inv_run: "program_run ps as s t \<Longrightarrow> program_inv ps s \<Longrightarrow> program_inv ps t"
  by (induction rule: program_run.induct) (auto dest: program_inv_step)

lemma program_reachable_inv: "program_reachable ps s \<Longrightarrow> program_inv ps s"
  unfolding program_reachable_def using program_inv_run program_inv_start by metis

section \<open>Shutting down\<close>

text \<open>What holds while a client of the \<open>i\<close>-th proxy stays.\<close>

definition held :: "nat \<Rightarrow> 'c \<Rightarrow> 'c program \<Rightarrow> bool" where
  "held i c s \<longleftrightarrow>
     (\<forall>j < i. stop_call (running s ! j) = NotCalled \<and> listener (running s ! j) \<noteq> Shut) \<and>
     main_at s \<noteq> Exited (Ok ()) \<and>
     (\<not> has_exited s \<longrightarrow> c \<in> serving (running s ! i) \<and> stop_call (running s ! i) \<noteq> Stopped)"

lemma listener_not_Shut: "proxy_ok p \<Longrightarrow> stop_call p = NotCalled \<Longrightarrow> listener p \<noteq> Shut"
  by (auto simp: proxy_ok_def staged_def quiet_def)

lemma held_stage:
  assumes "program_inv ps s" "i < length ps" "held i c s" "main_at s = Stopping k"
  shows "i < k"
proof (rule ccontr)
  assume "\<not> i < k"
  with assms(1,2,4) have "stop_call (running s ! i) = Stopped" by (auto simp: program_inv_def stage_ok_def)
  with assms(3,4) show False by (simp add: held_def has_exited_def)
qed

lemma held_step:
  assumes "program_step ps a s t" "program_inv ps s" "i < length ps" "held i c s" "a \<noteq> ProxyMoves i (Connection c)"
  shows "held i c t"
  using assms(1)
proof cases
  case (proxy_moves k g p)
  have k: "k < length ps" "proxy_ok (running s ! k)" using assms(2) proxy_moves(4) by (simp_all add: program_inv_def)
  note p = proxy_ok_step [OF proxy_moves(6) k(2)]
  have len: "length (running s) = length ps" using assms(2) by (simp add: program_inv_def)
  have below: "stop_call p = NotCalled \<and> listener p \<noteq> Shut" if "k < i"
  proof -
    have "stop_call (running s ! k) = NotCalled" using that assms(4) by (simp add: held_def)
    moreover have "g \<noteq> Stopper"
      using held_stage [OF assms(2-4)] that proxy_moves(5) by auto
    ultimately have "stop_call p = NotCalled" using p(3) by simp
    with p(1) \<open>g \<noteq> Stopper\<close> show ?thesis using listener_not_Shut by blast
  qed
  have self: "c \<in> serving p \<and> stop_call p \<noteq> Stopped" if "k = i"
  proof -
    have "c \<in> serving (running s ! i)" "stop_call (running s ! i) \<noteq> Stopped"
      using assms(4) proxy_moves(3) by (simp_all add: held_def)
    moreover have "counted (running s ! i)" "g \<noteq> Connection c"
      using k(2) that assms(5) proxy_moves(1) by (auto simp: proxy_ok_def)
    ultimately show ?thesis using stop_waits_step proxy_moves(6) that by metis
  qed
  have m: "program_end (ps ! k) p (main_at s) \<noteq> Exited (Ok ())"
    using program_end_cases [of p "ps ! k" "main_at s"] assms(4) by (auto simp: held_def)
  show ?thesis
    using below self m assms(3,4) k(1) len proxy_moves(2,3) by (auto simp: held_def nth_list_update)
next
  case (stop_returns k)
  from held_stage [OF assms(2-4) stop_returns(3)] have "i < Suc k" .
  with stop_returns assms(4) show ?thesis by (auto simp: held_def has_exited_def)
next
  case exits
  from held_stage [OF assms(2-4) exits(3)] show ?thesis by simp
qed (use assms(4) in \<open>auto simp: held_def has_exited_def split: main_point.splits\<close>)

text \<open>
  C23: One client that stays connected keeps the whole program from shutting down: as long as a
  connection of a proxy is served, every run, with any signals, leaves the proxies started before
  it without a call of \<open>Stop\<close>, still listening if they were, and the program never ends normally.
  With both proxies running, an idle MySQL client keeps the PostgreSQL port open.
\<close>

theorem idle_client_blocks_shutdown:
  assumes "program_reachable ps s" "\<not> has_exited s" "i < length ps"
    and "c \<in> serving (running s ! i)" "stop_call (running s ! i) \<noteq> Stopped"
    and "program_run ps as s t" "ProxyMoves i (Connection c) \<notin> set as"
  shows "main_at t \<noteq> Exited (Ok ())
    \<and> (\<forall>j < i. stop_call (running t ! j) = NotCalled \<and> listener (running t ! j) \<noteq> Shut)
    \<and> (has_exited t \<or> c \<in> serving (running t ! i))"
proof -
  have inv: "program_inv ps s" by (rule program_reachable_inv [OF assms(1)])
  have len: "length (running s) = length ps" using inv by (simp add: program_inv_def)
  have "stop_call (running s ! j) = NotCalled \<and> listener (running s ! j) \<noteq> Shut" if "j < i" for j
  proof -
    have ok: "proxy_ok (running s ! j)" "stage_ok j (main_at s) (running s ! j)" "stage_ok i (main_at s) (running s ! i)"
      using inv that assms(3) by (simp_all add: program_inv_def)
    then have "stop_call (running s ! j) = NotCalled"
      using that assms(2,5) by (auto simp: stage_ok_def has_exited_def split: main_point.splits)
    with ok(1) show ?thesis using listener_not_Shut by blast
  qed
  then have "held i c s" using assms(2,4,5) by (auto simp: held_def has_exited_def)
  with assms(6) inv have "held i c t" using assms(7)
  proof (induction rule: program_run.induct)
    case (steps a s u as t)
    then show ?case using held_step [of ps a s u i c] program_inv_step assms(3) by auto
  qed simp
  then show ?thesis by (auto simp: held_def)
qed

text \<open>What holds of a proxy from the moment it listens, when \<open>Stop\<close> was not called before that.\<close>

definition to_be_shut :: "'c proxy_state \<Rightarrow> bool" where
  "to_be_shut p \<longleftrightarrow> listener p = Shut \<or> listener p = Open \<and> stop_call p \<in> {NotCalled, QuitNext, CloseNext}"

lemma to_be_shut_step:
  assumes "proxy_step a g p q" "proxy_ok p" "g = Stopper \<longrightarrow> stop_call p \<noteq> Stopped" "to_be_shut p"
  shows "to_be_shut q"
  using assms(1) by cases (use assms(2-4) in \<open>auto simp: to_be_shut_def proxy_ok_def staged_def quiet_def\<close>)

lemma to_be_shut_run:
  "program_run ps as s t \<Longrightarrow> program_inv ps s \<Longrightarrow> i < length ps \<Longrightarrow> to_be_shut (running s ! i) \<Longrightarrow>
   to_be_shut (running t ! i)"
proof (induction rule: program_run.induct)
  case (steps a s t as u)
  have "to_be_shut (running t ! i)"
    using steps.hyps(1)
  proof cases
    case (proxy_moves k g p)
    then show ?thesis
      using steps.prems to_be_shut_step [of "listen_addr (ps ! k)" g "running s ! k" p]
      by (cases "k = i") (auto simp: program_inv_def)
  qed (use steps.prems in simp_all)
  with steps show ?case using program_inv_step by blast
qed simp

text \<open>
  C24: When the program has ended normally, \<open>Stop\<close> of every proxy has returned. A proxy that
  listened before \<open>Stop\<close> was called has closed its listener, told its accept loop to end, and at
  most one of its clients is still there to be cut off. Of a proxy that did not listen by then
  nothing of this holds, as \<open>signal_before_listening\<close> shows.
\<close>

theorem normal_end:
  assumes "program_reachable ps s" "program_run ps as s t" "main_at t = Exited (Ok ())" "i < length ps"
  shows "stop_call (running t ! i) = Stopped \<and> wg (running t ! i) = card (serving (running t ! i))
    \<and> (stop_call (running s ! i) = NotCalled \<and> listener (running s ! i) = Open \<longrightarrow>
         listener (running t ! i) = Shut \<and> quit (running t ! i) \<and> card (serving (running t ! i)) \<le> 1)"
proof -
  have inv: "program_inv ps s" by (rule program_reachable_inv [OF assms(1)])
  have ok: "proxy_ok (running t ! i)" "stage_ok i (main_at t) (running t ! i)"
    using program_inv_run [OF assms(2) inv] assms(4) by (simp_all add: program_inv_def)
  have shut: "listener (running t ! i) = Shut"
    if "stop_call (running s ! i) = NotCalled" "listener (running s ! i) = Open"
    using to_be_shut_run [OF assms(2) inv assms(4)] that ok(2) assms(3) by (auto simp: to_be_shut_def stage_ok_def)
  have "card A \<le> 1" if "A \<subseteq> {x}" for A and x :: 'c
    using card_mono [OF _ that] by simp
  then show ?thesis
    using ok assms(3) shut by (auto simp: proxy_ok_def stage_ok_def counted_def staged_def at_most_one_late_def)
qed

text \<open>\<open>Stop\<close> of a proxy only goes forward, and is called once.\<close>

lemma proxy_stop_forward:
  "proxy_step a g p q \<Longrightarrow> g = Stopper \<longrightarrow> stop_call p \<noteq> Stopped \<Longrightarrow> stop_call p \<le> stop_call q"
  by (induction rule: proxy_step.induct) (auto simp: less_eq_stopping_def)

lemma stop_forward:
  "program_run ps as s t \<Longrightarrow> i < length (running s) \<Longrightarrow>
   length (running t) = length (running s) \<and> stop_call (running s ! i) \<le> stop_call (running t ! i)"
proof (induction rule: program_run.induct)
  case (steps a s t as u)
  from steps(1) have "length (running t) = length (running s) \<and> stop_call (running s ! i) \<le> stop_call (running t ! i)"
  proof cases
    case (proxy_moves k g p)
    then show ?thesis using proxy_stop_forward [OF proxy_moves(6)] by (auto simp: nth_list_update)
  qed simp_all
  with steps show ?case by auto
qed simp

text \<open>The steps of a shutdown in which nobody new connects and nothing goes wrong.\<close>

definition orderly :: "'c program_action \<Rightarrow> bool" where
  "orderly a \<longleftrightarrow>
     (case a of ProxyMoves i g \<Rightarrow> g \<noteq> Acceptor | Crashes i c \<Rightarrow> False | _ \<Rightarrow> True)"

definition stop_work :: "'c proxy_state \<Rightarrow> nat" where
  "stop_work p = stage_no Stopped - stage_no (stop_call p) + card (serving p)"

lemma stop_progress:
  assumes "proxy_ok p" "stop_call p \<noteq> Stopped" "stop_call p \<noteq> StopPanicked"
  shows "\<exists>g q. g \<noteq> Acceptor \<and> proxy_step a g p q \<and> stop_work q < stop_work p
    \<and> accept_loop q = accept_loop p \<and> stop_call q \<noteq> StopPanicked"
proof -
  have found: ?thesis if "g \<noteq> Acceptor" "proxy_step a g p q" "stop_work q < stop_work p"
      "accept_loop q = accept_loop p" "stop_call q \<noteq> StopPanicked" for g q
    using that by blast
  show ?thesis
  proof (cases "stop_call p")
    case NotCalled
    then have "proxy_step a Stopper p (p\<lparr>stop_call := (if listener p = NoListener then Waiting else QuitNext)\<rparr>)"
      by (intro proxy_step.stop_called) simp
    moreover have "stop_work (p\<lparr>stop_call := (if listener p = NoListener then Waiting else QuitNext)\<rparr>) < stop_work p"
      using NotCalled by (simp add: stop_work_def)
    ultimately show ?thesis by (rule found [rotated]) simp_all
  next
    case QuitNext
    then have "\<not> quit p" using assms(1) by (simp add: proxy_ok_def quiet_def)
    then have "proxy_step a Stopper p (p\<lparr>quit := True, stop_call := CloseNext\<rparr>)"
      using proxy_step.closes_quit [of p a] QuitNext by simp
    moreover have "stop_work (p\<lparr>quit := True, stop_call := CloseNext\<rparr>) < stop_work p"
      using QuitNext by (simp add: stop_work_def)
    ultimately show ?thesis by (rule found [rotated]) simp_all
  next
    case CloseNext
    then have "proxy_step a Stopper p (p\<lparr>listener := Shut, stop_call := Waiting\<rparr>)"
      by (intro proxy_step.closes_listener) simp
    moreover have "stop_work (p\<lparr>listener := Shut, stop_call := Waiting\<rparr>) < stop_work p"
      using CloseNext by (simp add: stop_work_def)
    ultimately show ?thesis by (rule found [rotated]) simp_all
  next
    case Waiting
    have c: "finite (serving p)" "wg p = card (serving p)" using assms(1) by (simp_all add: proxy_ok_def counted_def)
    show ?thesis
    proof (cases "serving p = {}")
      case True
      then have "proxy_step a Stopper p (p\<lparr>stop_call := Stopped\<rparr>)"
        using c Waiting by (intro proxy_step.waited) simp_all
      moreover have "stop_work (p\<lparr>stop_call := Stopped\<rparr>) < stop_work p"
        using Waiting by (simp add: stop_work_def)
      ultimately show ?thesis by (rule found [rotated]) simp_all
    next
      case False
      then obtain x where x: "x \<in> serving p" by blast
      then have "proxy_step a (Connection x) p (p\<lparr>wg := wg p - 1, serving := serving p - {x}\<rparr>)"
        by (rule proxy_step.connection_ends)
      moreover have "stop_work (p\<lparr>wg := wg p - 1, serving := serving p - {x}\<rparr>) < stop_work p"
        using x c(1) card_Diff1_less by (fastforce simp: stop_work_def)
      ultimately show ?thesis by (rule found [rotated]) (simp_all add: assms(3))
    qed
  qed (use assms in simp_all)
qed

lemma stops_one:
  assumes "program_inv ps s" "main_at s = Stopping (Suc i)" "i < length ps"
  shows "\<exists>as t. program_run ps as s t \<and> list_all orderly as \<and> program_inv ps t \<and> main_at t = Stopping i"
  using assms
proof (induction "stop_work (running s ! i)" arbitrary: s rule: less_induct)
  case less
  have ok: "proxy_ok (running s ! i)" "stage_ok i (main_at s) (running s ! i)" and len: "length (running s) = length ps"
    using less.prems(1,3) by (simp_all add: program_inv_def)
  show ?case
  proof (cases "stop_call (running s ! i) = Stopped")
    case True
    then have st: "program_step ps StopReturns s (s\<lparr>main_at := Stopping i\<rparr>)"
      using less.prems(2) by (intro program_step.stop_returns)
    from program_inv_step [OF st less.prems(1)] st show ?thesis
      by (intro exI [of _ "[StopReturns]"] exI [of _ "s\<lparr>main_at := Stopping i\<rparr>"]) (simp add: orderly_def)
  next
    case False
    have np: "stop_call (running s ! i) \<noteq> StopPanicked" "\<forall>e. accept_loop (running s ! i) \<noteq> Finished (Err e)"
      using ok(2) less.prems(2) by (simp_all add: stage_ok_def)
    from stop_progress [OF ok(1) False np(1), of "listen_addr (ps ! i)"]
    obtain g q where g: "g \<noteq> Acceptor" "proxy_step (listen_addr (ps ! i)) g (running s ! i) q"
      "stop_work q < stop_work (running s ! i)" "accept_loop q = accept_loop (running s ! i)" "stop_call q \<noteq> StopPanicked"
      by blast
    define t where "t = s\<lparr>running := (running s)[i := q], main_at := main_at s\<rparr>"
    have "program_end (ps ! i) q (main_at s) = main_at s"
      using g(4,5) np(2) program_end_cases [of q "ps ! i" "main_at s"]
      by (auto simp: program_end_def split: accepting.split result.split)
    then have st: "program_step ps (ProxyMoves i g) s t"
      using program_step.proxy_moves [of s i g ps q] g(2) False less.prems(2,3) len
      by (simp add: t_def has_exited_def)
    have inv: "program_inv ps t" by (rule program_inv_step [OF st less.prems(1)])
    have "main_at t = Stopping (Suc i)" "running t ! i = q" using less.prems(2,3) len by (simp_all add: t_def)
    with less.hyps [of t] inv g(3) less.prems(3) obtain as u where
      "program_run ps as t u" "list_all orderly as" "program_inv ps u" "main_at u = Stopping i" by auto
    with st g(1) show ?thesis
      by (intro exI [of _ "ProxyMoves i g # as"] exI [of _ u]) (auto simp: orderly_def)
  qed
qed

lemma stops_all:
  assumes "program_inv ps s" "main_at s = Stopping k" "k \<le> length ps"
  shows "\<exists>as t. program_run ps as s t \<and> list_all orderly as \<and> main_at t = Exited (Ok ())"
  using assms
proof (induction k arbitrary: s)
  case 0
  then have "program_step ps Exits s (s\<lparr>main_at := Exited (Ok ())\<rparr>)" by (intro program_step.exits)
  then show ?case by (intro exI [of _ "[Exits]"] exI [of _ "s\<lparr>main_at := Exited (Ok ())\<rparr>"]) (simp add: orderly_def)
next
  case (Suc k)
  from stops_one [OF Suc.prems(1,2)] Suc.prems(3) obtain as t where
    t: "program_run ps as s t" "list_all orderly as" "program_inv ps t" "main_at t = Stopping k" by auto
  with Suc.IH [of t] Suc.prems(3) obtain bs u where
    "program_run ps bs t u" "list_all orderly bs" "main_at u = Exited (Ok ())" by auto
  with t show ?case by (intro exI [of _ "as @ bs"] exI [of _ u]) (auto simp: program_run_append)
qed


section \<open>Witnesses\<close>

lemma program_reachable_step:
  assumes "program_reachable ps s" "program_step ps a s t"
  shows "program_reachable ps t"
proof -
  from assms(1) obtain as where "program_run ps as (started_program ps) s" unfolding program_reachable_def by blast
  then have "program_run ps (as @ [a]) (started_program ps) t" using assms(2) by (auto simp: program_run_append)
  then show ?thesis unfolding program_reachable_def by blast
qed

lemma program_reachable_start: "program_reachable ps (started_program ps)"
  unfolding program_reachable_def by (rule exI [of _ "[]"]) simp

text \<open>Both proxies; the one for MySQL has a client.\<close>

definition both_proxies :: "started list" where
  "both_proxies = [PgProxy (proxy_for DefaultConfig (ProxyAddr DefaultConfig)),
     MySQLProxy (proxy_for DefaultConfig (MySQLProxyAddr DefaultConfig))]"

definition mysql_client :: "nat program" where
  "mysql_client = \<lparr>running = [new_proxy, serves_one], main_at = AwaitSignal\<rparr>"

lemma mysql_client_reachable: "program_reachable both_proxies mysql_client"
proof -
  let ?a = "listen_addr (both_proxies ! 1)"
  let ?p = "new_proxy\<lparr>listener := Open, accept_loop := Accepting\<rparr> :: nat proxy_state"
  let ?s = "\<lambda>p. \<lparr>running = [new_proxy, p], main_at = AwaitSignal\<rparr> :: nat program"
  have step: "program_reachable both_proxies (?s q)"
    if "program_reachable both_proxies (?s p)" "proxy_step ?a Acceptor p q" "program_end (both_proxies ! 1) q AwaitSignal = AwaitSignal"
    for p q
    using program_reachable_step [OF that(1) program_step.proxy_moves [of "?s p" 1 Acceptor both_proxies q]] that(2,3)
    by (simp add: has_exited_def)
  have "program_reachable both_proxies (?s new_proxy)"
    using program_reachable_start [of both_proxies] by (simp add: started_program_def both_proxies_def)
  moreover have "proxy_step ?a Acceptor new_proxy ?p" by (rule proxy_step.listens) (simp add: new_proxy_def)
  ultimately have "program_reachable both_proxies (?s ?p)"
    by (rule step) (simp add: program_end_def new_proxy_def)
  moreover have "proxy_step ?a Acceptor ?p accepted_one"
    using proxy_step.accepts [of ?p 1 ?a] by (simp add: new_proxy_def accepted_one_def)
  ultimately have "program_reachable both_proxies (?s accepted_one)"
    by (rule step) (simp add: program_end_def accepted_one_def)
  moreover have "proxy_step ?a Acceptor accepted_one serves_one"
    using proxy_step.spawns [of accepted_one 1 ?a] by (simp add: accepted_one_def serves_one_def)
  ultimately have "program_reachable both_proxies (?s serves_one)"
    by (rule step) (simp add: program_end_def serves_one_def accepted_one_def)
  then show ?thesis by (simp add: mysql_client_def)
qed

theorem idle_client_blocks_shutdown_witness:
  "\<exists>t. program_run both_proxies [Signal] mysql_client t \<and> main_at t = Stopping 2 \<and>
     stop_call (running t ! 0) = NotCalled \<and> 1 \<in> serving (running t ! 1)"
proof -
  let ?t = "mysql_client\<lparr>main_at := Stopping 2\<rparr>"
  have r: "program_run both_proxies [Signal] mysql_client ?t"
    using program_step.signalled [of mysql_client both_proxies] by (simp add: mysql_client_def numeral_2_eq_2)
  have s: "\<not> has_exited mysql_client" "1 < length both_proxies" "1 \<in> serving (running mysql_client ! 1)"
    "stop_call (running mysql_client ! 1) \<noteq> Stopped"
    by (simp_all add: mysql_client_def has_exited_def both_proxies_def serves_one_def accepted_one_def)
  from idle_client_blocks_shutdown [OF mysql_client_reachable s r] r show ?thesis by (auto simp: has_exited_def)
qed

theorem normal_end_witness:
  "\<exists>as t. program_run both_proxies as mysql_client t \<and> main_at t = Exited (Ok ()) \<and>
     stop_call (running t ! 0) = Stopped \<and> listener (running t ! 1) = Shut \<and> card (serving (running t ! 1)) \<le> 1"
proof -
  let ?t = "mysql_client\<lparr>main_at := Stopping (length (running mysql_client))\<rparr>"
  have st: "program_step both_proxies Signal mysql_client ?t"
    by (rule program_step.signalled) (simp add: mysql_client_def)
  from stops_all [OF program_inv_step [OF st program_reachable_inv [OF mysql_client_reachable]], of 2]
  obtain as t where t: "program_run both_proxies as ?t t" "main_at t = Exited (Ok ())"
    by (auto simp: mysql_client_def both_proxies_def)
  with st have r: "program_run both_proxies (Signal # as) mysql_client t" by auto
  have "0 < length both_proxies" "1 < length both_proxies" by (simp_all add: both_proxies_def)
  moreover have "stop_call (running mysql_client ! 1) = NotCalled" "listener (running mysql_client ! 1) = Open"
    by (simp_all add: mysql_client_def serves_one_def accepted_one_def)
  ultimately show ?thesis using normal_end [OF mysql_client_reachable r t(2)] r t(2) by blast
qed

text \<open>
  A signal that comes before the proxy listens: \<open>Stop\<close> returns at once, and the proxy then opens
  its listener and serves one client after the other while the program ends.
\<close>

theorem signal_before_listening:
  "\<exists>s :: nat program. program_reachable [PgProxy q] s \<and> main_at s = Exited (Ok ()) \<and>
     listener (running s ! 0) = Open \<and> serving (running s ! 0) = {1, 2}"
proof -
  let ?ps = "[PgProxy q]" and ?a = "listen_addr (PgProxy q)"
  let ?s = "\<lambda>p m. \<lparr>running = [p], main_at = m\<rparr> :: nat program"
  let ?stopped = "new_proxy\<lparr>stop_call := Stopped\<rparr> :: nat proxy_state"
  let ?p = "\<lambda>l n S C. ?stopped\<lparr>listener := Open, accept_loop := l, wg := n, serving := S, seen := C\<rparr>"
  have move: "program_reachable ?ps (?s p' (Stopping 1))"
    if "program_reachable ?ps (?s p (Stopping 1))" "proxy_step ?a g p p'" "g = Stopper \<longrightarrow> stop_call p \<noteq> Stopped"
      "program_end (PgProxy q) p' (Stopping 1) = Stopping 1" for p g p'
    using program_reachable_step [OF that(1) program_step.proxy_moves [of "?s p (Stopping 1)" 0 g ?ps p']] that(2-4)
    by (simp add: has_exited_def)
  have "program_reachable ?ps (?s new_proxy AwaitSignal)"
    using program_reachable_start [of ?ps] by (simp add: started_program_def)
  then have "program_reachable ?ps (?s new_proxy (Stopping 1))"
    using program_reachable_step [OF _ program_step.signalled [of "?s new_proxy AwaitSignal" ?ps]] by simp
  then have "program_reachable ?ps (?s (new_proxy\<lparr>stop_call := Waiting\<rparr>) (Stopping 1))"
    using move [OF _ proxy_step.stop_called [of new_proxy ?a]] by (simp add: new_proxy_def program_end_def)
  then have "program_reachable ?ps (?s ?stopped (Stopping 1))"
    using move [OF _ proxy_step.waited [of "new_proxy\<lparr>stop_call := Waiting\<rparr>" ?a]]
    by (simp add: new_proxy_def program_end_def)
  then have "program_reachable ?ps (?s (?p Accepting 0 {} {}) (Stopping 1))"
    using move [OF _ proxy_step.listens [of ?stopped ?a]] by (simp add: new_proxy_def program_end_def)
  then have "program_reachable ?ps (?s (?p (Accepted 1) 0 {} {1}) (Stopping 1))"
    using move [OF _ proxy_step.accepts [of "?p Accepting 0 {} {}" 1 ?a]] by (simp add: new_proxy_def program_end_def)
  then have "program_reachable ?ps (?s (?p Accepting 1 {1} {1}) (Stopping 1))"
    using move [OF _ proxy_step.spawns [of "?p (Accepted 1) 0 {} {1}" 1 ?a]] by (simp add: new_proxy_def program_end_def)
  then have "program_reachable ?ps (?s (?p (Accepted 2) 1 {1} {1, 2}) (Stopping 1))"
    using move [OF _ proxy_step.accepts [of "?p Accepting 1 {1} {1}" 2 ?a]]
    by (simp add: new_proxy_def program_end_def insert_commute)
  then have r: "program_reachable ?ps (?s (?p Accepting (Suc (Suc 0)) {1, 2} {1, 2}) (Stopping 1))"
    using move [OF _ proxy_step.spawns [of "?p (Accepted 2) 1 {1} {1, 2}" 2 ?a]]
    by (simp add: new_proxy_def program_end_def insert_commute)
  let ?e = "?p Accepting (Suc (Suc 0)) {1, 2} {1, 2}"
  have "program_reachable ?ps (?s ?e (Stopping 0))"
    using program_reachable_step [OF r program_step.stop_returns [of "?s ?e (Stopping 1)" 0 ?ps]]
    by (simp add: new_proxy_def)
  then have "program_reachable ?ps (?s ?e (Exited (Ok ())))"
    using program_reachable_step [OF _ program_step.exits [of "?s ?e (Stopping 0)" ?ps]] by simp
  then show ?thesis by (intro exI [of _ "?s ?e (Exited (Ok ()))"]) (simp add: new_proxy_def)
qed


end
