(* ===== verification/Magefile.thy ===== *)
theory Magefile
  imports Prelude
begin

text \<open>
  The model of \<^verbatim>\<open>magefile.go\<close>, the build tasks of the repository. The machine they run on is a
  \<open>shell\<close> over a state of its own: what running a command does and returns, which commands exist,
  the environment, and the removal of files. What the tasks print is left out.
\<close>

section \<open>The machine\<close>

record 'w shell =
  exec :: "string list \<Rightarrow> string \<Rightarrow> string list \<Rightarrow> 'w \<Rightarrow> goerror option \<times> 'w"
    \<comment> \<open>\<open>Cmd.Run\<close>: settings added to the environment, command, arguments\<close>
  run_output :: "string \<Rightarrow> string list \<Rightarrow> 'w \<Rightarrow> string result \<times> 'w"
  look_path :: "string \<Rightarrow> 'w \<Rightarrow> bool"
  getenv :: "string \<Rightarrow> string"
  remove_all :: "string \<Rightarrow> 'w \<Rightarrow> goerror option \<times> 'w"
  host_os :: string

type_synonym 'w task = "'w \<Rightarrow> unit result \<times> 'w"

text \<open>One command, a wrapped error, and tasks one after the other up to the first that fails.\<close>

definition exec_task :: "'w shell \<Rightarrow> string list \<Rightarrow> string \<Rightarrow> string list \<Rightarrow> 'w task" where
  "exec_task sh env cmd args w =
     (case exec sh env cmd args w of (None, w) \<Rightarrow> (Ok (), w) | (Some e, w) \<Rightarrow> (Err e, w))"

definition run :: "'w shell \<Rightarrow> string \<Rightarrow> string list \<Rightarrow> 'w task" where
  "run sh cmd args = exec_task sh [] cmd args"

definition wrapped :: "string \<Rightarrow> 'w task \<Rightarrow> 'w task" where
  "wrapped prefix t w = (case t w of (r, w) \<Rightarrow> (wrap_err prefix r, w))"

fun in_order :: "'w task list \<Rightarrow> 'w task" where
  "in_order [] w = (Ok (), w)"
| "in_order (t # ts) w = (case t w of (Ok _, w) \<Rightarrow> in_order ts w | (r, w) \<Rightarrow> (r, w))"

section \<open>Helper functions\<close>

fun split_slash :: "string \<Rightarrow> string list" where
  "split_slash [] = [[]]"
| "split_slash (c # s) =
     (if c = CHR ''/'' then [] # split_slash s
      else (case split_slash s of p # ps \<Rightarrow> (c # p) # ps | [] \<Rightarrow> [[c]]))"

definition filepathBase :: "string \<Rightarrow> string" where
  "filepathBase path =
     (let parts = split_slash path in
      if parts \<noteq> [] \<and> last parts \<noteq> [] then last parts
      else (case find (\<lambda>p. p \<noteq> []) (rev parts) of Some p \<Rightarrow> p | None \<Rightarrow> path))"

definition outputName :: "'w shell \<Rightarrow> string \<Rightarrow> string" where
  "outputName sh pkgPath =
     (let base = filepathBase pkgPath in if host_os sh = ''windows'' then base @ ''.exe'' else base)"

definition commandExists :: "'w shell \<Rightarrow> string \<Rightarrow> 'w \<Rightarrow> bool" where
  "commandExists sh cmd w = look_path sh cmd w"

definition cgoAvailable :: "'w shell \<Rightarrow> 'w \<Rightarrow> bool" where
  "cgoAvailable sh w \<longleftrightarrow> getenv sh ''CGO_ENABLED'' \<noteq> ''0'' \<and>
     (commandExists sh ''gcc'' w \<or> commandExists sh ''cc'' w \<or> commandExists sh ''clang'' w)"

definition Verbose :: "'w shell \<Rightarrow> bool" where
  "Verbose sh \<longleftrightarrow> getenv sh ''MAGEFILE_VERBOSE'' = ''1'' \<or> getenv sh ''MAGEFILE_VERBOSE'' = ''true''"

text \<open>\<^verbatim>\<open>strings.TrimSpace\<close>: the white space of Unicode, in UTF-8.\<close>

definition bytes_str :: "nat list \<Rightarrow> string" where
  "bytes_str ns = map char_of ns"

definition spaces :: "string list" where
  "spaces = map bytes_str ([[9], [10], [11], [12], [13], [32], [0xC2, 0x85], [0xC2, 0xA0], [0xE1, 0x9A, 0x80]] @
     map (\<lambda>n. [0xE2, 0x80, n]) [0x80..<0x8B] @
     [[0xE2, 0x80, 0xA8], [0xE2, 0x80, 0xA9], [0xE2, 0x80, 0xAF], [0xE2, 0x81, 0x9F], [0xE3, 0x80, 0x80]])"

text \<open>The rest after the first space the text starts with, if it starts with one.\<close>

definition after_space :: "string list \<Rightarrow> string \<Rightarrow> string option" where
  "after_space sps s =
     (case find (\<lambda>p. take (length p) s = p) sps of Some p \<Rightarrow> Some (drop (length p) s) | None \<Rightarrow> None)"

lemma find_SomeD: "find Q xs = Some x \<Longrightarrow> x \<in> set xs \<and> Q x"
  by (induction xs) (auto split: if_splits)

lemma after_space_shorter:
  assumes "after_space (filter (\<lambda>p. p \<noteq> []) sps) s = Some t"
  shows "length t < length s"
proof -
  from assms obtain p where p: "find (\<lambda>p. take (length p) s = p) (filter (\<lambda>p. p \<noteq> []) sps) = Some p"
      "t = drop (length p) s"
    by (auto simp: after_space_def split: option.splits)
  from find_SomeD [OF p(1)] have "p \<noteq> []" "take (length p) s = p" by simp_all
  then have "0 < length p" "length p \<le> length s" by (simp, metis length_take min.cobounded1)
  with p(2) show ?thesis unfolding length_drop p(2) by linarith
qed

function trim_left :: "string list \<Rightarrow> string \<Rightarrow> string" where
  "trim_left sps s = (case after_space (filter (\<lambda>p. p \<noteq> []) sps) s of Some t \<Rightarrow> trim_left sps t | None \<Rightarrow> s)"
  by pat_completeness auto

termination by (relation "measure (length \<circ> snd)") (auto dest: after_space_shorter)

declare trim_left.simps [simp del]

definition TrimSpace :: "string \<Rightarrow> string" where
  "TrimSpace s = rev (trim_left (map rev spaces) (rev (trim_left spaces s)))"

definition getVersion :: "'w shell \<Rightarrow> 'w \<Rightarrow> string \<times> 'w" where
  "getVersion sh w =
     (case run_output sh ''git'' [''describe'', ''--tags'', ''--always'', ''--dirty''] w of
        (Ok out, w) \<Rightarrow> (TrimSpace out, w)
      | (_, w) \<Rightarrow> (''dev'', w))"

definition dockerCompose :: "'w shell \<Rightarrow> string list \<Rightarrow> 'w task" where
  "dockerCompose sh args w =
     (let fallback = (\<lambda>w.
            if commandExists sh ''docker-compose'' w
            then run sh ''docker-compose'' ([''-f'', ''docker-compose.test.yml''] @ args) w
            else (Err (ErrorS ''neither docker nor docker-compose found in PATH''), w))
      in if commandExists sh ''docker'' w then
           (case exec sh [] ''docker'' ([''compose'', ''-f'', ''docker-compose.test.yml''] @ args) w of
              (None, w) \<Rightarrow> (Ok (), w)
            | (Some e, w) \<Rightarrow> fallback w)
         else fallback w)"

section \<open>The tasks\<close>

definition targets :: "string list" where
  "targets = [''./cmd/server'', ''./cmd/proxy'']"

definition Build :: "'w shell \<Rightarrow> 'w task" where
  "Build sh = in_order (map (\<lambda>target.
     wrapped (''build '' @ target) (run sh ''go'' [''build'', ''-o'', outputName sh target, target])) targets)"

definition test_args :: "bool \<Rightarrow> bool \<Rightarrow> string list" where
  "test_args race verbose =
     (let args = (if race then [''test'', ''-race'', ''-count=1'', ''-short'', ''./pkg/...'']
                  else [''test'', ''-count=1'', ''-short'', ''./pkg/...''])
      in if verbose then [''test'', ''-v''] @ tl args else args)"

definition Test :: "'w shell \<Rightarrow> 'w task" where
  "Test sh w =
     (let useRace = cgoAvailable sh w
      in case run sh ''go'' (test_args useRace (Verbose sh)) w of
           (Ok _, w) \<Rightarrow> (Ok (), w)
         | (Panic p, w) \<Rightarrow> (Panic p, w)
         | (Err e, w) \<Rightarrow>
             if useRace then wrapped ''unit tests failed'' (run sh ''go'' (test_args False (Verbose sh))) w
             else (Err (Wrap ''unit tests failed'' e), w))"

definition TestIntegration :: "'w shell \<Rightarrow> 'w task" where
  "TestIntegration sh w =
     (if \<not> commandExists sh ''docker-compose'' w \<and> \<not> commandExists sh ''docker'' w then
        (Err (ErrorS ''docker not found: integration tests require Docker''), w)
      else
        wrapped ''integration tests failed''
          (exec_task sh [''INTEGRATION_TEST=1''] ''go'' [''test'', ''-tags'', ''integration'', ''-v'', ''-count=1'', ''./test/...'']) w)"

definition DockerUp :: "'w shell \<Rightarrow> 'w task" where
  "DockerUp sh = dockerCompose sh [''up'', ''-d'']"

definition DockerDown :: "'w shell \<Rightarrow> 'w task" where
  "DockerDown sh = dockerCompose sh [''down'', ''--volumes'']"

definition DockerBuild :: "'w shell \<Rightarrow> 'w task" where
  "DockerBuild sh = dockerCompose sh [''build'', ''--no-cache'']"

definition Lint :: "'w shell \<Rightarrow> 'w task" where
  "Lint sh = wrapped ''go vet failed'' (run sh ''go'' [''vet'', ''./...''])"

text \<open>The twelve builds of a release: target, operating system, architecture, and the file each writes.\<close>

definition release_matrix :: "(string \<times> string \<times> string) list" where
  "release_matrix =
     [(target, goos, goarch). target \<leftarrow> targets, goos \<leftarrow> [''linux'', ''darwin'', ''windows''], goarch \<leftarrow> [''amd64'', ''arm64'']]"

definition release_output :: "string \<times> string \<times> string \<Rightarrow> string" where
  "release_output = (\<lambda>(target, goos, goarch).
     let name = filepathBase target; ext = (if goos = ''windows'' then ''.exe'' else [])
     in ''build/'' @ name @ ''_'' @ goos @ ''_'' @ goarch @ ''/'' @ name @ ext)"

definition release_build :: "'w shell \<Rightarrow> string \<Rightarrow> string \<times> string \<times> string \<Rightarrow> 'w task" where
  "release_build sh ldflags = (\<lambda>(target, goos, goarch).
     wrapped (''build '' @ target @ ''/'' @ goos @ ''/'' @ goarch)
       (exec_task sh [''GOOS='' @ goos, ''GOARCH='' @ goarch, ''CGO_ENABLED=0''] ''go''
          [''build'', ''-ldflags'', ldflags, ''-o'', release_output (target, goos, goarch), target]))"

definition Release :: "'w shell \<Rightarrow> 'w task" where
  "Release sh w =
     (case getVersion sh w of
        (version, w) \<Rightarrow>
          in_order (map (release_build sh (''-s -w -X main.version='' @ version)) release_matrix) w)"

text \<open>A file that cannot be removed is only reported.\<close>

definition Clean :: "'w shell \<Rightarrow> 'w task" where
  "Clean sh w =
     (Ok (), fold (\<lambda>dir w. snd (remove_all sh dir w)) [''build/'', ''server'', ''proxy'', ''server.exe'', ''proxy.exe''] w)"

definition All_tasks :: "'w shell \<Rightarrow> 'w task" where
  "All_tasks sh = in_order [Lint sh, Test sh, Build sh]"

text \<open>Whether Docker is there is looked up once, before the first step.\<close>

definition ci_steps :: "'w shell \<Rightarrow> 'w \<Rightarrow> (string \<times> 'w task) list" where
  "ci_steps sh w =
     [(''Clean'', Clean sh), (''Lint'', Lint sh), (''Test'', Test sh), (''Build'', Build sh)] @
     (if commandExists sh ''docker'' w \<or> commandExists sh ''docker-compose'' w
      then [(''DockerBuild'', DockerBuild sh)] else [])"

definition CI :: "'w shell \<Rightarrow> 'w task" where
  "CI sh w = in_order (map (\<lambda>(name, t). wrapped (name @ '' failed'') t) (ci_steps sh w)) w"

section \<open>What the tasks promise\<close>

lemma run_simps:
  "run sh cmd args w = (case exec sh [] cmd args w of (None, w) \<Rightarrow> (Ok (), w) | (Some e, w) \<Rightarrow> (Err e, w))"
  by (simp add: run_def exec_task_def)

text \<open>
  When CGO is not switched off and a C compiler is there, \<open>mage test\<close> passes exactly when
  \<^verbatim>\<open>go test -race\<close> over the packages passes or, whatever it failed for, a run without the race
  detector after it does; otherwise there is one run, without the race detector. Every run is a
  fresh one of the short tests, with \<^verbatim>\<open>-v\<close> when mage is verbose, and the machine is left as the
  last of them leaves it.
\<close>

theorem test_outcome:
  "Test sh w = (Ok (), w') \<longleftrightarrow>
     (let verbose = (if getenv sh ''MAGEFILE_VERBOSE'' \<in> {''1'', ''true''} then [''-v''] else []);
          go_test = (\<lambda>race w. exec sh [] ''go'' ([''test''] @ verbose @ race @ [''-count=1'', ''-short'', ''./pkg/...'']) w)
      in if getenv sh ''CGO_ENABLED'' \<noteq> ''0'' \<and> (\<exists>cc \<in> {''gcc'', ''cc'', ''clang''}. look_path sh cc w)
         then go_test [''-race''] w = (None, w') \<or> (\<exists>e w1. go_test [''-race''] w = (Some e, w1) \<and> go_test [] w1 = (None, w'))
         else go_test [] w = (None, w'))"
proof -
  have args: "test_args race (Verbose sh) =
      [''test''] @ (if getenv sh ''MAGEFILE_VERBOSE'' \<in> {''1'', ''true''} then [''-v''] else []) @
      (if race then [''-race''] else []) @ [''-count=1'', ''-short'', ''./pkg/...'']" for race
    by (simp add: test_args_def Verbose_def)
  have cgo: "getenv sh ''CGO_ENABLED'' \<noteq> ''0'' \<and> (\<exists>cc \<in> {''gcc'', ''cc'', ''clang''}. look_path sh cc w) \<longleftrightarrow> cgoAvailable sh w"
    by (simp add: cgoAvailable_def commandExists_def)
  obtain r w1 where 1: "exec sh [] ''go'' (test_args (cgoAvailable sh w) (Verbose sh)) w = (r, w1)" by fastforce
  obtain q w2 where 2: "exec sh [] ''go'' (test_args False (Verbose sh)) w1 = (q, w2)" by fastforce
  show ?thesis
    unfolding cgo Let_def using 1 2
    by (cases r; cases q; cases "cgoAvailable sh w") (auto simp: Test_def run_simps wrapped_def args)
qed

text \<open>The releases: twelve builds, one for each combination, that write twelve different files.\<close>

lemma release_files: "distinct (map release_output release_matrix) \<and> length release_matrix = 12"
  by (simp add: release_matrix_def targets_def release_output_def filepathBase_def)

lemma in_order_outcome:
  "in_order (map (\<lambda>(name, t). wrapped (name @ '' failed'') t) steps) w = (r, w') \<Longrightarrow>
   (case r of
      Ok _ \<Rightarrow> in_order (map snd steps) w = (Ok (), w')
    | Err e \<Rightarrow> (\<exists>before name t later w1 e'. steps = before @ (name, t) # later \<and>
        in_order (map snd before) w = (Ok (), w1) \<and> t w1 = (Err e', w') \<and> e = Wrap (name @ '' failed'') e')
    | Panic p \<Rightarrow> True)"
proof (induction steps arbitrary: w)
  case (Cons s steps)
  obtain name t where s: "s = (name, t)" by fastforce
  obtain q w1 where t: "t w = (q, w1)" by fastforce
  then have wt: "wrapped (name @ '' failed'') t w = (wrap_err (name @ '' failed'') q, w1)" by (simp add: wrapped_def)
  show ?case
  proof (cases q)
    case (Ok u)
    with Cons.prems s wt have "in_order (map (\<lambda>(name, t). wrapped (name @ '' failed'') t) steps) w1 = (r, w')"
      by simp
    note ih = Cons.IH [OF this]
    show ?thesis
    proof (cases r)
      case (Err e)
      with ih obtain before name' t' later w2 e' where b: "steps = before @ (name', t') # later"
          "in_order (map snd before) w1 = (Ok (), w2)" "t' w2 = (Err e', w')" "e = Wrap (name' @ '' failed'') e'"
        by auto
      then have "s # steps = (s # before) @ (name', t') # later"
        and "in_order (map snd (s # before)) w = (Ok (), w2)"
        using s t Ok by simp_all
      with b(3,4) show ?thesis unfolding Err result.case by blast
    qed (use ih s t Ok in simp_all)
  next
    case (Err e)
    then have r: "r = Err (Wrap (name @ '' failed'') e)" and f: "t w = (Err e, w')"
      using Cons.prems s t wt by auto
    have "s # steps = [] @ (name, t) # steps" "in_order (map snd []) w = (Ok (), w)" using s by simp_all
    with f show ?thesis unfolding r result.case by blast
  next
    case (Panic p)
    then show ?thesis using Cons.prems s wt by auto
  qed
qed auto

text \<open>
  The CI pipeline passes when its steps all do, in order; otherwise its error names the first step
  that failed, and no later step has run.
\<close>

theorem ci_outcome:
  assumes "CI sh w = (r, w')"
  shows "case r of
      Ok _ \<Rightarrow> in_order (map snd (ci_steps sh w)) w = (Ok (), w')
    | Err e \<Rightarrow> (\<exists>before name t later w1 e'. ci_steps sh w = before @ (name, t) # later \<and>
        in_order (map snd before) w = (Ok (), w1) \<and> t w1 = (Err e', w') \<and> e = Wrap (name @ '' failed'') e')
    | Panic p \<Rightarrow> True"
  by (rule in_order_outcome) (use assms in \<open>simp add: CI_def\<close>)

text \<open>A failure of \<open>docker compose\<close> is reported as Docker missing.\<close>

theorem docker_failure_misreported:
  assumes "commandExists sh ''docker'' w" "exec sh [] ''docker'' ([''compose'', ''-f'', ''docker-compose.test.yml''] @ args) w = (Some e, w1)"
    and "\<not> commandExists sh ''docker-compose'' w1"
  shows "dockerCompose sh args w = (Err (ErrorS ''neither docker nor docker-compose found in PATH''), w1)"
  using assms by (simp add: dockerCompose_def)

section \<open>Witnesses\<close>

text \<open>A machine that writes down the commands it runs and fails those with the flag \<open>-race\<close>.\<close>

definition logging_shell :: "(string \<times> string list) list shell" where
  "logging_shell =
     \<lparr>exec = (\<lambda>env cmd args w. (if ''-race'' \<in> set args then Some EOF else None, w @ [(cmd, args)])),
      run_output = (\<lambda>cmd args w. (Ok (''v1.0'' @ [CHR 0x0A]), w)), look_path = (\<lambda>cmd w. cmd = ''gcc''),
      getenv = (\<lambda>_. []), remove_all = (\<lambda>dir w. (None, w)), host_os = ''linux''\<rparr>"

theorem test_outcome_example:
  "Test logging_shell [] = (Ok (),
     [(''go'', [''test'', ''-race'', ''-count=1'', ''-short'', ''./pkg/...'']),
      (''go'', [''test'', ''-count=1'', ''-short'', ''./pkg/...''])])"
  by (simp add: Test_def run_simps logging_shell_def test_args_def cgoAvailable_def commandExists_def Verbose_def wrapped_def)

theorem ci_outcome_witness:
  "\<exists>w'. CI logging_shell [] = (Ok (), w') \<and> in_order (map snd (ci_steps logging_shell [])) [] = (Ok (), w')"
proof -
  have c: "CI logging_shell [] = (Ok (), snd (CI logging_shell []))"
    by (simp add: CI_def ci_steps_def Clean_def Lint_def Test_def Build_def targets_def run_simps logging_shell_def
        test_args_def cgoAvailable_def commandExists_def Verbose_def wrapped_def outputName_def filepathBase_def)
  from ci_outcome [OF c] c show ?thesis by auto
qed

theorem docker_failure_misreported_witness:
  "dockerCompose (logging_shell\<lparr>look_path := (\<lambda>cmd w. cmd = ''docker'')\<rparr>) [''-race''] [] =
   (Err (ErrorS ''neither docker nor docker-compose found in PATH''),
    [(''docker'', [''compose'', ''-f'', ''docker-compose.test.yml'', ''-race''])])"
  by (rule docker_failure_misreported [where e = EOF]) (simp_all add: commandExists_def logging_shell_def)

end
