(* ===== verification/Spec2Isabelle.thy ===== *)
theory Spec2Isabelle
  imports PgParser MyProtocol SqlCommand MyTunnel PgTunnel LegacyHandler Interleaving PoolMutex ServerProgram ProxyProgram Magefile
begin

text \<open>
  A model of http-pg, a tunnel for PostgreSQL and MySQL connections over encrypted HTTP.

  The program. A database client connects to a proxy (\<^verbatim>\<open>cmd/proxy\<close>) that speaks the database's
  wire protocol (\<^verbatim>\<open>pkg/pgproxy\<close> with \<^verbatim>\<open>pkg/pgparser\<close>, \<^verbatim>\<open>pkg/mysqlproxy\<close>). The proxy opens a
  session at the server and sends every statement to it as an encrypted JSON message over HTTP
  (\<^verbatim>\<open>pkg/httpclient\<close>, \<^verbatim>\<open>pkg/crypto\<close>). The server (\<^verbatim>\<open>cmd/server\<close>) hands the HTTP requests to
  its handler (\<^verbatim>\<open>pkg/handler\<close>, through \<^verbatim>\<open>pkg/handler/adapter\<close> for Gin or Fiber), which keeps one
  database connection per session in a pool (\<^verbatim>\<open>pkg/pgpool\<close>, \<^verbatim>\<open>pkg/mysqlpool\<close>), runs the statement
  there and answers with an encrypted JSON response, which the proxy turns back into packets of
  the client's protocol.

  How the code is written in HOL. A Go function that may fail or panic returns a \<open>result\<close>:
  \<open>Ok\<close>, \<open>Err\<close> or \<open>Panic\<close>. Bytes are 8-bit words, Go strings are lists of the 256 characters.
  State is passed explicitly: a function of the code that changes an object returns its record
  updated. What the code takes from outside (random bytes, fresh ids, bytes from a peer, a
  driver's answers) is an argument. Names are the source's, with a prefix \<open>my_\<close>, \<open>pg_\<close> or
  \<open>legacy_\<close> where two packages use the same one.
\<close>

section \<open>The theories\<close>

text \<open>
  \<^item> \<open>Prelude\<close>: results, slicing, fixed-width integers, decimal text, readers and writers with
    what they still deliver or accept.
  \<^item> \<open>Utf8\<close>, \<open>Json\<close>, \<open>Base64\<close>, \<open>Sha256\<close>, \<open>AesGcm\<close>: what the program uses of Go's standard
    library. The JSON parser nests at most 10000 deep, as the library does; \<open>gcm_limit\<close> is GCM's
    bound of \<open>(2^32 - 2) * 16\<close> bytes. The locale \<open>aead\<close> states what sealing and opening promise
    each other and is interpreted by the model of AES-GCM.
  \<^item> \<open>Crypto\<close> (\<^verbatim>\<open>pkg/crypto\<close>), \<open>Messages\<close> (\<^verbatim>\<open>pkg/handler/types.go\<close> and the proxies' copies): an
    encrypted message is read back, and nothing else is accepted under the key; a request and a
    response survive the channel (locale \<open>sealed_codec\<close>, three interpretations).
  \<^item> \<open>PgParser\<close> (\<^verbatim>\<open>pkg/pgparser\<close>), \<open>MyProtocol\<close> (\<^verbatim>\<open>pkg/mysqlproxy/protocol.go\<close>): exactly which bytes
    the readers accept, round trips of each packet with a reader of its own, exactly when parsing
    a handshake response panics. A MySQL packet carries at most \<open>2^24 - 1\<close> bytes.
  \<^item> \<open>SqlCommand\<close>: the copies of \<open>sqlCommandType\<close> and the completion tags.
  \<^item> \<open>PoolCore\<close>: the interface \<open>Pool\<close> and its contract, the locale \<open>session_pool\<close>; interpreted
    in \<open>PgPool\<close> and \<open>MyPool\<close> (\<^verbatim>\<open>pkg/pgpool\<close>, \<^verbatim>\<open>pkg/mysqlpool\<close>), which also show that sessions never
    share a connection and none leaks, and what a query's rows become.
  \<^item> \<open>Handler\<close> (\<^verbatim>\<open>pkg/handler/handler.go\<close>): one call is one step on the record \<open>Handler\<close>. \<open>serve\<close>
    is the abstract service on plain requests, and \<open>HandleQuery\<close> refines it on encrypted ones.
    The locale \<open>handler_pools\<close> proves the bookkeeping of sessions from the pools' contract.
    \<open>Server\<close> interprets it on the two pools.
  \<^item> \<open>Interleaving\<close>: the same server with the calls taken apart at the mutexes, as an inductive
    step relation over any number of goroutines; the invariant of every interleaving, the answers
    of a request that is not interrupted, and the use of a connection after its release that the
    code allows. \<open>PoolMutex\<close>: the mutex of a pool (\<^verbatim>\<open>pkg/pgpool\<close>, \<^verbatim>\<open>pkg/mysqlpool\<close>) with the
    wait for a connection that \<open>AcquireSession\<close> does inside it.
  \<^item> \<open>Adapter\<close> (\<^verbatim>\<open>pkg/handler/adapter\<close>), \<open>HttpClient\<close> (\<^verbatim>\<open>pkg/httpclient\<close>): the two ends of HTTP.
    \<open>SessionApi\<close> is what the proxies use of the client, and when a conversation uses it properly
    (\<open>balanced\<close>). \<open>Tunnel\<close> joins the ends: what the client asks is what the handler's service does
    (locales \<open>transport_laws\<close>, \<open>session_api\<close>, interpreted on a network that delivers).
  \<^item> \<open>MyProxy\<close>, \<open>MyClient\<close>, \<open>MyTunnel\<close> (\<^verbatim>\<open>pkg/mysqlproxy/proxy.go\<close>): a MySQL connection from the
    greeting to the end of its session, what a client decodes from the answers, and both over the
    tunnel down to the pools. \<open>my_loop\<close> terminates because every turn consumes client bytes.
  \<^item> \<open>PgProxy\<close>, \<open>PgTunnel\<close> (\<^verbatim>\<open>pkg/pgproxy\<close>): the same for PostgreSQL. \<^verbatim>\<open>pgproto3\<close> is a parameter with
    the laws of locale \<open>pgproto_laws\<close>, interpreted for the examples on a reader of frontend messages
    (bodies up to \<open>2^30\<close> bytes). \<open>pg_loop\<close> is a partial function, since such a parameter need not consume
    anything; under the laws it is shown to return.
  \<^item> \<open>LegacyHandler\<close> (\<^verbatim>\<open>pkg/httphandler\<close>): the handler before the present one.
  \<^item> \<open>Config\<close> (\<^verbatim>\<open>internal/config\<close>), \<open>Programs\<close> (\<^verbatim>\<open>cmd\<close>): what the two programs load, check and create.
  \<^item> \<open>ServerProgram\<close> (\<^verbatim>\<open>cmd/server\<close>): the server in the Gin and in the Fiber build, from its start over a
    list of requests to the deferred calls that close the pools.
  \<^item> \<open>Listener\<close> (\<open>Start\<close> and \<open>Stop\<close> of both proxies): a step relation over the accept loop, the caller of
    \<open>Stop\<close> and the goroutines of the connections. \<open>ProxyProgram\<close> (\<^verbatim>\<open>cmd/proxy\<close>) runs several such
    proxies under one \<open>main\<close>, with the signal and the deferred calls of \<open>Stop\<close>.
  \<^item> \<open>Magefile\<close> (\<^verbatim>\<open>magefile.go\<close>): the build tasks over a machine that is a parameter.
\<close>

section \<open>What is shown\<close>

text \<open>
  End to end: the commands of a MySQL client and the messages of a PostgreSQL client get through
  proxy, encryption, HTTP, handler and pools exactly the answers of the plain service, and leave
  no session behind; so do the failures, a session that is refused and a request that fails at the
  server (\<open>MyTunnel\<close>, \<open>PgTunnel\<close>). Each proxy closes the session it opened exactly once,
  returns when its client's bytes end, and panics only where the theorems say. Without the key no
  request has an effect but closing a session by its name. Connections are neither shared nor
  leaked, for any sequence of calls (\<open>Server\<close>) and for any interleaving of their sections
  (\<open>Interleaving\<close>); but a pool without a free connection lets no call past its mutex while a new
  session waits for one (\<open>PoolMutex\<close>). The theorems on errors, round trips and single operations are in the theory of
  each component; witnesses apply each theorem to a concrete run.

  Starting and stopping: a server gives every connection back before it ends (\<open>ServerProgram\<close>),
  whichever requests it got; on the requests of its four routes the two builds differ only in what a
  panic does. Each framework has a matcher of paths of its own, of which \<open>matcher_ok\<close> says what is
  documented for these routes. The proxy program can be shut down from every state, but only when
  the clients leave, and a client of one proxy keeps the others open meanwhile; a proxy that was
  signalled before it listened is not stopped at all (\<open>ProxyProgram\<close>). On plain statements the first handler does what the
  present one does (\<open>LegacyHandler\<close>).

  The end-to-end theorems assume a network that delivers, valid UTF-8 texts (JSON replaces others),
  messages under the limits above and ids of at least eight bytes, which \<^verbatim>\<open>uuid.New\<close> makes.
\<close>

section \<open>What is not modelled\<close>

text \<open>
  \<^item> Sockets and flags: whether listening succeeds, when a connection or a signal comes and which
    configuration file is named are choices of the environment.
  \<^item> Time: timeouts and cancelled contexts appear as the errors they cause, and the ten seconds the
    Gin build gives its open requests at shutdown not at all: requests are answered before it.
  \<^item> Log lines, except for the slice \<open>sessionID[:8]\<close> in them, which may panic.
  \<^item> Libraries that are not part of the repository: \<^verbatim>\<open>pgxpool\<close>, \<^verbatim>\<open>database/sql\<close> with its driver,
    \<^verbatim>\<open>pgproto3\<close>, \<^verbatim>\<open>net/http\<close>, Gin, Fiber and their matching of paths, and the texts of errors of
    \<^verbatim>\<open>encoding/json\<close>. They are parameters.
  \<^item> Data races on Go values, so also what the unprotected map of \<^verbatim>\<open>pkg/httphandler\<close> does under
    concurrent requests.
  \<^item> Tests and Docker files.
\<close>

end
